(* ===== verification/Bp_Prelude.thy ===== *)
theory Bp_Prelude
  imports Main "HOL-Library.Word"
begin

text \<open>
  Shared vocabulary of the BorderPatrol development: how a C run can stop
  (\<open>cerror\<close>), results as sums with a bind, memory as byte lists (\<open>string\<close>),
  little- and big-endian integers, the C string functions the sources call
  (\<^verbatim>\<open>strlen\<close>, \<^verbatim>\<open>strstr\<close>, \<^verbatim>\<open>strtok\<close>, \<^verbatim>\<open>atoi\<close>, decimal \<^verbatim>\<open>printf\<close> conversions) and the
  conversions of the C integer types.  The machine is x86 with an LP64 ABI:
  \<^verbatim>\<open>char\<close> is signed, \<^verbatim>\<open>short\<close> has 16 bits, \<^verbatim>\<open>int\<close> 32, \<^verbatim>\<open>long\<close> 64, and integers are
  stored least significant byte first.
\<close>

section \<open>How a run stops\<close>

datatype cerror =
    Exit int        \<comment> \<open>\<^verbatim>\<open>exit(status)\<close>\<close>
  | AssertFail      \<comment> \<open>a failed \<^verbatim>\<open>assert\<close>\<close>
  | OutOfBounds     \<comment> \<open>an access outside an object: undefined behaviour\<close>
  | NullDeref       \<comment> \<open>a dereferenced null pointer: undefined behaviour\<close>
  | Blocked         \<comment> \<open>the kernel has given no further answer\<close>

type_synonym 'a result = "cerror + 'a"

definition rbind :: "'a result \<Rightarrow> ('a \<Rightarrow> 'b result) \<Rightarrow> 'b result" where
  "rbind x f = (case x of Inl e \<Rightarrow> Inl e | Inr y \<Rightarrow> f y)"

definition assert_c :: "bool \<Rightarrow> unit result" where
  "assert_c b = (if b then Inr () else Inl AssertFail)"

named_theorems result_simps \<open>rewriting of results\<close>
named_theorems result_elims \<open>inversion of successful results\<close>

lemma rbind_Inl [simp, result_simps]: "rbind (Inl e) f = Inl e"
  by (simp add: rbind_def)

lemma rbind_Inr [simp, result_simps]: "rbind (Inr y) f = f y"
  by (simp add: rbind_def)

lemma rbind_InrE [result_elims]:
  assumes "rbind x f = Inr z"
  obtains y where "x = Inr y" and "f y = Inr z"
  using assms by (cases x) auto

lemma assert_c_Inr [simp, result_simps]: "assert_c b = Inr u \<longleftrightarrow> b"
  by (simp add: assert_c_def)

lemma assert_c_True [simp, result_simps]: "assert_c True = Inr ()"
  by (simp add: assert_c_def)

lemma assert_c_False [simp, result_simps]: "assert_c False = Inl AssertFail"
  by (simp add: assert_c_def)

text \<open>Running an operation over a list, stopping at the first failure.\<close>

primrec run_all :: "('c \<Rightarrow> 's \<Rightarrow> 's result) \<Rightarrow> 'c list \<Rightarrow> 's \<Rightarrow> 's result" where
  "run_all f [] s = Inr s"
| "run_all f (c # cs) s = rbind (f c s) (run_all f cs)"

lemma run_all_append:
  "run_all f (xs @ ys) s = rbind (run_all f xs s) (run_all f ys)"
proof (induction xs arbitrary: s)
  case (Cons x xs)
  then show ?case by (cases "f x s") simp_all
qed simp

section \<open>C integers\<close>

text \<open>Conversion of a mathematical value to the signed and unsigned C types.\<close>

definition to_int32 :: "int \<Rightarrow> int" where
  "to_int32 x = sint (word_of_int x :: 32 word)"

definition to_uint32 :: "int \<Rightarrow> nat" where
  "to_uint32 x = unat (word_of_int x :: 32 word)"

lemma to_int32_id: "- (2 ^ 31) \<le> x \<Longrightarrow> x < 2 ^ 31 \<Longrightarrow> to_int32 x = x"
  by (simp add: to_int32_def sint_sbintrunc' signed_take_bit_int_eq_self)

lemma to_int32_add [simp]: "to_int32 (to_int32 x + y) = to_int32 (x + y)" "to_int32 (to_int32 x) = to_int32 x"
  by (simp_all add: to_int32_def)

lemma to_int32_mod: "to_int32 x = (x + 2 ^ 31) mod 2 ^ 32 - 2 ^ 31"
  by (simp add: to_int32_def sint_sbintrunc' signed_take_bit_eq_take_bit_shift take_bit_eq_mod)

lemma to_int32_eq_iff: "to_int32 x = x \<longleftrightarrow> - (2 ^ 31) \<le> x \<and> x < 2 ^ 31"
proof
  assume "to_int32 x = x"
  then have "(x + 2 ^ 31) mod 2 ^ 32 = x + 2 ^ 31" by (simp add: to_int32_mod)
  then have "0 \<le> x + 2 ^ 31" "x + 2 ^ 31 < 2 ^ 32" by (metis pos_mod_sign pos_mod_bound zero_less_numeral zero_less_power)+
  then show "- (2 ^ 31) \<le> x \<and> x < 2 ^ 31" by simp
qed (simp add: to_int32_id)

lemma to_uint32_mod: "to_uint32 x = nat (x mod 2 ^ 32)"
  by (simp add: to_uint32_def uint_word_of_int flip: nat_uint_eq)

lemma to_uint32_id: "0 \<le> x \<Longrightarrow> x < 2 ^ 32 \<Longrightarrow> to_uint32 x = nat x"
  by (simp add: to_uint32_mod)

section \<open>Bytes and memory\<close>

abbreviation NUL :: char where "NUL \<equiv> CHR 0x00"
abbreviation CR :: char where "CR \<equiv> CHR 0x0D"
abbreviation LF :: char where "LF \<equiv> CHR 0x0A"
abbreviation TAB :: char where "TAB \<equiv> CHR 0x09"

text \<open>Integers in memory, least significant byte first, and the reader of network order.\<close>

primrec le_bytes :: "nat \<Rightarrow> nat \<Rightarrow> string" where
  "le_bytes 0 v = []"
| "le_bytes (Suc n) v = char_of v # le_bytes n (v div 256)"

primrec le_val :: "string \<Rightarrow> nat" where
  "le_val [] = 0"
| "le_val (c # cs) = of_char c + 256 * le_val cs"

definition be_val :: "string \<Rightarrow> nat" where
  "be_val cs = le_val (rev cs)"

definition be_bytes :: "nat \<Rightarrow> nat \<Rightarrow> string" where
  "be_bytes n v = rev (le_bytes n v)"

lemma length_le_bytes [simp]: "length (le_bytes n v) = n"
  by (induction n arbitrary: v) auto

lemma length_be_bytes [simp]: "length (be_bytes n v) = n"
  by (simp add: be_bytes_def)

lemma le_val_le_bytes: "le_val (le_bytes n v) = v mod 256 ^ n"
proof (induction n arbitrary: v)
  case (Suc n)
  have "v mod (256 * 256 ^ n) = 256 * (v div 256 mod 256 ^ n) + v mod 256"
    by (rule mod_mult2_eq)
  then show ?case by (simp add: Suc.IH)
qed simp

lemma be_val_be_bytes: "be_val (be_bytes n v) = v mod 256 ^ n"
  by (simp add: be_val_def be_bytes_def le_val_le_bytes)

lemma le_val_lt: "le_val cs < 256 ^ length cs"
proof (induction cs)
  case (Cons c cs)
  have "of_char c + 256 * le_val cs < 256 + 256 * le_val cs" by simp
  also have "\<dots> \<le> 256 * 256 ^ length cs" using Cons.IH by simp
  finally show ?case by simp
qed simp

lemma be_val_lt: "be_val cs < 256 ^ length cs"
  by (metis be_val_def le_val_lt length_rev)

lemma char_of_add_256 [simp]: "char_of (of_char c + 256 * n :: nat) = c"
  by (metis char_of_char char_of_mod_256 mod_mult_self2)

lemma le_bytes_le_val: "le_bytes (length cs) (le_val cs) = cs"
  by (induction cs) simp_all

text \<open>\<open>poke mem off bs\<close>: the bytes \<open>bs\<close> stored at \<open>off\<close> (a \<^verbatim>\<open>memcpy\<close> into an array).
  \<open>peek mem off n\<close>: \<open>n\<close> bytes read at \<open>off\<close>.\<close>

definition poke :: "string \<Rightarrow> nat \<Rightarrow> string \<Rightarrow> string" where
  "poke mem off bs = take off mem @ bs @ drop (off + length bs) mem"

definition peek :: "string \<Rightarrow> nat \<Rightarrow> nat \<Rightarrow> string" where
  "peek mem off n = take n (drop off mem)"

named_theorems mem_simps \<open>reads over writes\<close>

lemma length_poke [simp]: "off + length bs \<le> length mem \<Longrightarrow> length (poke mem off bs) = length mem"
  by (simp add: poke_def)

lemma length_peek [simp]: "off + n \<le> length mem \<Longrightarrow> length (peek mem off n) = n"
  by (simp add: peek_def)

lemma peek_0 [simp]: "peek mem off 0 = []"
  by (simp add: peek_def)

lemma peek_poke_same [mem_simps]:
  "off \<le> length mem \<Longrightarrow> n = length bs \<Longrightarrow> peek (poke mem off bs) off n = bs"
  by (simp add: peek_def poke_def)

lemma peek_poke_before [mem_simps]:
  "off' + n \<le> off \<Longrightarrow> off \<le> length mem \<Longrightarrow> peek (poke mem off bs) off' n = peek mem off' n"
  by (simp add: peek_def poke_def take_drop min_def)

lemma peek_poke_after [mem_simps]:
  "off + length bs \<le> off' \<Longrightarrow> off + length bs \<le> length mem \<Longrightarrow>
   peek (poke mem off bs) off' n = peek mem off' n"
  by (simp add: peek_def poke_def)

lemma take_poke [mem_simps]: "n \<le> off \<Longrightarrow> n \<le> length mem \<Longrightarrow> take n (poke mem off bs) = take n mem"
  by (simp add: poke_def min_def)

lemma take_add_peek: "take (a + n) mem = take a mem @ peek mem a n"
  by (simp add: peek_def take_add)

lemma peek_add: "peek mem a (m + n) = peek mem a m @ peek mem (a + m) n"
  by (simp add: peek_def take_add add.commute)

lemma poke_Nil [simp]: "poke mem off [] = mem"
  by (simp add: poke_def)

text \<open>Neighbouring and nested stores are one store.\<close>

lemma poke_adjacent [mem_simps]:
  "off + length a + length b \<le> length mem \<Longrightarrow>
   poke (poke mem off a) (off + length a) b = poke mem off (a @ b)"
  by (simp add: poke_def ac_simps)

lemma poke_prepend [mem_simps]:
  "off + length a + length b \<le> length mem \<Longrightarrow>
   poke (poke mem (off + length a) b) off a = poke mem off (a @ b)"
  by (simp add: poke_def add.assoc min_def)

lemma poke_inside [mem_simps]:
  "off + length b \<le> length mem \<Longrightarrow> k + length b' \<le> length b \<Longrightarrow>
   poke (poke mem off b) (off + k) b' = poke mem off (poke b k b')"
  by (simp add: poke_def add.assoc)

section \<open>C strings\<close>

text \<open>
  A C string in memory runs to the first NUL; memory without one is not a string, and
  reading it leaves the object.  The functions below it work on the characters before
  the NUL.
\<close>

definition cstr :: "string \<Rightarrow> string option" where
  "cstr mem = (if NUL \<in> set mem then Some (takeWhile (\<lambda>c. c \<noteq> NUL) mem) else None)"

lemma cstr_terminated [simp]: "NUL \<notin> set s \<Longrightarrow> cstr (s @ NUL # t) = Some s"
  by (induction s) (auto simp: cstr_def)

text \<open>\<^verbatim>\<open>strstr\<close>: the offset of the first occurrence of the needle.\<close>

fun strstr :: "string \<Rightarrow> string \<Rightarrow> nat option" where
  "strstr needle [] = (if needle = [] then Some 0 else None)"
| "strstr needle (c # cs) =
     (if take (length needle) (c # cs) = needle then Some 0
      else map_option Suc (strstr needle cs))"

lemma strstr_SomeD:
  "strstr needle hay = Some i \<Longrightarrow> take (length needle) (drop i hay) = needle \<and> i + length needle \<le> length hay"
proof (induction hay arbitrary: i)
  case (Cons c cs)
  show ?case
  proof (cases "take (length needle) (c # cs) = needle")
    case True
    then have "length needle \<le> length (c # cs)"
      by (metis length_take min.cobounded1)
    with True Cons.prems show ?thesis by simp
  next
    case False
    with Cons.prems obtain j where "strstr needle cs = Some j" and "i = Suc j" by auto
    with Cons.IH [of j] show ?thesis by simp
  qed
qed (simp split: if_splits)

lemma strstr_least:
  assumes "take (length needle) (drop i hay) = needle"
  shows "\<exists>j \<le> i. strstr needle hay = Some j"
  using assms
proof (induction hay arbitrary: i)
  case (Cons c cs)
  show ?case
  proof (cases "take (length needle) (c # cs) = needle")
    case False
    with Cons.prems obtain k where k: "i = Suc k" by (cases i) auto
    with Cons.prems Cons.IH [of k] obtain j where "j \<le> k" and "strstr needle cs = Some j" by auto
    with False k show ?thesis by (intro exI [of _ "Suc j"]) simp
  qed auto
qed auto

text \<open>A needle that appears only after more text has arrived ends in the new text.\<close>

lemma strstr_append_fresh:
  assumes "strstr needle hay = None" and "strstr needle (hay @ more) = Some i"
  shows "length hay < i + length needle"
proof (rule ccontr)
  assume "\<not> length hay < i + length needle"
  moreover from strstr_SomeD [OF assms(2)]
  have "take (length needle) (drop i (hay @ more)) = needle" by simp
  ultimately have "take (length needle) (drop i hay) = needle" by simp
  from strstr_least [OF this] assms(1) show False by simp
qed

text \<open>
  \<^verbatim>\<open>strtok\<close>: skip delimiters, take the token, leave what follows the delimiter that
  ended it.  \<open>None\<close> is the null result.
\<close>

definition strtok :: "string \<Rightarrow> string \<Rightarrow> (string \<times> string) option" where
  "strtok delims s =
     (let s' = dropWhile (\<lambda>c. c \<in> set delims) s in
      if s' = [] then None
      else Some (takeWhile (\<lambda>c. c \<notin> set delims) s', drop 1 (dropWhile (\<lambda>c. c \<notin> set delims) s')))"

lemma strtok_rest_shorter: "strtok delims s = Some (tok, rest) \<Longrightarrow> length rest < length s"
proof -
  assume a: "strtok delims s = Some (tok, rest)"
  define s' where "s' = dropWhile (\<lambda>c. c \<in> set delims) s"
  from a have ne: "s' \<noteq> []" and r: "rest = drop 1 (dropWhile (\<lambda>c. c \<notin> set delims) s')"
    by (auto simp: strtok_def s'_def Let_def split: if_splits)
  have "length s' \<le> length s" by (simp add: s'_def length_dropWhile_le)
  moreover have "length (dropWhile (\<lambda>c. c \<notin> set delims) s') \<le> length s'"
    by (simp add: length_dropWhile_le)
  ultimately show ?thesis using ne r by (cases s') auto
qed

section \<open>Decimal numbers\<close>

definition digit :: "nat \<Rightarrow> char" where
  "digit n = char_of (48 + n)"

definition is_digit :: "char \<Rightarrow> bool" where
  "is_digit c \<longleftrightarrow> 48 \<le> (of_char c :: nat) \<and> (of_char c :: nat) \<le> 57"

definition isspace_c :: "char \<Rightarrow> bool" where
  "isspace_c c \<longleftrightarrow> c = CHR '' '' \<or> 9 \<le> (of_char c :: nat) \<and> (of_char c :: nat) \<le> 13"

text \<open>\<^verbatim>\<open>%u\<close>, \<^verbatim>\<open>%llu\<close> and \<^verbatim>\<open>%d\<close>.\<close>

fun show_nat :: "nat \<Rightarrow> string" where
  "show_nat n = (if n < 10 then [digit n] else show_nat (n div 10) @ [digit (n mod 10)])"

declare show_nat.simps [simp del]

definition show_int :: "int \<Rightarrow> string" where
  "show_int i = (if i < 0 then CHR ''-'' # show_nat (nat (- i)) else show_nat (nat i))"

definition dec_val :: "string \<Rightarrow> nat" where
  "dec_val ds = foldl (\<lambda>n c. 10 * n + (of_char c - 48)) 0 ds"

text \<open>The sign and the digits that \<^verbatim>\<open>strtol\<close> and \<^verbatim>\<open>strtoull\<close> read.\<close>

definition scan_int :: "string \<Rightarrow> bool \<times> string" where
  "scan_int s =
     (let s1 = dropWhile isspace_c s;
          neg = (s1 \<noteq> [] \<and> hd s1 = CHR ''-'');
          s2 = (if s1 \<noteq> [] \<and> (hd s1 = CHR ''-'' \<or> hd s1 = CHR ''+'') then tl s1 else s1)
      in (neg, takeWhile is_digit s2))"

definition strtol :: "string \<Rightarrow> int" where
  "strtol s = (case scan_int s of (neg, ds) \<Rightarrow>
     let v = (if neg then - int (dec_val ds) else int (dec_val ds))
     in max (- (2 ^ 63)) (min (2 ^ 63 - 1) v))"

definition atoi :: "string \<Rightarrow> int" where
  "atoi s = to_int32 (strtol s)"

definition strtoull :: "string \<Rightarrow> 64 word" where
  "strtoull s = (case scan_int s of (neg, ds) \<Rightarrow>
     if 2 ^ 64 \<le> dec_val ds then - 1
     else if neg then - of_nat (dec_val ds) else of_nat (dec_val ds))"

lemma of_char_digit [simp]: "n < 10 \<Longrightarrow> (of_char (digit n) :: nat) = 48 + n"
  by (simp add: digit_def)

lemma is_digit_digit [simp]: "n < 10 \<Longrightarrow> is_digit (digit n)"
  by (simp add: is_digit_def)

lemma show_nat_digits: "c \<in> set (show_nat n) \<Longrightarrow> is_digit c"
proof (induction n rule: show_nat.induct)
  case (1 n)
  then show ?case by (cases "n < 10") (auto simp: show_nat.simps [of n])
qed

lemma show_nat_nonempty [simp]: "show_nat n \<noteq> []"
  by (subst show_nat.simps) simp

lemma dec_val_show_nat [simp]: "dec_val (show_nat n) = n"
proof (induction n rule: show_nat.induct)
  case (1 n)
  show ?case
  proof (cases "n < 10")
    case True
    then show ?thesis by (simp add: show_nat.simps [of n] dec_val_def)
  next
    case False
    with "1.IH" have "dec_val (show_nat (n div 10)) = n div 10" by simp
    with False show ?thesis by (simp add: show_nat.simps [of n] dec_val_def)
  qed
qed

lemma is_digit_not_sign: "is_digit c \<Longrightarrow> c \<noteq> CHR ''-'' \<and> c \<noteq> CHR ''+'' \<and> \<not> isspace_c c \<and> c \<noteq> NUL \<and> c \<noteq> LF"
  by (auto simp: is_digit_def isspace_c_def)

lemma scan_int_show_nat: "scan_int (show_nat n) = (False, show_nat n)"
proof -
  obtain c cs where c: "show_nat n = c # cs" by (cases "show_nat n") auto
  then have "is_digit c" using show_nat_digits [of c n] by simp
  then have f: "c \<noteq> CHR ''-''" "c \<noteq> CHR ''+''" "\<not> isspace_c c"
    by (simp_all add: is_digit_not_sign)
  have t: "takeWhile is_digit (c # cs) = c # cs"
    unfolding c [symmetric] by (simp add: show_nat_digits)
  from f have d: "dropWhile isspace_c (c # cs) = c # cs" by simp
  show ?thesis
    unfolding c scan_int_def Let_def d using f t by simp
qed

lemma strtoull_show_nat: "n < 2 ^ 64 \<Longrightarrow> strtoull (show_nat n) = of_nat n"
  by (simp add: strtoull_def scan_int_show_nat)

lemma show_nat_no_NUL [simp]: "NUL \<notin> set (show_nat n)"
  using show_nat_digits is_digit_not_sign by blast

lemma atoi_show_nat: "n < 2 ^ 31 \<Longrightarrow> atoi (show_nat n) = int n"
  by (simp add: atoi_def strtol_def scan_int_show_nat to_int32_id)

end
