(* ===== verification/Fmt.thy ===== *)
theory Fmt
  imports Bp_Prelude
begin

text \<open>
  The record format of the binary log, \<^verbatim>\<open>src/logd/fmt.h\<close> and \<^verbatim>\<open>src/logd/fmt.c\<close>: the
  32-byte frozen header, the thawed entry with its arguments and its string, the
  size computation, \<^verbatim>\<open>freeze\<close>, \<^verbatim>\<open>thaw1\<close>, \<^verbatim>\<open>thaw2\<close>, the text rendering and the sanity
  check.  The lemmas show that a well-formed entry survives freezing and thawing in
  both directions and what happens to the headers that are not well formed.
\<close>

section \<open>Data\<close>

record logentry_frozen =
  fz_tid :: "64 word"
  fz_pid :: "32 word"
  fz_cycle_high :: "32 word"
  fz_cycle_low :: "32 word"
  fz_sc :: "16 word"
  fz_rv :: "16 word"
  fz_nm :: char
  fz_arg_len :: "8 word"
  fz_str_len :: "16 word"
  fz_padding :: string

text \<open>
  \<open>th_str\<close> is the pointer \<^verbatim>\<open>str\<close>: \<open>None\<close> where it is not set, otherwise the
  bytes in front of the terminator that \<^verbatim>\<open>thaw2\<close> appends.  \<open>th_arg\<close> is \<^verbatim>\<open>int arg[3]\<close>.
\<close>

record logentry_thaw =
  th_fz :: logentry_frozen
  th_str :: "string option"
  th_arg :: "32 word list"

definition sizeof_frozen :: nat where
  "sizeof_frozen = 32"

definition arg_count :: "logentry_frozen \<Rightarrow> int" where
  "arg_count fz = sint (fz_arg_len fz)"

definition str_count :: "logentry_frozen \<Rightarrow> int" where
  "str_count fz = sint (fz_str_len fz)"

section \<open>Sizes\<close>

text \<open>The sum is computed in \<^verbatim>\<open>size_t\<close> and returned as an \<^verbatim>\<open>int\<close>.\<close>

definition predict_size :: "int \<Rightarrow> int \<Rightarrow> int" where
  "predict_size arg_len str_len = to_int32 (int sizeof_frozen + arg_len * 4 + str_len)"

definition frozen_size :: "logentry_frozen \<Rightarrow> int" where
  "frozen_size fz = predict_size (arg_count fz) (str_count fz)"

section \<open>The header in memory\<close>

definition frozen_bytes :: "logentry_frozen \<Rightarrow> string" where
  "frozen_bytes fz =
     le_bytes 8 (unat (fz_tid fz)) @ le_bytes 4 (unat (fz_pid fz)) @
     le_bytes 4 (unat (fz_cycle_high fz)) @ le_bytes 4 (unat (fz_cycle_low fz)) @
     le_bytes 2 (unat (fz_sc fz)) @ le_bytes 2 (unat (fz_rv fz)) @ [fz_nm fz, char_of (unat (fz_arg_len fz))] @
     le_bytes 2 (unat (fz_str_len fz)) @ fz_padding fz"

definition frozen_of_bytes :: "string \<Rightarrow> logentry_frozen" where
  "frozen_of_bytes b =
     \<lparr> fz_tid = of_nat (le_val (peek b 0 8)), fz_pid = of_nat (le_val (peek b 8 4)),
       fz_cycle_high = of_nat (le_val (peek b 12 4)), fz_cycle_low = of_nat (le_val (peek b 16 4)),
       fz_sc = of_nat (le_val (peek b 20 2)), fz_rv = of_nat (le_val (peek b 22 2)),
       fz_nm = b ! 24, fz_arg_len = of_nat (of_char (b ! 25)),
       fz_str_len = of_nat (le_val (peek b 26 2)), fz_padding = peek b 28 4 \<rparr>"

definition int_bytes :: "32 word list \<Rightarrow> string" where
  "int_bytes ws = concat (map (\<lambda>w. le_bytes 4 (unat w)) ws)"

section \<open>freeze, thaw1 and thaw2\<close>

text \<open>
  \<^verbatim>\<open>freeze(buf, le, size)\<close>: the bytes it stores at \<^verbatim>\<open>buf\<close>.  More than three arguments read
  past \<^verbatim>\<open>arg[3]\<close>, a negative string length is an enormous \<^verbatim>\<open>memcpy\<close>, and the last line
  asserts the size.
\<close>

definition freeze :: "logentry_thaw \<Rightarrow> int \<Rightarrow> string result" where
  "freeze le sz =
     (let fz = th_fz le; n = arg_count fz; sl = str_count fz in
      if int (length (th_arg le)) < n then Inl OutOfBounds
      else rbind (if sl = 0 then Inr []
                  else if sl < 0 then Inl OutOfBounds
                  else case th_str le of
                         None \<Rightarrow> Inl NullDeref
                       | Some s \<Rightarrow> if int (length s) < sl then Inl OutOfBounds
                                   else Inr (take (nat sl) s))
        (\<lambda>str. let buf = frozen_bytes fz @ int_bytes (take (nat n) (th_arg le)) @ str in
           if sz = int (length buf) then Inr buf else Inl AssertFail))"

definition thaw1 :: "string \<Rightarrow> logentry_frozen result" where
  "thaw1 buf = (if length buf < sizeof_frozen then Inl OutOfBounds
                else Inr (frozen_of_bytes (take sizeof_frozen buf)))"

text \<open>
  \<^verbatim>\<open>thaw2(buf, le, rest_sz)\<close>.  The loop stores \<^verbatim>\<open>arg_len\<close> integers into \<^verbatim>\<open>arg[3]\<close>; the model
  stops where the fourth store would leave the array.
\<close>

definition thaw2 :: "string \<Rightarrow> logentry_frozen \<Rightarrow> int \<Rightarrow> logentry_thaw result" where
  "thaw2 buf le rest_sz =
     (let n = nat (arg_count le); sl = str_count le in
      if 3 < n \<or> length buf < 4 * n then Inl OutOfBounds
      else let args = map (\<lambda>i. of_nat (le_val (peek buf (4 * i) 4))) [0..<n] @ replicate (3 - n) 0 in
        if sl < 0 \<or> length buf < 4 * n + nat sl then Inl OutOfBounds
        else if rest_sz \<noteq> int (4 * n + nat sl) then Inl AssertFail
        else Inr \<lparr> th_fz = le,
                   th_str = (if sl = 0 then None else Some (peek buf (4 * n) (nat sl))),
                   th_arg = args \<rparr>)"

section \<open>Rendering and checking\<close>

text \<open>\<open>syscall2string\<close> is generated by the build (\<^verbatim>\<open>mksysrender.sh\<close>) and a parameter.\<close>

definition output_le :: "(int \<Rightarrow> string) \<Rightarrow> logentry_thaw \<Rightarrow> string" where
  "output_le syscall2string l =
     (let fz = th_fz l; ar = (\<lambda>i. show_int (sint (th_arg l ! i))) in
      show_nat (unat (fz_tid fz)) @ ''|'' @ show_int (sint (fz_pid fz)) @ ''|'' @
      show_nat (unat (fz_cycle_high fz)) @ '','' @ show_nat (unat (fz_cycle_low fz)) @ ''|'' @
      syscall2string (sint (fz_sc fz)) @ ''|'' @ show_int (sint (fz_rv fz)) @ ''|'' @ [fz_nm fz] @
      ''|arg('' @ ar 0 @ '','' @ ar 1 @ '','' @ ar 2 @ ''),str('' @ show_int (str_count fz) @ '':'' @
      (if 0 < str_count fz
       then (case th_str l of None \<Rightarrow> ''(null)'' | Some s \<Rightarrow> takeWhile (\<lambda>c. c \<noteq> NUL) s) else []) @
      '')'' @ [LF])"

definition debug_ls_fz :: "(int \<Rightarrow> string) \<Rightarrow> logentry_frozen option \<Rightarrow> string" where
  "debug_ls_fz syscall2string l =
     (case l of None \<Rightarrow> []
      | Some fz \<Rightarrow> output_le syscall2string \<lparr> th_fz = fz, th_str = None, th_arg = [0, 0, 0] \<rparr>)"

definition check_le :: "logentry_thaw \<Rightarrow> unit result" where
  "check_le le =
     (let fz = th_fz le in
      if fz_pid fz < 200 \<or> fz_pid fz > 99999 then Inl (Exit 1)
      else if fz_tid fz < 200 then Inl (Exit 1)
      else if sint (fz_sc fz) < 0 \<or> sint (fz_sc fz) > 200 then Inl (Exit 1)
      else Inr ())"

section \<open>Well-formed entries\<close>

text \<open>
  What the writers of the log produce and what the readers accept: between zero and
  three arguments, the unused ones zero, and a string of the announced length.
\<close>

definition wf_frozen :: "logentry_frozen \<Rightarrow> bool" where
  "wf_frozen fz \<longleftrightarrow> length (fz_padding fz) = 4 \<and> 0 \<le> arg_count fz \<and> arg_count fz \<le> 3 \<and> 0 \<le> str_count fz"

definition wf_thaw :: "logentry_thaw \<Rightarrow> bool" where
  "wf_thaw le \<longleftrightarrow>
     (let fz = th_fz le; n = nat (arg_count fz) in
      wf_frozen fz \<and> length (th_arg le) = 3 \<and> drop n (th_arg le) = replicate (3 - n) 0 \<and>
      (case th_str le of None \<Rightarrow> str_count fz = 0
       | Some s \<Rightarrow> str_count fz \<noteq> 0 \<and> int (length s) = str_count fz))"

definition entry_bytes :: "logentry_thaw \<Rightarrow> string" where
  "entry_bytes le = frozen_bytes (th_fz le) @ int_bytes (take (nat (arg_count (th_fz le))) (th_arg le)) @
     (case th_str le of None \<Rightarrow> [] | Some s \<Rightarrow> s)"

section \<open>Sizes of well-formed entries\<close>

lemma arg_count_bounds: "- 128 \<le> arg_count fz" "arg_count fz \<le> 127"
  unfolding arg_count_def using sint_ge [of "fz_arg_len fz"] sint_lt [of "fz_arg_len fz"] by simp_all

lemma str_count_bounds: "- 32768 \<le> str_count fz" "str_count fz \<le> 32767"
  unfolding str_count_def using sint_ge [of "fz_str_len fz"] sint_lt [of "fz_str_len fz"] by simp_all

text \<open>No header can make the size computation overflow.\<close>

lemma frozen_size_eq: "frozen_size fz = 32 + 4 * arg_count fz + str_count fz"
  using arg_count_bounds [of fz] str_count_bounds [of fz]
  by (simp add: frozen_size_def predict_size_def sizeof_frozen_def to_int32_id)

lemma length_frozen_bytes: "length (frozen_bytes fz) = 28 + length (fz_padding fz)"
  by (simp add: frozen_bytes_def)

lemma length_int_bytes [simp]: "length (int_bytes ws) = 4 * length ws"
  by (induction ws) (simp_all add: int_bytes_def)

lemma int_bytes_Cons: "int_bytes (w # ws) = le_bytes 4 (unat w) @ int_bytes ws"
  by (simp add: int_bytes_def)

lemma length_entry_bytes: "wf_thaw le \<Longrightarrow> int (length (entry_bytes le)) = frozen_size (th_fz le)"
  by (auto simp: entry_bytes_def frozen_size_eq wf_thaw_def wf_frozen_def Let_def length_frozen_bytes
      split: option.splits)

section \<open>The header survives\<close>

lemma of_nat_unat_mod:
  fixes w :: "'a::len word"
  assumes "256 ^ n = (2::nat) ^ LENGTH('a)"
  shows "(of_nat (le_val (le_bytes n (unat w))) :: 'a word) = w"
  using assms by (simp add: le_val_le_bytes unsigned_less)

lemma peek_append_skip: "length a \<le> off \<Longrightarrow> peek (a @ b) off n = peek b (off - length a) n"
  by (simp add: peek_def)

lemma peek_append_here: "n = length a \<Longrightarrow> peek (a @ b) 0 n = a"
  by (simp add: peek_def)

lemma peek_all: "n = length a \<Longrightarrow> peek a 0 n = a"
  by (simp add: peek_def)

lemmas peek_layout = peek_append_skip peek_append_here peek_all

lemma of_nat_unat_mod_256 [simp]: "(of_nat (unat (w :: 8 word) mod 256) :: 8 word) = w"
  using of_nat_unat_mod [of 1 w] by simp

lemma char_of_unat_of_char [simp]: "char_of (unat (of_nat (of_char c) :: 8 word)) = c"
  by (simp add: unat_of_nat)

lemma frozen_of_bytes_frozen_bytes:
  assumes "length (fz_padding fz) = 4"
  shows "frozen_of_bytes (frozen_bytes fz) = fz"
proof -
  have "peek ([x, y] @ s @ t) 2 2 = s" "peek ([x, y] @ s @ t) 4 4 = t"
    if "length s = 2" "length t = 4" for x y s t
    using that by (simp_all add: peek_def)
  then show ?thesis
    using assms
    by (simp add: frozen_of_bytes_def frozen_bytes_def peek_layout of_nat_unat_mod nth_append)
qed

lemma le_bytes_word:
  assumes "length cs = n" and "256 ^ n = (2::nat) ^ LENGTH('a::len)"
  shows "le_bytes n (unat (of_nat (le_val cs) :: 'a word)) = cs"
proof -
  have "unat (of_nat (le_val cs) :: 'a word) = le_val cs"
    using le_val_lt [of cs] assms by (simp add: unat_of_nat)
  then show ?thesis using le_bytes_le_val [of cs] assms by simp
qed

lemma peek_two: "Suc i < length b \<Longrightarrow> peek b i 2 = [b ! i, b ! Suc i]"
  by (simp add: peek_def numeral_2_eq_2 take_Suc_conv_app_nth)

lemma frozen_bytes_frozen_of_bytes:
  assumes "length b = 32"
  shows "frozen_bytes (frozen_of_bytes b) = b"
proof -
  have parts: "peek b 0 8 @ peek b 8 4 @ peek b 12 4 @ peek b 16 4 @ peek b 20 2 @ peek b 22 2 @
      peek b 24 2 @ peek b 26 2 @ peek b 28 4 = peek b 0 32"
    using peek_add [of b 0 8 24] peek_add [of b 8 4 20] peek_add [of b 12 4 16] peek_add [of b 16 4 12]
      peek_add [of b 20 2 10] peek_add [of b 22 2 8] peek_add [of b 24 2 6]
      peek_add [of b 26 2 4] by simp
  show ?thesis
    using assms parts peek_two [of 24 b]
    by (simp add: frozen_bytes_def frozen_of_bytes_def le_bytes_word peek_all)
qed

section \<open>The entry survives\<close>

lemma read_int_bytes_nth:
  "i < length ws \<Longrightarrow> of_nat (le_val (peek (int_bytes ws @ t) (4 * i) 4)) = ws ! i"
proof (induction ws arbitrary: i)
  case (Cons w ws)
  then show ?case
    by (cases i) (simp_all add: int_bytes_Cons peek_append_here peek_append_skip of_nat_unat_mod)
qed simp

lemma read_int_bytes:
  "map (\<lambda>i. of_nat (le_val (peek (int_bytes ws @ t) (4 * i) 4))) [0..<length ws] = ws"
  by (rule nth_equalityI) (simp_all add: read_int_bytes_nth)

lemma freeze_wf:
  assumes "wf_thaw le"
  shows "freeze le (frozen_size (th_fz le)) = Inr (entry_bytes le)"
  using assms length_entry_bytes [OF assms]
  by (auto simp: freeze_def entry_bytes_def wf_thaw_def wf_frozen_def Let_def split: option.splits)

lemma thaw1_entry_bytes:
  assumes "wf_thaw le"
  shows "thaw1 (entry_bytes le @ rest) = Inr (th_fz le)"
proof -
  have p: "length (fz_padding (th_fz le)) = 4" using assms by (simp add: wf_thaw_def wf_frozen_def Let_def)
  then have "take 32 (entry_bytes le @ rest) = frozen_bytes (th_fz le)"
    by (simp add: entry_bytes_def length_frozen_bytes)
  with p show ?thesis
    by (simp add: thaw1_def sizeof_frozen_def frozen_of_bytes_frozen_bytes entry_bytes_def length_frozen_bytes)
qed

lemma thaw2_entry_bytes:
  assumes "wf_thaw le"
  shows "thaw2 (drop 32 (entry_bytes le) @ rest) (th_fz le) (frozen_size (th_fz le) - 32) = Inr le"
proof -
  let ?fz = "th_fz le" and ?n = "nat (arg_count (th_fz le))"
  let ?ws = "take ?n (th_arg le)" and ?s = "case th_str le of None \<Rightarrow> [] | Some s \<Rightarrow> s"
  have wf: "length (fz_padding ?fz) = 4" "0 \<le> arg_count ?fz" "arg_count ?fz \<le> 3" "0 \<le> str_count ?fz"
    "length (th_arg le) = 3" "drop ?n (th_arg le) = replicate (3 - ?n) 0"
    "int (length ?s) = str_count ?fz"
    and st: "th_str le = (if str_count ?fz = 0 then None else Some ?s)"
    using assms by (auto simp: wf_thaw_def wf_frozen_def Let_def split: option.splits)
  then have n: "?n \<le> 3" and l: "length ?ws = ?n" by auto
  have d: "drop 32 (entry_bytes le) = int_bytes ?ws @ ?s"
    using wf by (simp add: entry_bytes_def length_frozen_bytes)
  have a: "map (\<lambda>i. of_nat (le_val (peek (int_bytes ?ws @ ?s @ rest) (4 * i) 4))) [0..<?n] = ?ws"
    using read_int_bytes [of ?ws "?s @ rest"] l by simp
  have "?ws @ replicate (3 - ?n) 0 = th_arg le"
    using wf(6) by (metis append_take_drop_id)
  moreover have "peek (int_bytes ?ws @ ?s @ rest) (4 * ?n) (nat (str_count ?fz)) = ?s"
    using wf(7) l by (simp add: peek_def)
  ultimately have "thaw2 (drop 32 (entry_bytes le) @ rest) ?fz (frozen_size ?fz - 32)
      = Inr \<lparr> th_fz = ?fz, th_str = (if str_count ?fz = 0 then None else Some ?s), th_arg = th_arg le \<rparr>"
    unfolding d thaw2_def Let_def append_assoc a
    using wf(1-5,7) n l by (simp add: frozen_size_eq nat_le_iff not_less)
  also have "\<dots> = Inr le" using st by simp
  finally show ?thesis .
qed

text \<open>Everything \<^verbatim>\<open>thaw2\<close> accepts is well formed.\<close>

lemma thaw2_wf:
  assumes "thaw2 buf fz rest_sz = Inr le" and "0 \<le> arg_count fz" and "length (fz_padding fz) = 4"
  shows "wf_thaw le \<and> th_fz le = fz"
  using assms
  by (auto simp: thaw2_def wf_thaw_def wf_frozen_def Let_def split: if_splits)

lemma peek_append_left: "off + n \<le> length a \<Longrightarrow> peek (a @ b) off n = peek a off n"
  by (simp add: peek_def)

lemma int_bytes_read:
  "4 * n \<le> length buf \<Longrightarrow>
   int_bytes (map (\<lambda>i. of_nat (le_val (peek buf (4 * i) 4))) [0..<n]) = take (4 * n) buf"
proof (induction n)
  case (Suc n)
  have "take (4 * Suc n) buf = take (4 * n) buf @ peek buf (4 * n) 4"
    using take_add_peek [of "4 * n" 4 buf] by (simp add: algebra_simps)
  moreover have "le_bytes 4 (unat (of_nat (le_val (peek buf (4 * n) 4)) :: 32 word)) = peek buf (4 * n) 4"
    using Suc.prems by (simp add: le_bytes_word)
  ultimately show ?case
    using Suc by (simp add: int_bytes_def)
qed (simp add: int_bytes_def)

lemma frozen_of_bytes_padding: "length b = 32 \<Longrightarrow> length (fz_padding (frozen_of_bytes b)) = 4"
  by (simp add: frozen_of_bytes_def)

lemma thaw1_Inr:
  "thaw1 b = Inr fz \<Longrightarrow>
   32 \<le> length b \<and> frozen_bytes fz = take 32 b \<and> length (fz_padding fz) = 4"
  by (auto simp: thaw1_def sizeof_frozen_def frozen_bytes_frozen_of_bytes frozen_of_bytes_padding
      split: if_splits)

lemma thaw2_Inr:
  assumes "thaw2 buf fz rest_sz = Inr le" and "0 \<le> arg_count fz"
  shows "rest_sz = int (4 * nat (arg_count fz) + nat (str_count fz))"
    and "int_bytes (take (nat (arg_count fz)) (th_arg le)) @ (case th_str le of None \<Rightarrow> [] | Some s \<Rightarrow> s)
         = take (nat rest_sz) buf"
  using assms
  by (auto simp: thaw2_def Let_def int_bytes_read take_add_peek nat_add_distrib nat_mult_distrib
      split: if_splits)

section \<open>Interface: a writer of the log\<close>

text \<open>
  Several parts of the system append entries to a byte stream: the thread buffers of
  the traced program and the page fault monitor.  The interface: emitting a call
  appends the bytes of one well-formed entry that encodes the call.
\<close>

locale log_writer =
  fixes emit :: "'c \<Rightarrow> 's \<Rightarrow> 's result"
    and ok :: "'c \<Rightarrow> bool"
    and inv :: "'s \<Rightarrow> bool"
    and stream :: "'s \<Rightarrow> string"
    and encodes :: "'s \<Rightarrow> 'c \<Rightarrow> logentry_thaw list \<Rightarrow> bool"
  assumes emit_inv: "inv s \<Longrightarrow> ok c \<Longrightarrow> emit c s = Inr s' \<Longrightarrow> inv s'"
    and emit_frame: "inv s \<Longrightarrow> ok c \<Longrightarrow> emit c s = Inr s' \<Longrightarrow> encodes s' = encodes s"
    and emit_stream: "inv s \<Longrightarrow> ok c \<Longrightarrow> emit c s = Inr s' \<Longrightarrow>
      \<exists>es. encodes s c es \<and> list_all wf_thaw es \<and> stream s' = stream s @ concat (map entry_bytes es)"
begin

lemma run_all_stream:
  assumes "inv s" and "list_all ok cs" and "run_all emit cs s = Inr s'"
  shows "inv s' \<and> (\<exists>ess. list_all2 (encodes s) cs ess \<and> list_all wf_thaw (concat ess) \<and>
           stream s' = stream s @ concat (map entry_bytes (concat ess)))"
  using assms
proof (induction cs arbitrary: s)
  case Nil
  then show ?case by (auto intro: exI [of _ "[]"])
next
  case (Cons c cs)
  from Cons.prems(3) obtain t where t: "emit c s = Inr t" and r: "run_all emit cs t = Inr s'"
    by (auto elim: rbind_InrE)
  have ok: "ok c" "list_all ok cs" using Cons.prems(2) by auto
  note c = emit_inv [OF Cons.prems(1) ok(1) t] emit_frame [OF Cons.prems(1) ok(1) t]
  from emit_stream [OF Cons.prems(1) ok(1) t] obtain es where
    es: "encodes s c es" "list_all wf_thaw es" "stream t = stream s @ concat (map entry_bytes es)" by auto
  from Cons.IH [OF c(1) ok(2) r] obtain ess where
    ess: "inv s'" "list_all2 (encodes t) cs ess" "list_all wf_thaw (concat ess)"
      "stream s' = stream t @ concat (map entry_bytes (concat ess))" by auto
  have "list_all2 (encodes s) (c # cs) (es # ess)" "list_all wf_thaw (concat (es # ess))"
    "stream s' = stream s @ concat (map entry_bytes (concat (es # ess)))"
    using es ess c(2) by simp_all
  then show ?case using ess(1) by blast
qed

end

section \<open>Properties\<close>

text \<open>
  C1: every well-formed entry survives the log format.  \<^verbatim>\<open>freeze\<close> with the size that
  \<^verbatim>\<open>frozen_size\<close> computes succeeds, \<^verbatim>\<open>thaw1\<close> reads the same header back from the bytes and
  \<^verbatim>\<open>thaw2\<close> the same entry, whatever follows in the buffer.
\<close>
theorem freeze_thaw_roundtrip:
  assumes "wf_thaw le"
  shows "\<exists>b. freeze le (frozen_size (th_fz le)) = Inr b \<and>
             int (length b) = frozen_size (th_fz le) \<and>
             thaw1 (b @ rest) = Inr (th_fz le) \<and>
             thaw2 (drop sizeof_frozen b @ rest) (th_fz le)
               (frozen_size (th_fz le) - int sizeof_frozen) = Inr le"
  using assms freeze_wf [of le] thaw1_entry_bytes [of le rest] thaw2_entry_bytes [of le rest]
    length_entry_bytes [of le]
  by (simp add: sizeof_frozen_def)

definition sample_frozen :: logentry_frozen where
  "sample_frozen = \<lparr> fz_tid = 70000, fz_pid = 4321, fz_cycle_high = 1240000000, fz_cycle_low = 250000,
     fz_sc = 17, fz_rv = - 1, fz_nm = CHR ''h'', fz_arg_len = 2, fz_str_len = 3,
     fz_padding = [NUL, NUL, NUL, NUL] \<rparr>"

definition sample_entry :: logentry_thaw where
  "sample_entry = \<lparr> th_fz = sample_frozen, th_str = Some ''abc'', th_arg = [5, - 7, 0] \<rparr>"

lemma sample_entry_wf: "wf_thaw sample_entry"
  by (simp add: wf_thaw_def wf_frozen_def sample_entry_def sample_frozen_def arg_count_def str_count_def)

lemma length_sample_entry: "length (entry_bytes sample_entry) = 43"
  using length_entry_bytes [OF sample_entry_wf]
  by (simp add: sample_entry_def frozen_size_eq sample_frozen_def arg_count_def str_count_def)

theorem freeze_thaw_roundtrip_witness:
  "wf_thaw sample_entry \<and>
   (\<exists>b. freeze sample_entry (frozen_size sample_frozen) = Inr b \<and> int (length b) = 43 \<and>
        thaw1 (b @ ''next'') = Inr sample_frozen \<and>
        thaw2 (drop sizeof_frozen b @ ''next'') sample_frozen (43 - 32) = Inr sample_entry)"
proof -
  have f: "th_fz sample_entry = sample_frozen" "frozen_size sample_frozen = 43"
    by (simp_all add: sample_entry_def frozen_size_eq sample_frozen_def arg_count_def str_count_def)
  show ?thesis
    using freeze_thaw_roundtrip [OF sample_entry_wf, of "''next''"] sample_entry_wf
    unfolding f by (simp add: sizeof_frozen_def)
qed

text \<open>
  C2: the other direction.  Whatever bytes a reader accepts as an entry (with a
  non-negative argument count), freezing the entry again gives exactly those bytes: the
  reader loses and invents nothing.
\<close>
theorem thaw_freeze_roundtrip:
  assumes "thaw1 b = Inr fz" and "0 \<le> arg_count fz"
    and "thaw2 (drop sizeof_frozen b) fz (frozen_size fz - int sizeof_frozen) = Inr le"
  shows "freeze le (frozen_size fz) = Inr (take (nat (frozen_size fz)) b)"
proof -
  from thaw1_Inr [OF assms(1)] have b: "32 \<le> length b" "frozen_bytes fz = take 32 b"
    and p: "length (fz_padding fz) = 4" by auto
  from thaw2_wf [OF assms(3,2) p] have wf: "wf_thaw le" and fz: "th_fz le = fz" by auto
  from thaw2_Inr [OF assms(3,2)]
  have "entry_bytes le = take 32 b @ take (nat (frozen_size fz - 32)) (drop 32 b)"
    by (simp add: entry_bytes_def fz b sizeof_frozen_def)
  also have "\<dots> = take (32 + nat (frozen_size fz - 32)) b" by (simp add: take_add)
  also have "32 + nat (frozen_size fz - 32) = nat (frozen_size fz)"
    using thaw2_Inr(1) [OF assms(3,2)] by (simp add: sizeof_frozen_def split: if_splits)
  finally show ?thesis using freeze_wf [OF wf] by (simp add: fz)
qed

theorem thaw_freeze_roundtrip_witness:
  "freeze sample_entry (frozen_size sample_frozen)
     = Inr (take (nat (frozen_size sample_frozen)) (entry_bytes sample_entry @ ''tail''))"
proof -
  have f: "th_fz sample_entry = sample_frozen" by (simp add: sample_entry_def)
  have l: "sizeof_frozen \<le> length (entry_bytes sample_entry)"
    using length_entry_bytes [OF sample_entry_wf]
    by (simp add: f frozen_size_eq sample_frozen_def arg_count_def str_count_def sizeof_frozen_def)
  have a: "0 \<le> arg_count sample_frozen" by (simp add: sample_frozen_def arg_count_def)
  show ?thesis
    using thaw_freeze_roundtrip [OF _ a, of "entry_bytes sample_entry @ ''tail''" sample_entry]
      thaw1_entry_bytes [OF sample_entry_wf, of "''tail''"]
      thaw2_entry_bytes [OF sample_entry_wf, of "''tail''"] l
    unfolding f by (simp add: sizeof_frozen_def)
qed

text \<open>
  The argument count is read from the stream and never checked.  For every header
  that announces more than three arguments, \<^verbatim>\<open>thaw2\<close> writes past the end of the
  \<^verbatim>\<open>arg\<close> array, whatever the buffer holds: the model's out-of-bounds result.
\<close>
lemma thaw2_overflows_arg_array:
  assumes "3 < arg_count fz"
  shows "thaw2 buf fz rest_sz = Inl OutOfBounds"
proof -
  have "3 < nat (arg_count fz)" using assms by simp
  then show ?thesis by (simp add: thaw2_def)
qed

end
