(* ===== verification/Common.thy ===== *)
theory Common
  imports Fmt
begin

text \<open>
  The reader of the binary log, \<^verbatim>\<open>src/logd/common.c\<close>: the static read buffer with
  \<^verbatim>\<open>refill\<close> and \<^verbatim>\<open>fill\<close>, \<^verbatim>\<open>get_le\<close>, and the program \<^verbatim>\<open>src/logd/expand.c\<close> that prints a log.  The
  lemmas relate the buffer to the bytes that are still unread and show that the
  entries come back in order, however the kernel cuts the file into reads.  \<^verbatim>\<open>bytes_seen\<close> is an \<^verbatim>\<open>int\<close> of 32 bits,
  whose sum wraps as the compiled code's does.
\<close>

section \<open>State\<close>

text \<open>An answer of \<^verbatim>\<open>read\<close>: an error, or the bytes it stored (none at the end of the file).\<close>

datatype rdret = RdErr | RdBytes string

record rdstate =
  lb_buf :: string
  lb_cur :: int
  lb_last :: int
  bytes_seen :: int
  rd_script :: "rdret list"

datatype fillret = BOK | BEOF

definition rd_init :: "string \<Rightarrow> rdret list \<Rightarrow> rdstate" where
  "rd_init buf script =
     \<lparr> lb_buf = buf, lb_cur = 0, lb_last = - 1, bytes_seen = 0, rd_script = script \<rparr>"

section \<open>refill and fill\<close>

fun refill_loop :: "bool \<Rightarrow> rdret list \<Rightarrow> (string option \<times> rdret list) result" where
  "refill_loop persist [] = Inl Blocked"
| "refill_loop persist (RdErr # script) = Inl (Exit 1)"
| "refill_loop persist (RdBytes [] # script) =
     (if persist then refill_loop persist script else Inr (None, script))"
| "refill_loop persist (RdBytes (c # cs) # script) = Inr (Some (c # cs), script)"

definition refill :: "bool \<Rightarrow> rdstate \<Rightarrow> (fillret \<times> rdstate) result" where
  "refill persist st =
     rbind (refill_loop persist (rd_script st)) (\<lambda>(chunk, script).
       case chunk of
         None \<Rightarrow> Inr (BEOF, st\<lparr>lb_cur := 0, lb_last := - 1, rd_script := script\<rparr>)
       | Some b \<Rightarrow> Inr (BOK, st\<lparr>lb_buf := poke (lb_buf st) 0 b, lb_cur := 0,
                               lb_last := int (length b) - 1, rd_script := script\<rparr>))"

lemma refill_loop_shorter: "refill_loop persist script = Inr (chunk, script') \<Longrightarrow> length script' < length script"
  by (induction persist script rule: refill_loop.induct) (auto split: if_splits)

lemma refill_shorter: "refill persist st = Inr (r, st') \<Longrightarrow> length (rd_script st') < length (rd_script st)"
  by (auto simp: refill_def elim!: rbind_InrE dest!: refill_loop_shorter split: option.splits)

text \<open>The copy at the head of the loop of \<^verbatim>\<open>fill\<close>: the bytes taken and the new state.\<close>

definition use_existing :: "int \<Rightarrow> rdstate \<Rightarrow> string \<times> rdstate" where
  "use_existing num st =
     (if lb_cur st \<le> lb_last st
      then let avail = lb_last st - lb_cur st + 1;
               tocopy = (if num < avail then num else avail)
           in (peek (lb_buf st) (nat (lb_cur st)) (nat tocopy),
               st\<lparr>lb_cur := lb_cur st + tocopy, bytes_seen := to_int32 (bytes_seen st + tocopy)\<rparr>)
      else ([], st))"

definition copied :: "int \<Rightarrow> rdstate \<Rightarrow> int" where
  "copied num st = lb_cur (snd (use_existing num st)) - lb_cur st"

lemma use_existing_script [simp]: "rd_script (snd (use_existing num st)) = rd_script st"
  by (simp add: use_existing_def Let_def)

function fill :: "bool \<Rightarrow> int \<Rightarrow> string \<Rightarrow> rdstate \<Rightarrow> (fillret \<times> string \<times> rdstate) result" where
  "fill persist num thing st =
     (if num \<le> 0 then Inr (BOK, thing, st)
      else let thing' = thing @ fst (use_existing num st);
               st' = snd (use_existing num st);
               num' = num - copied num st
           in if num' > 0
              then (case refill persist st' of
                      Inl e \<Rightarrow> Inl e
                    | Inr (BEOF, st'') \<Rightarrow> Inr (BEOF, thing', st'')
                    | Inr (BOK, st'') \<Rightarrow> fill persist num' thing' st'')
              else Inr (BOK, thing', st'))"
  by pat_completeness auto
termination
  by (relation "measure (\<lambda>(persist, num, thing, st). length (rd_script st))")
     (auto dest: refill_shorter)

declare fill.simps [simp del]

section \<open>get_le\<close>

definition get_le :: "bool \<Rightarrow> rdstate \<Rightarrow> (logentry_thaw option \<times> rdstate) result" where
  "get_le persist st =
     rbind (fill persist (int sizeof_frozen) [] st) (\<lambda>(r, buf, st1).
       if r = BEOF then Inr (None, st1)
       else rbind (thaw1 buf) (\<lambda>fz.
         let sz = frozen_size fz - int sizeof_frozen in
         rbind (fill persist sz [] st1) (\<lambda>(r, buf, st2).
           rbind (assert_c (r \<noteq> BEOF)) (\<lambda>_.
             rbind (thaw2 buf fz sz) (\<lambda>th. Inr (Some th, st2))))))"

section \<open>The unread bytes\<close>

fun upcoming :: "bool \<Rightarrow> rdret list \<Rightarrow> string" where
  "upcoming persist [] = []"
| "upcoming persist (RdErr # script) = []"
| "upcoming persist (RdBytes [] # script) = (if persist then upcoming persist script else [])"
| "upcoming persist (RdBytes (c # cs) # script) = (c # cs) @ upcoming persist script"

definition buffered :: "rdstate \<Rightarrow> string" where
  "buffered st = peek (lb_buf st) (nat (lb_cur st)) (nat (lb_last st - lb_cur st + 1))"

definition unread :: "bool \<Rightarrow> rdstate \<Rightarrow> string" where
  "unread persist st = buffered st @ upcoming persist (rd_script st)"

definition rd_wf :: "rdstate \<Rightarrow> bool" where
  "rd_wf st \<longleftrightarrow> 0 \<le> lb_cur st \<and> lb_cur st \<le> lb_last st + 1 \<and> lb_last st < int (length (lb_buf st)) \<and>
     to_int32 (bytes_seen st) = bytes_seen st \<and> (\<forall>b. RdBytes b \<in> set (rd_script st) \<longrightarrow> length b \<le> length (lb_buf st))"

text \<open>The reads of a regular file: its bytes, then the end of the file.\<close>

fun ends_eof :: "rdret list \<Rightarrow> bool" where
  "ends_eof [] = False"
| "ends_eof (RdErr # script) = False"
| "ends_eof (RdBytes [] # script) = True"
| "ends_eof (RdBytes (c # cs) # script) = ends_eof script"

lemma length_buffered: "rd_wf st \<Longrightarrow> int (length (buffered st)) = lb_last st - lb_cur st + 1"
  by (auto simp: buffered_def rd_wf_def peek_def)

lemma use_existing_eq:
  assumes "rd_wf st" and "0 < num"
  shows "use_existing num st =
     (take (nat num) (buffered st),
      st\<lparr>lb_cur := lb_cur st + int (min (nat num) (length (buffered st))),
         bytes_seen := to_int32 (bytes_seen st + int (min (nat num) (length (buffered st))))\<rparr>)"
proof -
  let ?a = "lb_last st - lb_cur st + 1"
  have l: "length (buffered st) = nat ?a" using length_buffered [OF assms(1)] by linarith
  show ?thesis
  proof (cases "lb_cur st \<le> lb_last st")
    case True
    have t: "(if num < ?a then num else ?a) = int (min (nat num) (length (buffered st)))"
      using True assms(2) l by auto
    have "peek (lb_buf st) (nat (lb_cur st)) (min (nat num) (nat ?a)) = take (nat num) (buffered st)"
      by (simp add: buffered_def peek_def)
    with True show ?thesis unfolding use_existing_def Let_def t using l by simp
  next
    case False
    then have "buffered st = []" using l by simp
    with False assms(1) show ?thesis by (simp add: use_existing_def rd_wf_def)
  qed
qed

lemma copied_eq: "rd_wf st \<Longrightarrow> 0 < num \<Longrightarrow> copied num st = int (min (nat num) (length (buffered st)))"
  by (simp add: copied_def use_existing_eq)

lemma use_existing_spec:
  assumes "rd_wf st" and "0 < num"
  defines "st' \<equiv> snd (use_existing num st)"
  shows "rd_wf st'" and "buffered st' = drop (nat num) (buffered st)"
    and "bytes_seen st' = to_int32 (bytes_seen st + copied num st)"
proof -
  define k where "k = min (nat num) (length (buffered st))"
  have st': "st' = st\<lparr>lb_cur := lb_cur st + int k, bytes_seen := to_int32 (bytes_seen st + int k)\<rparr>"
    by (simp add: st'_def use_existing_eq [OF assms(1,2)] k_def)
  have l: "int (length (buffered st)) = lb_last st - lb_cur st + 1" by (rule length_buffered [OF assms(1)])
  have k: "int k \<le> lb_last st - lb_cur st + 1" unfolding l [symmetric] k_def by simp
  then show "rd_wf st'" using assms(1) unfolding rd_wf_def st' by simp
  have "nat (lb_cur st + int k) = nat (lb_cur st) + k"
    using assms(1) by (simp add: rd_wf_def nat_add_distrib)
  moreover have "nat (lb_last st - (lb_cur st + int k) + 1) = nat (lb_last st - lb_cur st + 1) - k"
    using k by simp
  ultimately have "buffered st' = drop k (buffered st)"
    unfolding buffered_def st' by (simp add: peek_def drop_take add.commute)
  also have "\<dots> = drop (nat num) (buffered st)" by (simp add: k_def min_def)
  finally show "buffered st' = drop (nat num) (buffered st)" .
  show "bytes_seen st' = to_int32 (bytes_seen st + copied num st)"
    by (simp add: st' copied_eq [OF assms(1,2)] k_def)
qed

lemma refill_loop_data:
  "upcoming persist script = c # cs \<Longrightarrow>
   \<exists>b script'. refill_loop persist script = Inr (Some b, script') \<and> b \<noteq> [] \<and>
     upcoming persist script = b @ upcoming persist script' \<and> RdBytes b \<in> set script \<and>
     set script' \<subseteq> set script \<and> (ends_eof script \<longrightarrow> persist \<or> ends_eof script')"
  by (induction persist script rule: refill_loop.induct) (auto split: if_splits)

lemma refill_data:
  assumes "rd_wf st" and "upcoming persist (rd_script st) \<noteq> []"
  obtains st' where "refill persist st = Inr (BOK, st')" and "rd_wf st'"
    and "unread persist st' = upcoming persist (rd_script st)" and "bytes_seen st' = bytes_seen st"
    and "buffered st' \<noteq> []" and "ends_eof (rd_script st) \<longrightarrow> persist \<or> ends_eof (rd_script st')"
proof -
  from assms(2) obtain c cs where "upcoming persist (rd_script st) = c # cs"
    by (cases "upcoming persist (rd_script st)") auto
  from refill_loop_data [OF this] obtain b script' where
    b: "refill_loop persist (rd_script st) = Inr (Some b, script')" "b \<noteq> []"
      "upcoming persist (rd_script st) = b @ upcoming persist script'" "RdBytes b \<in> set (rd_script st)"
      "set script' \<subseteq> set (rd_script st)" "ends_eof (rd_script st) \<longrightarrow> persist \<or> ends_eof script'"
    by auto
  let ?st = "st\<lparr>lb_buf := poke (lb_buf st) 0 b, lb_cur := 0, lb_last := int (length b) - 1, rd_script := script'\<rparr>"
  have lb: "length b \<le> length (lb_buf st)" using assms(1) b(4) by (auto simp: rd_wf_def)
  have buf: "buffered ?st = b" using lb by (simp add: buffered_def mem_simps)
  show ?thesis
  proof (rule that [of ?st])
    show "refill persist st = Inr (BOK, ?st)" using b(1) by (simp add: refill_def)
    show "rd_wf ?st" using assms(1) b(2,5) lb by (auto simp: rd_wf_def)
    show "unread persist ?st = upcoming persist (rd_script st)" using buf b(3) by (simp add: unread_def)
  qed (use buf b in simp_all)
qed

section \<open>fill takes the next bytes\<close>

lemma fill_data:
  assumes "rd_wf st" and "nat num \<le> length (unread persist st)"
  shows "\<exists>st'. fill persist num thing st = Inr (BOK, thing @ take (nat num) (unread persist st), st') \<and>
     rd_wf st' \<and> unread persist st' = drop (nat num) (unread persist st) \<and>
     bytes_seen st' = to_int32 (bytes_seen st + max 0 num) \<and>
     (ends_eof (rd_script st) \<longrightarrow> persist \<or> ends_eof (rd_script st'))"
  using assms
proof (induction persist num thing st rule: fill.induct)
  case (1 persist num thing st)
  show ?case
  proof (cases "num \<le> 0")
    case True
    with "1.prems" show ?thesis by (simp add: fill.simps [of persist num] rd_wf_def)
  next
    case False
    then have pos: "0 < num" by simp
    let ?b = "buffered st" and ?u = "upcoming persist (rd_script st)"
    define st1 where "st1 = snd (use_existing num st)"
    note ue = use_existing_spec [OF "1.prems"(1) pos, folded st1_def]
    have scr: "rd_script st1 = rd_script st" by (simp add: st1_def)
    have cp: "copied num st = int (min (nat num) (length ?b))" by (rule copied_eq [OF "1.prems"(1) pos])
    have th: "fst (use_existing num st) = take (nat num) ?b" by (simp add: use_existing_eq [OF "1.prems"(1) pos])
    show ?thesis
    proof (cases "nat num \<le> length ?b")
      case True
      then have "copied num st = num" using pos cp by (simp add: min_def)
      with pos True ue scr th show ?thesis
        by (simp add: fill.simps [of persist num] unread_def st1_def [symmetric])
    next
      case short: False
      define num' where "num' = num - copied num st"
      have num': "nat num' = nat num - length ?b" "0 < num'" using short cp pos by (simp_all add: num'_def)
      have up: "upcoming persist (rd_script st1) \<noteq> []"
        using "1.prems"(2) short scr by (auto simp: unread_def)
      from refill_data [OF ue(1) up] obtain st2 where
        r: "refill persist st1 = Inr (BOK, st2)" "rd_wf st2" "unread persist st2 = ?u"
          "bytes_seen st2 = bytes_seen st1" "ends_eof (rd_script st) \<longrightarrow> persist \<or> ends_eof (rd_script st2)"
        using scr by metis
      have "nat num' \<le> length (unread persist st2)"
        using "1.prems"(2) num' r(3) by (simp add: unread_def)
      from "1.IH" [OF False refl refl refl, folded st1_def num'_def, OF num'(2) r(1) refl refl r(2) this]
      obtain st' where st': "fill persist num' (thing @ take (nat num) ?b) st2
          = Inr (BOK, (thing @ take (nat num) ?b) @ take (nat num') ?u, st')" "rd_wf st'"
          "unread persist st' = drop (nat num') ?u" "bytes_seen st' = to_int32 (bytes_seen st2 + max 0 num')"
          "ends_eof (rd_script st2) \<longrightarrow> persist \<or> ends_eof (rd_script st')"
        using th r(3) by auto
      have "fill persist num thing st = fill persist num' (thing @ take (nat num) ?b) st2"
        using False num'(2) r(1) th
        by (simp add: fill.simps [of persist num] Let_def st1_def [symmetric] num'_def [symmetric])
      with st' num' short r(4,5) ue(3) pos show ?thesis
        by (intro exI [of _ st']) (auto simp: unread_def num'_def)
    qed
  qed
qed

lemma fill_eof:
  assumes "rd_wf st" and "length (unread False st) < nat num" and "ends_eof (rd_script st)"
  shows "\<exists>b st'. fill False num thing st = Inr (BEOF, b, st') \<and>
           bytes_seen st' = to_int32 (bytes_seen st + int (length (unread False st)))"
  using assms
proof (induction "False" num thing st rule: fill.induct)
  case (1 num thing st)
  then have pos: "0 < num" by simp
  let ?b = "buffered st"
  define st1 where "st1 = snd (use_existing num st)"
  define num' where "num' = num - copied num st"
  note ue = use_existing_spec [OF "1.prems"(1) pos, folded st1_def]
  have scr: "rd_script st1 = rd_script st" by (simp add: st1_def)
  have cp: "copied num st = int (length ?b)"
    using "1.prems"(2) by (simp add: copied_eq [OF "1.prems"(1) pos] unread_def)
  have num': "0 < num'" "nat num' = nat num - length ?b"
    using "1.prems"(2) cp by (simp_all add: num'_def unread_def)
  have eq: "fill False num thing st = (case refill False st1 of
                      Inl e \<Rightarrow> Inl e
                    | Inr (BEOF, st'') \<Rightarrow> Inr (BEOF, thing @ fst (use_existing num st), st'')
                    | Inr (BOK, st'') \<Rightarrow> fill False num' (thing @ fst (use_existing num st)) st'')"
    using pos num'(1)
    by (simp add: fill.simps [of False num] Let_def st1_def [symmetric] num'_def [symmetric])
  show ?case
  proof (cases "upcoming False (rd_script st) = []")
    case True
    with "1.prems"(3) obtain script' where "rd_script st = RdBytes [] # script'"
      by (cases "rd_script st" rule: ends_eof.cases) auto
    then have "refill False st1 = Inr (BEOF, st1\<lparr>lb_cur := 0, lb_last := - 1, rd_script := script'\<rparr>)"
      by (simp add: refill_def scr)
    with eq True ue(3) cp show ?thesis by (simp add: unread_def)
  next
    case False
    then have up: "upcoming False (rd_script st1) \<noteq> []" by (simp add: scr)
    from refill_data [OF ue(1) up] obtain st2 where
      r: "refill False st1 = Inr (BOK, st2)" "rd_wf st2"
        "unread False st2 = upcoming False (rd_script st)" "bytes_seen st2 = bytes_seen st1"
        "ends_eof (rd_script st2)"
      using scr "1.prems"(3) by metis
    have "length (unread False st2) < nat num'"
      using "1.prems"(2) num' r(3) by (simp add: unread_def)
    have notle: "\<not> num \<le> 0" using pos by simp
    from "1.hyps" [OF notle refl refl refl, folded st1_def num'_def, OF num'(1) r(1) refl refl r(2) \<open>length (unread False st2) < nat num'\<close> r(5)]
    obtain b st' where st': "fill False num' (thing @ fst (use_existing num st)) st2 = Inr (BEOF, b, st')"
      "bytes_seen st' = to_int32 (bytes_seen st2 + int (length (unread False st2)))" by auto
    have "length (unread False st2) = length (upcoming False (rd_script st))" by (simp only: r(3))
    then show ?thesis using eq r(1,4) ue(3) cp st' by (simp add: unread_def add.assoc)
  qed
qed

section \<open>get_le returns the next entry\<close>

lemma get_le_entry:
  assumes "rd_wf st" and "unread persist st = entry_bytes le @ rest" and "wf_thaw le"
  shows "\<exists>st'. get_le persist st = Inr (Some le, st') \<and> rd_wf st' \<and> unread persist st' = rest \<and>
     bytes_seen st' = to_int32 (bytes_seen st + int (length (entry_bytes le))) \<and>
     (ends_eof (rd_script st) \<longrightarrow> persist \<or> ends_eof (rd_script st'))"
proof -
  have l: "int (length (entry_bytes le)) = frozen_size (th_fz le)" by (rule length_entry_bytes [OF assms(3)])
  have l32: "32 \<le> length (entry_bytes le)"
    using assms(3) by (simp add: entry_bytes_def length_frozen_bytes wf_thaw_def wf_frozen_def Let_def)
  have "nat (int sizeof_frozen) \<le> length (unread persist st)"
    using assms(2) l32 by (simp add: sizeof_frozen_def)
  from fill_data [OF assms(1) this, of "[]"] obtain st1 where
    f1: "fill persist (int sizeof_frozen) [] st = Inr (BOK, take 32 (entry_bytes le), st1)" "rd_wf st1"
      "unread persist st1 = drop 32 (entry_bytes le) @ rest" "bytes_seen st1 = to_int32 (bytes_seen st + 32)"
      "ends_eof (rd_script st) \<longrightarrow> persist \<or> ends_eof (rd_script st1)"
    using assms(2) l32 by (auto simp: sizeof_frozen_def)
  let ?sz = "frozen_size (th_fz le) - int sizeof_frozen"
  have sz: "nat ?sz = length (drop 32 (entry_bytes le))" "0 \<le> ?sz"
    using l l32 by (simp_all add: sizeof_frozen_def)
  have "nat ?sz \<le> length (unread persist st1)" using f1(3) sz(1) by simp
  from fill_data [OF f1(2) this, of "[]"] obtain st2 where
    f2: "fill persist ?sz [] st1 = Inr (BOK, drop 32 (entry_bytes le), st2)" "rd_wf st2"
      "unread persist st2 = rest" "bytes_seen st2 = to_int32 (bytes_seen st1 + max 0 ?sz)"
      "ends_eof (rd_script st1) \<longrightarrow> persist \<or> ends_eof (rd_script st2)"
    using f1(3) sz(1) by auto
  have t1: "thaw1 (take 32 (entry_bytes le)) = Inr (th_fz le)"
    using thaw1_entry_bytes [OF assms(3), of "[]"] l32 by (simp add: thaw1_def sizeof_frozen_def)
  have t2: "thaw2 (drop 32 (entry_bytes le)) (th_fz le) ?sz = Inr le"
    using thaw2_entry_bytes [OF assms(3), of "[]"] by (simp add: sizeof_frozen_def)
  have "get_le persist st = Inr (Some le, st2)"
    unfolding get_le_def using f1(1) t1 f2(1) t2 by simp
  with f2 f1 sz l l32 show ?thesis by (auto simp: sizeof_frozen_def)
qed

lemma get_le_eof:
  assumes "rd_wf st" and "length (unread False st) < 32" and "ends_eof (rd_script st)"
  shows "\<exists>st'. get_le False st = Inr (None, st') \<and>
           bytes_seen st' = to_int32 (bytes_seen st + int (length (unread False st)))"
  using fill_eof [OF assms(1) _ assms(3), of "int sizeof_frozen" "[]"] assms(2)
  by (auto simp: get_le_def sizeof_frozen_def)

end
