(* ===== verification/Timeval.thy ===== *)
theory Timeval
  imports Bp_Prelude
begin

text \<open>
  \<^verbatim>\<open>struct timeval\<close> and the macros of \<^verbatim>\<open><sys/time.h>\<close> the sources use on it.  The fields are
  \<^verbatim>\<open>long\<close>s; every value the program puts there comes from the clock or from an unsigned
  32-bit field, far from the ends of the 64-bit range, and they are integers here.
  Times are ordered lexicographically, the order of \<^verbatim>\<open>timercmp\<close>.
\<close>

datatype timeval = Timeval (tv_sec: int) (tv_usec: int)

instantiation timeval :: linorder
begin

definition less_eq_timeval :: "timeval \<Rightarrow> timeval \<Rightarrow> bool" where
  "less_eq_timeval a b \<longleftrightarrow> tv_sec a < tv_sec b \<or> tv_sec a = tv_sec b \<and> tv_usec a \<le> tv_usec b"

definition less_timeval :: "timeval \<Rightarrow> timeval \<Rightarrow> bool" where
  "less_timeval a b \<longleftrightarrow> tv_sec a < tv_sec b \<or> tv_sec a = tv_sec b \<and> tv_usec a < tv_usec b"

instance
  by standard (auto simp: less_eq_timeval_def less_timeval_def intro: timeval.expand)

end

text \<open>A normal time has its microseconds within the second.\<close>

definition normal :: "timeval \<Rightarrow> bool" where
  "normal t \<longleftrightarrow> 0 \<le> tv_usec t \<and> tv_usec t < 1000000"

definition micros :: "timeval \<Rightarrow> int" where
  "micros t = 1000000 * tv_sec t + tv_usec t"

definition timerisset :: "timeval \<Rightarrow> bool" where
  "timerisset t \<longleftrightarrow> tv_sec t \<noteq> 0 \<or> tv_usec t \<noteq> 0"

definition timersub :: "timeval \<Rightarrow> timeval \<Rightarrow> timeval" where
  "timersub a b =
     (let s = tv_sec a - tv_sec b; u = tv_usec a - tv_usec b
      in if u < 0 then Timeval (s - 1) (u + 1000000) else Timeval s u)"

definition timeradd :: "timeval \<Rightarrow> timeval \<Rightarrow> timeval" where
  "timeradd a b =
     (let s = tv_sec a + tv_sec b; u = tv_usec a + tv_usec b
      in if 1000000 \<le> u then Timeval (s + 1) (u - 1000000) else Timeval s u)"

named_theorems time_simps \<open>the microsecond view of the timer macros\<close>

lemma micros_timersub [time_simps]: "micros (timersub a b) = micros a - micros b"
  by (simp add: micros_def timersub_def Let_def algebra_simps)

lemma micros_timeradd [time_simps]: "micros (timeradd a b) = micros a + micros b"
  by (simp add: micros_def timeradd_def Let_def algebra_simps)

lemma normal_timersub [intro]: "normal a \<Longrightarrow> normal b \<Longrightarrow> normal (timersub a b)"
  by (auto simp: normal_def timersub_def Let_def)

lemma normal_timeradd [intro]: "normal a \<Longrightarrow> normal b \<Longrightarrow> normal (timeradd a b)"
  by (auto simp: normal_def timeradd_def Let_def)

lemma normal_le_iff_micros: "normal a \<Longrightarrow> normal b \<Longrightarrow> a \<le> b \<longleftrightarrow> micros a \<le> micros b"
  by (auto simp: normal_def micros_def less_eq_timeval_def)

lemma normal_micros_inject: "normal a \<Longrightarrow> normal b \<Longrightarrow> micros a = micros b \<longleftrightarrow> a = b"
  using normal_le_iff_micros [of a b] normal_le_iff_micros [of b a] by auto

lemma timeradd_mono: "normal a \<Longrightarrow> normal b \<Longrightarrow> normal d \<Longrightarrow> timeradd a d \<le> timeradd b d \<longleftrightarrow> a \<le> b"
  by (simp add: normal_le_iff_micros normal_timeradd micros_timeradd)

lemma timeradd_timersub:
  assumes "normal now" and "normal remote"
  shows "timeradd remote (timersub now remote) = now"
  using assms by (subst normal_micros_inject [symmetric]) (auto simp: time_simps)

end
