(* ===== verification/Binlog.thy ===== *)
theory Binlog
  imports Fmt Timeval
begin

text \<open>
  The per-thread log buffer of \<^verbatim>\<open>src/logd/binlog.c\<close>: the thread context, the buffer
  \<^verbatim>\<open>lb[PIPE_BUF]\<close> with its fill pointer, \<^verbatim>\<open>lb_flush\<close>, \<^verbatim>\<open>lb_alloc_bytes\<close>, the entry
  construction in place (\<^verbatim>\<open>lb_populate\<close>, \<^verbatim>\<open>SETARG\<close>, \<^verbatim>\<open>SETSTR\<close>, \<^verbatim>\<open>LOGBIN_gen\<close>) and the
  \<^verbatim>\<open>LOGBIN*\<close> entry points.  A \<open>logcall\<close> is one call of \<^verbatim>\<open>LOGBIN_gen\<close>; the other
  components describe what they log as lists of them.  The lemmas show that the buffer
  is an append-only stream of frozen entries.
\<close>

section \<open>Identifiers and calls\<close>

text \<open>
  The \<^verbatim>\<open>SYS_*\<close> macros are generated by the build: \<^verbatim>\<open>mksyscalls.sh\<close> collects the names and
  numbers them in \<^verbatim>\<open>syscalls.h\<close>.  \<open>SYS ''READ''\<close> is the name \<^verbatim>\<open>SYS_READ\<close>; the numbering is a
  parameter of the definitions that store it.
\<close>

datatype sysid = SYS string

text \<open>The arguments of \<^verbatim>\<open>LOGBIN_gen\<close>; \<open>lc_sc = None\<close> is the code \<^verbatim>\<open>-1\<close> of \<^verbatim>\<open>LOGBINfatal\<close>.\<close>

record logcall =
  lc_sc :: "sysid option"
  lc_rv :: int
  lc_i1 :: int
  lc_i2 :: int
  lc_i3 :: int
  lc_num :: nat
  lc_str :: "string option"

definition logcall_gen :: "sysid option \<Rightarrow> int \<Rightarrow> int \<Rightarrow> int \<Rightarrow> int \<Rightarrow> nat \<Rightarrow> string option \<Rightarrow> logcall" where
  "logcall_gen sc rv i1 i2 i3 num s =
     \<lparr> lc_sc = sc, lc_rv = rv, lc_i1 = i1, lc_i2 = i2, lc_i3 = i3, lc_num = num, lc_str = s \<rparr>"

definition LOGBIN0 :: "sysid \<Rightarrow> int \<Rightarrow> logcall" where
  "LOGBIN0 sc rv = logcall_gen (Some sc) rv 0 0 0 0 None"

definition LOGBINli :: "sysid \<Rightarrow> int \<Rightarrow> 64 word \<Rightarrow> int \<Rightarrow> logcall" where
  "LOGBINli sc rv ptid ppid = logcall_gen (Some sc) rv ppid 0 0 1 (Some (show_nat (unat ptid)))"

definition LOGBINs :: "sysid \<Rightarrow> int \<Rightarrow> string \<Rightarrow> logcall" where
  "LOGBINs sc rv s = logcall_gen (Some sc) rv 0 0 0 0 (Some s)"

definition LOGBINss :: "sysid \<Rightarrow> int \<Rightarrow> string \<Rightarrow> string \<Rightarrow> logcall" where
  "LOGBINss sc rv s1 s2 = LOGBINs sc rv (s1 @ ''=-='' @ s2)"

definition LOGBINis :: "sysid \<Rightarrow> int \<Rightarrow> int \<Rightarrow> string \<Rightarrow> logcall" where
  "LOGBINis sc rv i1 s = logcall_gen (Some sc) rv i1 0 0 1 (Some s)"

definition LOGBINiis :: "sysid \<Rightarrow> int \<Rightarrow> int \<Rightarrow> int \<Rightarrow> string \<Rightarrow> logcall" where
  "LOGBINiis sc rv i1 i2 s = logcall_gen (Some sc) rv i1 i2 0 2 (Some s)"

definition LOGBINiiis :: "sysid \<Rightarrow> int \<Rightarrow> int \<Rightarrow> int \<Rightarrow> int \<Rightarrow> string \<Rightarrow> logcall" where
  "LOGBINiiis sc rv i1 i2 i3 s = logcall_gen (Some sc) rv i1 i2 i3 3 (Some s)"

definition LOGBINiii :: "sysid \<Rightarrow> int \<Rightarrow> int \<Rightarrow> int \<Rightarrow> int \<Rightarrow> logcall" where
  "LOGBINiii sc rv i1 i2 i3 = logcall_gen (Some sc) rv i1 i2 i3 3 None"

definition LOGBINii :: "sysid \<Rightarrow> int \<Rightarrow> int \<Rightarrow> int \<Rightarrow> logcall" where
  "LOGBINii sc rv i1 i2 = logcall_gen (Some sc) rv i1 i2 0 2 None"

definition LOGBINi :: "sysid \<Rightarrow> int \<Rightarrow> int \<Rightarrow> logcall" where
  "LOGBINi sc rv i1 = logcall_gen (Some sc) rv i1 0 0 1 None"

definition LOGBINfatal :: "string \<Rightarrow> logcall" where
  "LOGBINfatal s = logcall_gen None (- 1) 0 0 0 0 (Some s)"

section \<open>The thread context and the log connection\<close>

definition PIPE_BUF :: nat where
  "PIPE_BUF = 4096"

record thread_ctx =
  ctx_pid :: "32 word"
  ctx_logfd :: int
  ctx_tid :: "64 word"
  ctx_lbptr :: nat
  ctx_lb :: string
  ctx_lbcnt :: int
  ctx_fz_high :: "64 word"
  ctx_fz_low :: "64 word"

text \<open>
  The kernel's side of the log descriptor: what its next \<^verbatim>\<open>write\<close> calls will answer
  and the bytes it has taken so far.
\<close>

datatype sysret = SysErr | SysOk nat

record logsink =
  sk_script :: "sysret list"
  sk_out :: string

text \<open>\<^verbatim>\<open>malloc\<close> leaves the buffer with whatever bytes were there: the parameter \<open>junk\<close>.\<close>

definition alloc_ctx :: "32 word \<Rightarrow> int \<Rightarrow> 64 word \<Rightarrow> string \<Rightarrow> thread_ctx" where
  "alloc_ctx pid lfd self junk =
     \<lparr> ctx_pid = pid, ctx_logfd = lfd, ctx_tid = self, ctx_lbptr = 0, ctx_lb = junk, ctx_lbcnt = 0,
       ctx_fz_high = 0, ctx_fz_low = 0 \<rparr>"

text \<open>The first statement of \<^verbatim>\<open>bb_disable_log_check\<close> is \<^verbatim>\<open>return 0\<close>.\<close>

definition bb_disable_log_check :: bool where
  "bb_disable_log_check \<longleftrightarrow> False"

section \<open>lb_flush and lb_alloc_bytes\<close>

text \<open>The loop of \<^verbatim>\<open>lb_flush\<close> on the bytes from \<^verbatim>\<open>start\<close> to \<^verbatim>\<open>lbptr\<close>.\<close>

fun flush_loop :: "string \<Rightarrow> sysret list \<Rightarrow> string \<Rightarrow> (sysret list \<times> string) result" where
  "flush_loop [] script out = Inr (script, out)"
| "flush_loop (c # cs) [] out = Inl Blocked"
| "flush_loop (c # cs) (SysErr # script) out = Inl (Exit 1)"
| "flush_loop (c # cs) (SysOk r # script) out =
     flush_loop (drop r (c # cs)) script (out @ take r (c # cs))"

definition lb_flush :: "thread_ctx \<times> logsink \<Rightarrow> (thread_ctx \<times> logsink) result" where
  "lb_flush = (\<lambda>(ctx, sk).
     if bb_disable_log_check then Inr (ctx, sk)
     else rbind (flush_loop (take (ctx_lbptr ctx) (ctx_lb ctx)) (sk_script sk) (sk_out sk))
       (\<lambda>(script, out). Inr (ctx\<lparr>ctx_lbptr := 0\<rparr>, sk\<lparr>sk_script := script, sk_out := out\<rparr>)))"

text \<open>
  \<^verbatim>\<open>lb_alloc_bytes\<close>: the offset of the allocated bytes and the new state.  A size the
  \<^verbatim>\<open>int\<close> arithmetic has made negative passes the test and leaves the buffer.
\<close>

definition lb_alloc_bytes :: "int \<Rightarrow> thread_ctx \<times> logsink \<Rightarrow> (nat \<times> thread_ctx \<times> logsink) result" where
  "lb_alloc_bytes bytes st =
     (if int PIPE_BUF < bytes then Inl (Exit 1)
      else if bytes < 0 then Inl OutOfBounds
      else rbind (if int PIPE_BUF - 1 < int (ctx_lbptr (fst st)) + bytes then lb_flush st else Inr st)
        (\<lambda>(ctx, sk). Inr (ctx_lbptr ctx, ctx\<lparr>ctx_lbptr := ctx_lbptr ctx + nat bytes\<rparr>, sk)))"

definition lb_alloc_entry :: "int \<Rightarrow> int \<Rightarrow> thread_ctx \<times> logsink \<Rightarrow> (nat \<times> thread_ctx \<times> logsink) result" where
  "lb_alloc_entry arg_len str_len st = lb_alloc_bytes (predict_size arg_len str_len) st"

section \<open>Building an entry in the buffer\<close>

definition lb_freeze_current_time :: "timeval \<Rightarrow> thread_ctx \<Rightarrow> thread_ctx" where
  "lb_freeze_current_time now ctx =
     ctx\<lparr>ctx_fz_high := word_of_int (tv_sec now), ctx_fz_low := word_of_int (tv_usec now)\<rparr>"

definition lb_thaw_current_time :: "thread_ctx \<Rightarrow> thread_ctx" where
  "lb_thaw_current_time ctx = ctx\<lparr>ctx_fz_high := 0, ctx_fz_low := 0\<rparr>"

definition stamp :: "64 word \<Rightarrow> int \<Rightarrow> 32 word" where
  "stamp frozen t = (if frozen = 0 then word_of_int t else ucast frozen)"

text \<open>
  \<^verbatim>\<open>lb_populate\<close> assigns every member of the header at \<open>off\<close> but the padding, whose four
  bytes keep what the buffer held.
\<close>

definition lb_populate :: "char \<Rightarrow> timeval \<Rightarrow> nat \<Rightarrow> int \<Rightarrow> int \<Rightarrow> thread_ctx \<Rightarrow> thread_ctx" where
  "lb_populate nm now off sc rv ctx =
     ctx\<lparr>ctx_lb := poke (ctx_lb ctx) off (take 28 (frozen_bytes
       \<lparr> fz_tid = ctx_tid ctx, fz_pid = ctx_pid ctx,
         fz_cycle_high = stamp (ctx_fz_high ctx) (tv_sec now),
         fz_cycle_low = stamp (ctx_fz_low ctx) (tv_usec now),
         fz_sc = word_of_int sc, fz_rv = word_of_int rv, fz_nm = nm,
         fz_arg_len = 0, fz_str_len = 0, fz_padding = [] \<rparr>))\<rparr>"

definition set_arg_len :: "nat \<Rightarrow> nat \<Rightarrow> thread_ctx \<Rightarrow> thread_ctx" where
  "set_arg_len off num ctx = ctx\<lparr>ctx_lb := poke (ctx_lb ctx) (off + 25) [char_of num]\<rparr>"

definition set_str_len :: "nat \<Rightarrow> nat \<Rightarrow> thread_ctx \<Rightarrow> thread_ctx" where
  "set_str_len off slen ctx = ctx\<lparr>ctx_lb := poke (ctx_lb ctx) (off + 26) (le_bytes 2 slen)\<rparr>"

definition SETARG :: "nat \<Rightarrow> nat \<Rightarrow> int \<Rightarrow> thread_ctx \<Rightarrow> thread_ctx" where
  "SETARG off arg val ctx =
     ctx\<lparr>ctx_lb := poke (ctx_lb ctx) (off + sizeof_frozen + (arg - 1) * 4)
                     (le_bytes 4 (unat (word_of_int val :: 32 word)))\<rparr>"

definition nl_to_underscore :: "char \<Rightarrow> char" where
  "nl_to_underscore c = (if c = LF then CHR ''_'' else c)"

text \<open>\<^verbatim>\<open>SETSTR\<close> finds the place behind the arguments through the \<^verbatim>\<open>arg_len\<close> already stored.\<close>

definition SETSTR :: "nat \<Rightarrow> string \<Rightarrow> thread_ctx \<Rightarrow> thread_ctx" where
  "SETSTR off s ctx =
     (let al = of_char (ctx_lb ctx ! (off + 25)) in
      ctx\<lparr>ctx_lb := poke (ctx_lb ctx) (off + sizeof_frozen + al * 4) (map nl_to_underscore s)\<rparr>)"

definition sc_code :: "(sysid \<Rightarrow> int) \<Rightarrow> sysid option \<Rightarrow> int" where
  "sc_code sysno sc = (case sc of None \<Rightarrow> - 1 | Some i \<Rightarrow> sysno i)"

definition LOGBIN_gen ::
  "(sysid \<Rightarrow> int) \<Rightarrow> char \<Rightarrow> timeval \<Rightarrow> logcall \<Rightarrow> thread_ctx \<times> logsink \<Rightarrow> (thread_ctx \<times> logsink) result" where
  "LOGBIN_gen sysno nm now c st =
     (if bb_disable_log_check then Inr st
      else let s = (case lc_str c of None \<Rightarrow> [] | Some s \<Rightarrow> s); num = lc_num c in
        rbind (lb_alloc_entry (int num) (int (length s)) st) (\<lambda>(off, ctx, sk).
          let ctx = lb_populate nm now off (sc_code sysno (lc_sc c)) (lc_rv c) ctx;
              ctx = set_arg_len off num ctx;
              ctx = set_str_len off (length s) ctx;
              ctx = SETSTR off s ctx;
              ctx = (if num \<ge> 1 then SETARG off 1 (lc_i1 c) ctx else ctx);
              ctx = (if num \<ge> 2 then SETARG off 2 (lc_i2 c) ctx else ctx);
              ctx = (if num \<ge> 3 then SETARG off 3 (lc_i3 c) ctx else ctx)
          in Inr (ctx, sk)))"

section \<open>The buffer as a stream\<close>

definition ctx_wf :: "thread_ctx \<Rightarrow> bool" where
  "ctx_wf ctx \<longleftrightarrow> length (ctx_lb ctx) = PIPE_BUF \<and> ctx_lbptr ctx \<le> PIPE_BUF"

text \<open>What the log has received or will receive: the bytes sent and the bytes pending.\<close>

definition log_stream :: "thread_ctx \<times> logsink \<Rightarrow> string" where
  "log_stream st = sk_out (snd st) @ take (ctx_lbptr (fst st)) (ctx_lb (fst st))"

definition logged_str :: "logcall \<Rightarrow> string" where
  "logged_str c = (case lc_str c of None \<Rightarrow> [] | Some s \<Rightarrow> s)"

text \<open>The entry a call is meant to append; \<open>pad\<close> are its four padding bytes.\<close>

definition logged_frozen :: "(sysid \<Rightarrow> int) \<Rightarrow> char \<Rightarrow> timeval \<Rightarrow> thread_ctx \<Rightarrow> logcall \<Rightarrow> string \<Rightarrow> logentry_frozen" where
  "logged_frozen sysno nm now ctx c pad =
     \<lparr> fz_tid = ctx_tid ctx, fz_pid = ctx_pid ctx,
       fz_cycle_high = stamp (ctx_fz_high ctx) (tv_sec now),
       fz_cycle_low = stamp (ctx_fz_low ctx) (tv_usec now),
       fz_sc = word_of_int (sc_code sysno (lc_sc c)), fz_rv = word_of_int (lc_rv c), fz_nm = nm,
       fz_arg_len = of_nat (lc_num c), fz_str_len = of_nat (length (logged_str c)),
       fz_padding = pad \<rparr>"

definition logged_args :: "logcall \<Rightarrow> 32 word list" where
  "logged_args c = take (lc_num c) [word_of_int (lc_i1 c), word_of_int (lc_i2 c), word_of_int (lc_i3 c)]"

definition logged_entry :: "(sysid \<Rightarrow> int) \<Rightarrow> char \<Rightarrow> timeval \<Rightarrow> thread_ctx \<Rightarrow> logcall \<Rightarrow> string \<Rightarrow> logentry_thaw" where
  "logged_entry sysno nm now ctx c pad =
     \<lparr> th_fz = logged_frozen sysno nm now ctx c pad,
       th_str = (if logged_str c = [] then None else Some (map nl_to_underscore (logged_str c))),
       th_arg = logged_args c @ replicate (3 - lc_num c) 0 \<rparr>"

definition logcall_fits :: "logcall \<Rightarrow> bool" where
  "logcall_fits c \<longleftrightarrow> lc_num c \<le> 3 \<and> 32 + 4 * lc_num c + length (logged_str c) \<le> PIPE_BUF"

lemma logged_frozen_counts:
  assumes "logcall_fits c"
  shows "arg_count (logged_frozen sysno nm now ctx c pad) = int (lc_num c)"
    and "str_count (logged_frozen sysno nm now ctx c pad) = int (length (logged_str c))"
proof -
  have "lc_num c < 2 ^ 7" "length (logged_str c) < 2 ^ 15"
    using assms by (simp_all add: logcall_fits_def PIPE_BUF_def)
  then show "arg_count (logged_frozen sysno nm now ctx c pad) = int (lc_num c)"
    and "str_count (logged_frozen sysno nm now ctx c pad) = int (length (logged_str c))"
    using sint_sbintrunc' [of "int (lc_num c)", where 'a = 8]
      sint_sbintrunc' [of "int (length (logged_str c))", where 'a = 16]
    by (simp_all add: arg_count_def str_count_def logged_frozen_def signed_take_bit_int_eq_self)
qed

lemma logged_entry_wf:
  assumes "logcall_fits c" and "length pad = 4"
  shows "wf_thaw (logged_entry sysno nm now ctx c pad)"
  using assms logged_frozen_counts [OF assms(1)]
  by (auto simp: wf_thaw_def wf_frozen_def logged_entry_def logged_args_def logcall_fits_def
      logged_frozen_def Let_def)

section \<open>Flushing\<close>

lemma flush_loop_out:
  "flush_loop rest script out = Inr (script', out') \<Longrightarrow> out' = out @ rest"
proof (induction rest script out rule: flush_loop.induct)
  case (4 c cs r script out)
  then show ?case using append_take_drop_id [of r "c # cs"] by auto
qed auto

text \<open>A flush sends everything pending, in order, and empties the buffer.\<close>

lemma lb_flush_Inr:
  assumes "lb_flush (ctx, sk) = Inr (ctx', sk')"
  shows "ctx' = ctx\<lparr>ctx_lbptr := 0\<rparr>" and "sk_out sk' = sk_out sk @ take (ctx_lbptr ctx) (ctx_lb ctx)"
  using assms flush_loop_out
  by (fastforce simp: lb_flush_def bb_disable_log_check_def elim!: rbind_InrE)+

text \<open>A kernel that takes at least one byte per call lets every flush finish.\<close>

lemma flush_loop_progress:
  assumes "length rest \<le> length script" and "\<forall>r \<in> set script. \<exists>n. r = SysOk n \<and> 0 < n"
  shows "\<exists>script' out'. flush_loop rest script out = Inr (script', out') \<and>
     length script \<le> length script' + length rest \<and> set script' \<subseteq> set script"
  using assms
proof (induction rest script out rule: flush_loop.induct)
  case (4 c cs r script out)
  from "4.prems"(2) have r: "0 < r" by auto
  with "4.prems"(1) have "length (drop r (c # cs)) \<le> length script" by auto
  with "4.IH" "4.prems"(2) obtain script' out' where s: "flush_loop (drop r (c # cs)) script (out @ take r (c # cs)) = Inr (script', out')"
    "length script \<le> length script' + length (drop r (c # cs))" "set script' \<subseteq> set script" by auto
  moreover have "Suc (length script) \<le> length script' + length (c # cs)" using s(2) r by simp
  ultimately show ?case by auto
qed auto

section \<open>LOGBIN_gen stores the frozen entry\<close>

definition set_args :: "nat \<Rightarrow> logcall \<Rightarrow> thread_ctx \<Rightarrow> thread_ctx" where
  "set_args off c ctx =
     (let ctx = (if lc_num c \<ge> 1 then SETARG off 1 (lc_i1 c) ctx else ctx);
          ctx = (if lc_num c \<ge> 2 then SETARG off 2 (lc_i2 c) ctx else ctx)
      in (if lc_num c \<ge> 3 then SETARG off 3 (lc_i3 c) ctx else ctx))"

lemma set_args_poke:
  assumes "lc_num c \<le> 3" and "off + 32 + 4 * lc_num c \<le> length (ctx_lb ctx)"
  shows "set_args off c ctx = ctx\<lparr>ctx_lb := poke (ctx_lb ctx) (off + 32) (int_bytes (logged_args c))\<rparr>"
proof -
  let ?b = "\<lambda>v. le_bytes 4 (unat (word_of_int v :: 32 word))"
  have adj: "poke (poke m (off + 32) a) (off + 36) (?b v) = poke m (off + 32) (a @ ?b v)"
    if "length a = 4" "off + 40 \<le> length m" for m a v
    using poke_adjacent [of "off + 32" a "?b v" m] that by (simp add: add.assoc)
  have adj': "poke (poke m (off + 32) a) (off + 40) (?b v) = poke m (off + 32) (a @ ?b v)"
    if "length a = 8" "off + 44 \<le> length m" for m a v
    using poke_adjacent [of "off + 32" a "?b v" m] that by (simp add: add.assoc)
  consider "lc_num c = 0" | "lc_num c = 1" | "lc_num c = 2" | "lc_num c = 3"
    using assms(1) by linarith
  then show ?thesis
    using assms(2)
    by cases (simp_all add: set_args_def logged_args_def int_bytes_def SETARG_def sizeof_frozen_def adj adj' add.assoc)
qed

text \<open>The three header stores are one store of the header without its padding.\<close>

lemma header_stores:
  assumes "logcall_fits c" and "off + 28 \<le> length (ctx_lb ctx)"
  shows "set_str_len off (length (logged_str c))
           (set_arg_len off (lc_num c) (lb_populate nm now off (sc_code sysno (lc_sc c)) (lc_rv c) ctx))
         = ctx\<lparr>ctx_lb := poke (ctx_lb ctx) off (frozen_bytes (logged_frozen sysno nm now ctx c []))\<rparr>"
proof -
  have a: "unat (of_nat (lc_num c) :: 8 word) = lc_num c"
    and s: "unat (of_nat (length (logged_str c)) :: 16 word) = length (logged_str c)"
    using assms(1) by (simp_all add: logcall_fits_def PIPE_BUF_def unat_of_nat)
  show ?thesis
    using assms(2)
    by (simp add: set_str_len_def set_arg_len_def lb_populate_def frozen_bytes_def logged_frozen_def
        poke_inside a s) (simp add: poke_def)
qed

lemma SETSTR_poke:
  assumes "lc_num c \<le> 3" and "off + 28 \<le> length m"
  shows "SETSTR off s (ctx\<lparr>ctx_lb := poke m off (frozen_bytes (logged_frozen sysno nm now ctx' c []))\<rparr>)
         = ctx\<lparr>ctx_lb := poke (poke m off (frozen_bytes (logged_frozen sysno nm now ctx' c [])))
                             (off + 32 + 4 * lc_num c) (map nl_to_underscore s)\<rparr>"
proof -
  have "poke m off (frozen_bytes (logged_frozen sysno nm now ctx' c [])) ! (off + 25) = char_of (lc_num c)"
    using assms by (simp add: poke_def frozen_bytes_def logged_frozen_def nth_append unat_of_nat)
  then show ?thesis
    using assms(1) by (simp add: SETSTR_def sizeof_frozen_def mult.commute)
qed

text \<open>All stores together: the entry, with the four stale bytes as its padding.\<close>

lemma entry_stores:
  fixes sysno nm now ctx
  assumes "logcall_fits c" and "off + 32 + 4 * lc_num c + length (logged_str c) \<le> length m"
  defines "m' \<equiv> poke (poke (poke m off (frozen_bytes (logged_frozen sysno nm now ctx c [])))
                          (off + 32 + 4 * lc_num c) (map nl_to_underscore (logged_str c)))
                    (off + 32) (int_bytes (logged_args c))"
  shows "length m' = length m" and "take off m' = take off m"
    and "peek m' off (32 + 4 * lc_num c + length (logged_str c))
         = entry_bytes (logged_entry sysno nm now ctx c (peek m (off + 28) 4))"
proof -
  let ?h = "frozen_bytes (logged_frozen sysno nm now ctx c [])"
  let ?as = "int_bytes (logged_args c) @ map nl_to_underscore (logged_str c)"
  have lh: "length ?h = 28" by (simp add: length_frozen_bytes logged_frozen_def)
  have la: "length (int_bytes (logged_args c)) = 4 * lc_num c"
    using assms(1) by (auto simp: logged_args_def logcall_fits_def)
  have m': "m' = poke (poke m off ?h) (off + 32) ?as"
    unfolding m'_def using poke_prepend [of "off + 32" "int_bytes (logged_args c)"
        "map nl_to_underscore (logged_str c)" "poke m off ?h"] assms(2) lh la by (simp add: add.assoc)
  show "length m' = length m" and "take off m' = take off m"
    unfolding m' using assms(2) lh la by (simp_all add: mem_simps)
  let ?pad = "peek m (off + 28) 4"
  have f: "frozen_bytes (logged_frozen sysno nm now ctx c ?pad) = ?h @ ?pad"
    by (simp add: frozen_bytes_def logged_frozen_def)
  have "peek m' off (28 + (4 + length ?as)) = ?h @ ?pad @ ?as"
    unfolding m' peek_add using assms(2) lh la by (simp add: mem_simps add.assoc)
  moreover have "entry_bytes (logged_entry sysno nm now ctx c ?pad) = ?h @ ?pad @ ?as"
    using logged_frozen_counts(1) [OF assms(1), of sysno nm now ctx ?pad] la
    by (simp add: entry_bytes_def logged_entry_def f logged_args_def)
  ultimately show "peek m' off (32 + 4 * lc_num c + length (logged_str c))
         = entry_bytes (logged_entry sysno nm now ctx c ?pad)"
    using la by (simp add: add.assoc)
qed

section \<open>LOGBIN_gen appends to the stream\<close>

lemma predict_size_fits:
  "logcall_fits c \<Longrightarrow> predict_size (int (lc_num c)) (int (length (logged_str c)))
     = int (32 + 4 * lc_num c + length (logged_str c))"
  by (simp add: predict_size_def sizeof_frozen_def logcall_fits_def PIPE_BUF_def to_int32_id)

lemma lb_alloc_bytes_Inr:
  assumes "lb_alloc_bytes (int n) (ctx, sk) = Inr (off, ctx', sk')" and "ctx_wf ctx"
  shows "off + n \<le> PIPE_BUF" and "ctx' = ctx\<lparr>ctx_lbptr := off + n\<rparr>"
    and "sk_out sk' @ take off (ctx_lb ctx) = log_stream (ctx, sk)"
proof -
  from assms(1) obtain ctx1 sk1 where
    st: "(if int PIPE_BUF - 1 < int (ctx_lbptr ctx) + int n then lb_flush (ctx, sk) else Inr (ctx, sk)) = Inr (ctx1, sk1)"
    and r: "off = ctx_lbptr ctx1" "ctx' = ctx1\<lparr>ctx_lbptr := ctx_lbptr ctx1 + n\<rparr>" "sk' = sk1"
    and n: "n \<le> PIPE_BUF"
    by (auto simp: lb_alloc_bytes_def elim!: rbind_InrE split: if_splits)
  show "off + n \<le> PIPE_BUF" and "ctx' = ctx\<lparr>ctx_lbptr := off + n\<rparr>"
    and "sk_out sk' @ take off (ctx_lb ctx) = log_stream (ctx, sk)"
    using st r n lb_flush_Inr [of ctx sk ctx1 sk1]
    by (auto simp: log_stream_def split: if_splits)
qed

lemma LOGBIN_gen_unfold:
  assumes "logcall_fits c" and "ctx_wf ctx" and "LOGBIN_gen sysno nm now c (ctx, sk) = Inr (ctx', sk')"
  obtains off m where
    "off + 32 + 4 * lc_num c + length (logged_str c) \<le> PIPE_BUF"
    and "sk_out sk' @ take off (ctx_lb ctx) = log_stream (ctx, sk)"
    and "m = poke (poke (poke (ctx_lb ctx) off (frozen_bytes (logged_frozen sysno nm now ctx c [])))
                        (off + 32 + 4 * lc_num c) (map nl_to_underscore (logged_str c)))
                  (off + 32) (int_bytes (logged_args c))"
    and "ctx' = ctx\<lparr>ctx_lbptr := off + 32 + 4 * lc_num c + length (logged_str c), ctx_lb := m\<rparr>"
proof -
  let ?n = "32 + 4 * lc_num c + length (logged_str c)"
  let ?h = "\<lambda>off m. poke m off (frozen_bytes (logged_frozen sysno nm now ctx c []))"
  from assms(3) obtain off ctx1 where
    al: "lb_alloc_bytes (int ?n) (ctx, sk) = Inr (off, ctx1, sk')"
    and c': "ctx' = set_args off c (SETSTR off (logged_str c) (set_str_len off (length (logged_str c))
       (set_arg_len off (lc_num c) (lb_populate nm now off (sc_code sysno (lc_sc c)) (lc_rv c) ctx1))))"
    by (auto simp: LOGBIN_gen_def bb_disable_log_check_def lb_alloc_entry_def Let_def set_args_def
        logged_str_def [symmetric] predict_size_fits [OF assms(1)] simp del: of_nat_add elim!: rbind_InrE)
  note al' = lb_alloc_bytes_Inr [OF al assms(2)]
  have len: "length (ctx_lb ctx) = PIPE_BUF" and le3: "lc_num c \<le> 3"
    using assms by (simp_all add: ctx_wf_def logcall_fits_def)
  have fz: "logged_frozen sysno nm now ctx1 c [] = logged_frozen sysno nm now ctx c []"
    by (simp add: al'(2) logged_frozen_def)
  have l28: "length (frozen_bytes (logged_frozen sysno nm now ctx c [])) = 28"
    by (simp add: length_frozen_bytes logged_frozen_def)
  have "ctx' = set_args off c (ctx1\<lparr>ctx_lb := poke (?h off (ctx_lb ctx)) (off + 32 + 4 * lc_num c)
                                      (map nl_to_underscore (logged_str c))\<rparr>)"
    unfolding c' using header_stores [OF assms(1), where off = off and ctx = ctx1 and nm = nm and now = now and sysno = sysno]
      SETSTR_poke [OF le3, where off = off and m = "ctx_lb ctx" and s = "logged_str c" and ctx = ctx1
        and ctx' = ctx and nm = nm and now = now and sysno = sysno] al'(1,2) len fz
    by simp
  also have "\<dots> = ctx1\<lparr>ctx_lb := poke (poke (?h off (ctx_lb ctx)) (off + 32 + 4 * lc_num c)
                    (map nl_to_underscore (logged_str c))) (off + 32) (int_bytes (logged_args c))\<rparr>"
    by (subst set_args_poke [OF le3]) (use al'(1) len l28 in simp_all)
  finally show ?thesis using that al' by (simp add: add.assoc)
qed

lemma LOGBIN_gen_appends:
  assumes "logcall_fits c" and "ctx_wf ctx" and "LOGBIN_gen sysno nm now c (ctx, sk) = Inr (ctx', sk')"
  shows "ctx_wf ctx'"
    and "\<exists>pad. length pad = 4 \<and>
           log_stream (ctx', sk') = log_stream (ctx, sk) @ entry_bytes (logged_entry sysno nm now ctx c pad)"
    and "ctx_tid ctx' = ctx_tid ctx \<and> ctx_pid ctx' = ctx_pid ctx \<and>
         ctx_fz_high ctx' = ctx_fz_high ctx \<and> ctx_fz_low ctx' = ctx_fz_low ctx"
proof -
  from assms obtain off m where
    fit: "off + 32 + 4 * lc_num c + length (logged_str c) \<le> PIPE_BUF"
    and out: "sk_out sk' @ take off (ctx_lb ctx) = log_stream (ctx, sk)"
    and m: "m = poke (poke (poke (ctx_lb ctx) off (frozen_bytes (logged_frozen sysno nm now ctx c [])))
                        (off + 32 + 4 * lc_num c) (map nl_to_underscore (logged_str c)))
                  (off + 32) (int_bytes (logged_args c))"
    and c': "ctx' = ctx\<lparr>ctx_lbptr := off + 32 + 4 * lc_num c + length (logged_str c), ctx_lb := m\<rparr>"
    by (rule LOGBIN_gen_unfold)
  have len: "length (ctx_lb ctx) = PIPE_BUF" using assms(2) by (simp add: ctx_wf_def)
  note es = entry_stores [OF assms(1), where off = off and m = "ctx_lb ctx" and sysno = sysno and nm = nm
      and now = now and ctx = ctx, folded m, unfolded len, OF fit]
  show "ctx_wf ctx'" using es(1) fit by (simp add: ctx_wf_def c')
  have "log_stream (ctx', sk') = sk_out sk' @ take off m @ peek m off (32 + 4 * lc_num c + length (logged_str c))"
    by (simp add: log_stream_def c' take_add_peek add.assoc)
  also have "\<dots> = log_stream (ctx, sk) @ entry_bytes (logged_entry sysno nm now ctx c (peek (ctx_lb ctx) (off + 28) 4))"
    using es(2,3) out by simp
  finally show "\<exists>pad. length pad = 4 \<and>
           log_stream (ctx', sk') = log_stream (ctx, sk) @ entry_bytes (logged_entry sysno nm now ctx c pad)"
    using fit len by (intro exI [of _ "peek (ctx_lb ctx) (off + 28) 4"]) simp
  show "ctx_tid ctx' = ctx_tid ctx \<and> ctx_pid ctx' = ctx_pid ctx \<and>
         ctx_fz_high ctx' = ctx_fz_high ctx \<and> ctx_fz_low ctx' = ctx_fz_low ctx"
    by (simp add: c')
qed

section \<open>The buffer implements the writer interface\<close>

definition call_encoded ::
  "(sysid \<Rightarrow> int) \<Rightarrow> char \<Rightarrow> thread_ctx \<times> logsink \<Rightarrow> timeval \<times> logcall \<Rightarrow> logentry_thaw list \<Rightarrow> bool" where
  "call_encoded sysno nm st nc es \<longleftrightarrow>
     (\<exists>pad. length pad = 4 \<and> es = [logged_entry sysno nm (fst nc) (fst st) (snd nc) pad])"

lemma logged_entry_frame:
  assumes "ctx_tid ctx' = ctx_tid ctx" "ctx_pid ctx' = ctx_pid ctx"
    "ctx_fz_high ctx' = ctx_fz_high ctx" "ctx_fz_low ctx' = ctx_fz_low ctx"
  shows "logged_entry sysno nm now ctx' c pad = logged_entry sysno nm now ctx c pad"
  using assms by (simp add: logged_entry_def logged_frozen_def)

definition log_emit ::
  "(sysid \<Rightarrow> int) \<Rightarrow> char \<Rightarrow> timeval \<times> logcall \<Rightarrow> thread_ctx \<times> logsink \<Rightarrow> (thread_ctx \<times> logsink) result" where
  "log_emit sysno nm nc st = LOGBIN_gen sysno nm (fst nc) (snd nc) st"

interpretation buffer: log_writer "log_emit sysno nm" "\<lambda>nc. logcall_fits (snd nc)"
    "\<lambda>st. ctx_wf (fst st)" log_stream "call_encoded sysno nm"
  for sysno nm
proof (unfold_locales, goal_cases)
  case (1 s c s')
  then show ?case
    using LOGBIN_gen_appends(1) [of "snd c" "fst s" sysno nm "fst c" "snd s" "fst s'" "snd s'"]
    by (simp add: log_emit_def)
next
  case (2 s c s')
  then show ?case
    using LOGBIN_gen_appends(3) [of "snd c" "fst s" sysno nm "fst c" "snd s" "fst s'" "snd s'"]
    by (simp add: log_emit_def call_encoded_def fun_eq_iff logged_entry_frame [of "fst s'" "fst s"])
next
  case (3 s c s')
  then obtain pad where pad: "length pad = 4"
    and st: "log_stream s' = log_stream s @ entry_bytes (logged_entry sysno nm (fst c) (fst s) (snd c) pad)"
    using LOGBIN_gen_appends(2) [of "snd c" "fst s" sysno nm "fst c" "snd s" "fst s'" "snd s'"]
    by (auto simp: log_emit_def)
  let ?e = "logged_entry sysno nm (fst c) (fst s) (snd c) pad"
  have "call_encoded sysno nm s c [?e]" using pad by (auto simp: call_encoded_def)
  moreover have "list_all wf_thaw [?e]" using 3 pad logged_entry_wf by simp
  ultimately show ?case using st by (intro exI [of _ "[?e]"]) simp
qed

text \<open>Enough positive answers of the kernel let a flush and a call through.\<close>

definition takes_bytes :: "nat \<Rightarrow> logsink \<Rightarrow> bool" where
  "takes_bytes n sk \<longleftrightarrow> n \<le> length (sk_script sk) \<and> (\<forall>r \<in> set (sk_script sk). \<exists>n. r = SysOk n \<and> 0 < n)"

lemma lb_flush_progress:
  assumes "ctx_wf ctx" and "takes_bytes (PIPE_BUF + n) sk"
  shows "\<exists>ctx1 sk1. lb_flush (ctx, sk) = Inr (ctx1, sk1) \<and> sk_out sk1 = log_stream (ctx, sk) \<and> takes_bytes n sk1"
proof -
  have l: "length (take (ctx_lbptr ctx) (ctx_lb ctx)) \<le> PIPE_BUF" using assms(1) by (simp add: ctx_wf_def)
  then have "length (take (ctx_lbptr ctx) (ctx_lb ctx)) \<le> length (sk_script sk)" using assms(2) by (simp add: takes_bytes_def)
  from flush_loop_progress [OF this] assms(2) obtain script' out' where f:
    "flush_loop (take (ctx_lbptr ctx) (ctx_lb ctx)) (sk_script sk) (sk_out sk) = Inr (script', out')"
    "length (sk_script sk) \<le> length script' + length (take (ctx_lbptr ctx) (ctx_lb ctx))" "set script' \<subseteq> set (sk_script sk)"
    unfolding takes_bytes_def by blast
  have r: "lb_flush (ctx, sk) = Inr (ctx\<lparr>ctx_lbptr := 0\<rparr>, sk\<lparr>sk_script := script', sk_out := out'\<rparr>)"
    using f(1) by (simp add: lb_flush_def bb_disable_log_check_def)
  have "takes_bytes n (sk\<lparr>sk_script := script', sk_out := out'\<rparr>)"
    using assms(2) l f(2,3) by (auto simp: takes_bytes_def)
  with r lb_flush_Inr(2) [OF r] show ?thesis by (simp add: log_stream_def)
qed

lemma LOGBIN_gen_progress:
  assumes "logcall_fits c" and "ctx_wf ctx" and "takes_bytes (PIPE_BUF + n) sk"
  shows "\<exists>ctx' sk'. LOGBIN_gen sysno nm now c (ctx, sk) = Inr (ctx', sk') \<and> takes_bytes n sk'"
proof -
  obtain ctx1 sk1 where f: "lb_flush (ctx, sk) = Inr (ctx1, sk1)" "takes_bytes n sk1" using lb_flush_progress [OF assms(2,3)] by blast
  have "takes_bytes n sk" using assms(3) by (auto simp: takes_bytes_def)
  then show ?thesis
    using assms(1) predict_size_fits [OF assms(1)] f
    by (auto simp: LOGBIN_gen_def lb_alloc_entry_def lb_alloc_bytes_def logged_str_def [symmetric]
        logcall_fits_def Let_def split: prod.splits)
qed

lemma run_all_progress:
  assumes "list_all (\<lambda>nc. logcall_fits (snd nc)) calls" and "ctx_wf ctx" and "takes_bytes (PIPE_BUF * length calls + n) sk"
  shows "\<exists>ctx' sk'. run_all (log_emit sysno nm) calls (ctx, sk) = Inr (ctx', sk') \<and> ctx_wf ctx' \<and> takes_bytes n sk'"
  using assms
proof (induction calls arbitrary: ctx sk)
  case (Cons nc calls)
  have c: "logcall_fits (snd nc)" "takes_bytes (PIPE_BUF + (PIPE_BUF * length calls + n)) sk" using Cons.prems by (simp_all add: add.assoc)
  from LOGBIN_gen_progress [OF c(1) Cons.prems(2) c(2), of sysno nm "fst nc"] obtain ctx1 sk1 where
    1: "LOGBIN_gen sysno nm (fst nc) (snd nc) (ctx, sk) = Inr (ctx1, sk1)" "takes_bytes (PIPE_BUF * length calls + n) sk1" by blast
  have "ctx_wf ctx1" using LOGBIN_gen_appends(1) [OF c(1) Cons.prems(2) 1(1)] .
  with Cons.IH [OF _ _ 1(2)] Cons.prems(1) 1(1) show ?case by (simp add: log_emit_def)
qed auto

section \<open>Properties\<close>

text \<open>
  C3: the thread buffer is an append-only stream of entries.  Running any list of
  log calls that fit the buffer, in any mixture of flushes and short writes the kernel
  forces, adds to the bytes sent and pending exactly the frozen entries of the calls, in
  order, each with the process, thread, time, code, result, arguments and (newline-free)
  string of its call; only the four padding bytes are not determined.
\<close>
theorem logging_appends_entries:
  assumes "ctx_wf ctx" and "list_all (\<lambda>nc. logcall_fits (snd nc)) calls"
    and "run_all (log_emit sysno nm) calls (ctx, sk) = Inr (ctx', sk')"
  shows "ctx_wf ctx' \<and>
     (\<exists>ess. list_all2 (call_encoded sysno nm (ctx, sk)) calls ess \<and> list_all wf_thaw (concat ess) \<and>
        log_stream (ctx', sk') = log_stream (ctx, sk) @ concat (map entry_bytes (concat ess)))"
  using buffer.run_all_stream [of "(ctx, sk)" calls sysno nm "(ctx', sk')"] assms by simp

definition sample_ctx :: thread_ctx where
  "sample_ctx = alloc_ctx 4321 79 70000 (replicate PIPE_BUF NUL)"

definition sample_sink :: logsink where
  "sample_sink = \<lparr> sk_script = replicate PIPE_BUF (SysOk 1), sk_out = [] \<rparr>"

definition sample_call :: logcall where
  "sample_call = LOGBINii (SYS ''READ'') 5 3 1024"

lemma sample_ctx_wf: "ctx_wf sample_ctx"
  by (simp add: ctx_wf_def sample_ctx_def alloc_ctx_def)

lemma sample_call_fits: "logcall_fits sample_call"
  by (simp add: logcall_fits_def sample_call_def LOGBINii_def logcall_gen_def logged_str_def PIPE_BUF_def)

lemma sample_sink_takes: "takes_bytes (PIPE_BUF + 0) sample_sink"
  by (simp add: sample_sink_def takes_bytes_def)

theorem logging_appends_entries_witness:
  "\<exists>ctx' sk'. run_all (log_emit (\<lambda>_. 17) CHR ''h'') [(Timeval 9 8, sample_call)] (sample_ctx, sample_sink)
       = Inr (ctx', sk') \<and> ctx_wf ctx' \<and>
     (\<exists>ess. list_all2 (call_encoded (\<lambda>_. 17) CHR ''h'' (sample_ctx, sample_sink))
              [(Timeval 9 8, sample_call)] ess \<and> list_all wf_thaw (concat ess) \<and>
        log_stream (ctx', sk')
          = log_stream (sample_ctx, sample_sink) @ concat (map entry_bytes (concat ess)))"
proof -
  obtain ctx' sk' where r: "run_all (log_emit (\<lambda>_. 17) CHR ''h'') [(Timeval 9 8, sample_call)]
      (sample_ctx, sample_sink) = Inr (ctx', sk')"
    using LOGBIN_gen_progress [OF sample_call_fits sample_ctx_wf sample_sink_takes, of "\<lambda>_. 17" "CHR ''h''" "Timeval 9 8"]
    by (auto simp: log_emit_def)
  show ?thesis
    using r logging_appends_entries [OF sample_ctx_wf _ r] sample_call_fits by auto
qed

text \<open>
  C4: logging makes progress.  When the kernel takes at least one byte per \<^verbatim>\<open>write\<close>, any sequence of
  calls that fit the buffer succeeds, with at most one \<^verbatim>\<open>write\<close> per byte the buffer holds for each of them, and a flush after it ends
  with everything sent.
\<close>
theorem logging_progress:
  assumes "list_all (\<lambda>nc. logcall_fits (snd nc)) calls" and "ctx_wf ctx" and "PIPE_BUF * (length calls + 1) \<le> length (sk_script sk)"
    and "\<forall>r \<in> set (sk_script sk). \<exists>n. r = SysOk n \<and> 0 < n"
  shows "\<exists>ctx1 sk1 ctx2 sk2. run_all (log_emit sysno nm) calls (ctx, sk) = Inr (ctx1, sk1) \<and> ctx_wf ctx1 \<and>
     lb_flush (ctx1, sk1) = Inr (ctx2, sk2) \<and> sk_out sk2 = log_stream (ctx1, sk1)"
proof -
  have "takes_bytes (PIPE_BUF * length calls + (PIPE_BUF + 0)) sk" using assms(3,4) by (simp add: takes_bytes_def algebra_simps)
  from run_all_progress [OF assms(1,2) this] obtain ctx1 sk1 where
    "run_all (log_emit sysno nm) calls (ctx, sk) = Inr (ctx1, sk1)" "ctx_wf ctx1" "takes_bytes (PIPE_BUF + 0) sk1" by blast
  with lb_flush_progress show ?thesis by blast
qed

theorem logging_progress_witness:
  "\<exists>ctx1 sk1 ctx2 sk2. run_all (log_emit (\<lambda>_. 17) CHR ''h'') (replicate 3 (Timeval 9 8, sample_call))
        (sample_ctx, sample_sink\<lparr>sk_script := replicate (PIPE_BUF * 4) (SysOk 1)\<rparr>) = Inr (ctx1, sk1) \<and> ctx_wf ctx1 \<and>
     lb_flush (ctx1, sk1) = Inr (ctx2, sk2) \<and> sk_out sk2 = log_stream (ctx1, sk1)"
  by (rule logging_progress) (simp_all add: sample_call_fits sample_ctx_wf list_all_iff)

text \<open>
  A log call whose entry is larger than the buffer ends the traced program.  Any
  call with a string of more than \<^verbatim>\<open>PIPE_BUF - 32 - 4*num\<close> characters (a long query, URL or
  environment value) makes \<^verbatim>\<open>lb_alloc_bytes\<close> call \<^verbatim>\<open>exit(1)\<close>.
\<close>
lemma oversized_log_call_exits:
  assumes "lc_num c \<le> 3" and "PIPE_BUF < 32 + 4 * lc_num c + length (logged_str c)"
    and "length (logged_str c) < 2 ^ 30"
  shows "LOGBIN_gen sysno nm now c st = Inl (Exit 1)"
proof -
  have "predict_size (int (lc_num c)) (int (length (logged_str c)))
      = int (32 + 4 * lc_num c + length (logged_str c))"
    using assms(1,3) by (simp add: predict_size_def sizeof_frozen_def to_int32_id)
  with assms(2) show ?thesis
    by (simp add: LOGBIN_gen_def bb_disable_log_check_def lb_alloc_entry_def lb_alloc_bytes_def
        logged_str_def [symmetric] Let_def)
qed

end
