(* ===== verification/Expand.thy ===== *)
theory Expand
  imports Common Binlog
begin

text \<open>
  The program \<^verbatim>\<open>src/logd/expand.c\<close>: it reads a raw log through \<^verbatim>\<open>get_le\<close> and prints every
  entry, or those of one process, then the totals.  The file system is the answers it
  gives: whether the file opens, the size \<^verbatim>\<open>stat\<close> reports and the bytes of each \<^verbatim>\<open>read\<close>.
\<close>

section \<open>The loop ends\<close>

text \<open>Every entry takes its header out of the bytes the buffer and the kernel still hold.\<close>

primrec script_bytes :: "rdret list \<Rightarrow> nat" where
  "script_bytes [] = 0"
| "script_bytes (r # script) = (case r of RdErr \<Rightarrow> 0 | RdBytes b \<Rightarrow> length b) + script_bytes script"

definition bytes_left :: "rdstate \<Rightarrow> nat" where
  "bytes_left st = nat (lb_last st - lb_cur st + 1) + script_bytes (rd_script st)"

lemma refill_loop_script_bytes:
  "refill_loop persist script = Inr (chunk, script') \<Longrightarrow>
   (case chunk of None \<Rightarrow> 0 | Some b \<Rightarrow> length b) + script_bytes script' \<le> script_bytes script"
  by (induction persist script rule: refill_loop.induct) (auto split: if_splits)

lemma refill_bytes_left: "refill persist st = Inr (r, st') \<Longrightarrow> bytes_left st' \<le> script_bytes (rd_script st)"
  by (auto simp: refill_def bytes_left_def elim!: rbind_InrE dest!: refill_loop_script_bytes split: option.splits)

lemma use_existing_bytes_left:
  "0 < num \<Longrightarrow> bytes_left (snd (use_existing num st)) + nat (copied num st) = bytes_left st \<and>
     0 \<le> copied num st \<and> copied num st \<le> num"
  by (auto simp: use_existing_def copied_def bytes_left_def Let_def)

lemma use_existing_all:
  "0 < num \<Longrightarrow> copied num st < num \<Longrightarrow> script_bytes (rd_script st) = bytes_left (snd (use_existing num st))"
  by (auto simp: use_existing_def copied_def bytes_left_def Let_def split: if_splits)

lemma fill_bytes_left:
  "fill persist num thing st = Inr (BOK, b, st') \<Longrightarrow> bytes_left st' + nat num \<le> bytes_left st"
proof (induction persist num thing st rule: fill.induct)
  case (1 persist num thing st)
  show ?case
  proof (cases "0 < num")
    case False
    with "1.prems" show ?thesis by (simp add: fill.simps [of persist num])
  next
    case True
    let ?st1 = "snd (use_existing num st)" and ?num = "num - copied num st"
    note u = use_existing_bytes_left [OF True, of st]
    show ?thesis
    proof (cases "0 < ?num")
      case False
      with True "1.prems" u show ?thesis by (auto simp: fill.simps [of persist num] Let_def)
    next
      case more: True
      with True "1.prems" obtain st2 where r: "refill persist ?st1 = Inr (BOK, st2)"
        and f: "fill persist ?num (thing @ fst (use_existing num st)) st2 = Inr (BOK, b, st')"
        by (auto simp: fill.simps [of persist num] Let_def split: sum.splits fillret.splits)
      have "bytes_left st' + nat ?num \<le> bytes_left st2"
        using "1.IH" [OF _ refl refl refl more r refl refl f] True by simp
      moreover have "copied num st < num" using more by simp
      moreover have "bytes_left st2 \<le> bytes_left ?st1"
        using refill_bytes_left [OF r] use_existing_all [OF True \<open>copied num st < num\<close>] by simp
      ultimately show ?thesis using u True by linarith
    qed
  qed
qed

lemma get_le_bytes_left:
  "get_le persist st = Inr (Some le, st') \<Longrightarrow> bytes_left st' < bytes_left st"
proof -
  assume "get_le persist st = Inr (Some le, st')"
  then obtain b fz st1 b2 where
    f: "fill persist (int sizeof_frozen) [] st = Inr (BOK, b, st1)"
    "fill persist (frozen_size fz - int sizeof_frozen) [] st1 = Inr (BOK, b2, st')"
    by (auto simp: get_le_def Let_def elim!: rbind_InrE split: if_splits)
       (metis (full_types) fillret.exhaust)
  from fill_bytes_left [OF f(1)] fill_bytes_left [OF f(2)] show ?thesis
    by (simp add: sizeof_frozen_def)
qed

section \<open>The program\<close>

text \<open>\<open>expand_loop\<close>: the \<^verbatim>\<open>while (1)\<close> of \<^verbatim>\<open>main\<close> with the records counted, in an \<^verbatim>\<open>int\<close> that wraps, and printed so far.\<close>

function expand_loop ::
  "(int \<Rightarrow> string) \<Rightarrow> 32 word \<Rightarrow> rdstate \<Rightarrow> int \<Rightarrow> string \<Rightarrow> (int \<times> string \<times> rdstate) result" where
  "expand_loop syscall2string pid st recno out =
     (case get_le False st of
        Inl e \<Rightarrow> Inl e
      | Inr (None, st') \<Rightarrow> Inr (recno, out, st')
      | Inr (Some le, st') \<Rightarrow>
          expand_loop syscall2string pid st' (to_int32 (recno + 1))
            (if pid \<noteq> 0 \<and> fz_pid (th_fz le) \<noteq> pid then out else out @ output_le syscall2string le))"
  by pat_completeness auto
termination
  by (relation "measure (\<lambda>(s2s, pid, st, recno, out). bytes_left st)") (auto dest: get_le_bytes_left)

declare expand_loop.simps [simp del]

text \<open>
  \<open>main\<close>: the exit status and what is printed.  \<open>files fn\<close> is \<open>None\<close> when \<^verbatim>\<open>open\<close> fails, and
  otherwise the size \<^verbatim>\<open>stat\<close> reports (\<open>None\<close> when it fails) and the reads that follow.
\<close>

definition expand_main ::
  "(int \<Rightarrow> string) \<Rightarrow> (string \<Rightarrow> (nat option \<times> rdret list) option) \<Rightarrow> string list \<Rightarrow> (int \<times> string) result" where
  "expand_main syscall2string files argv =
     (if length argv < 2 then Inr (1, [])
      else case files (argv ! 1) of
        None \<Rightarrow> Inr (1, [])
      | Some (st_size, script) \<Rightarrow>
          let pid = (if length argv = 3 then word_of_int (atoi (argv ! 2)) else 0 :: 32 word) in
          (case st_size of
             None \<Rightarrow> Inr (1, [])
           | Some sz \<Rightarrow>
               rbind (expand_loop syscall2string pid (rd_init (replicate (PIPE_BUF + 1) NUL) script) 0 [])
                 (\<lambda>(recno, out, st).
                   let out = out @ ''total: '' @ show_int recno @ [LF] @
                             ''bytes: '' @ show_int (bytes_seen st) @ [LF]
                   in if int sz \<noteq> bytes_seen st
                      then Inr (1, out @ ''ERROR! size mismatch (fstat='' @ show_nat sz @ '',used='' @
                                   show_int (bytes_seen st) @ '')'' @ [LF])
                      else Inr (1, out))))"

section \<open>The loop prints the entries\<close>

text \<open>The totals of \<open>n\<close> entries in \<open>sz\<close> bytes: both counts are cut to 32 bits, and a size that does not fit is a mismatch.\<close>

definition totals :: "nat \<Rightarrow> nat \<Rightarrow> string" where
  "totals n sz =
     ''total: '' @ show_int (to_int32 (int n)) @ [LF] @ ''bytes: '' @ show_int (to_int32 (int sz)) @ [LF] @
     (if sz < 2 ^ 31 then []
      else ''ERROR! size mismatch (fstat='' @ show_nat sz @ '',used='' @ show_int (to_int32 (int sz)) @ '')'' @ [LF])"

definition shown :: "(int \<Rightarrow> string) \<Rightarrow> 32 word \<Rightarrow> logentry_thaw list \<Rightarrow> string" where
  "shown s2s pid es =
     concat (map (output_le s2s) (filter (\<lambda>le. pid = 0 \<or> fz_pid (th_fz le) = pid) es))"

lemma expand_loop_entries:
  assumes "rd_wf st" and "ends_eof (rd_script st)" and "list_all wf_thaw es" and "length tail_bytes < 32"
    and "unread False st = concat (map entry_bytes es) @ tail_bytes"
  shows "\<exists>st'. expand_loop s2s pid st (to_int32 recno) out = Inr (to_int32 (recno + int (length es)), out @ shown s2s pid es, st') \<and>
     bytes_seen st' = to_int32 (bytes_seen st + int (length (unread False st)))"
  using assms
proof (induction es arbitrary: st recno out)
  case Nil
  with get_le_eof [of st] show ?case
    by (auto simp: expand_loop.simps [of s2s pid st] shown_def)
next
  case (Cons le es)
  have u: "unread False st = entry_bytes le @ concat (map entry_bytes es) @ tail_bytes" using Cons.prems by simp
  have wf: "wf_thaw le" "list_all wf_thaw es" using Cons.prems by auto
  from get_le_entry [OF Cons.prems(1) u wf(1)] Cons.prems(2) obtain st1 where
    g: "get_le False st = Inr (Some le, st1)" "rd_wf st1" "ends_eof (rd_script st1)"
      "unread False st1 = concat (map entry_bytes es) @ tail_bytes"
      "bytes_seen st1 = to_int32 (bytes_seen st + int (length (entry_bytes le)))" by auto
  let ?out = "if pid \<noteq> 0 \<and> fz_pid (th_fz le) \<noteq> pid then out else out @ output_le s2s le"
  from Cons.IH [OF g(2,3) wf(2) Cons.prems(4) g(4), of "recno + 1" ?out] obtain st' where
    st': "expand_loop s2s pid st1 (to_int32 (recno + 1)) ?out = Inr (to_int32 (recno + 1 + int (length es)), ?out @ shown s2s pid es, st')"
      "bytes_seen st' = to_int32 (bytes_seen st1 + int (length (unread False st1)))" by blast
  have "expand_loop s2s pid st (to_int32 recno) out = Inr (to_int32 (recno + int (length (le # es))), out @ shown s2s pid (le # es), st')"
    using st'(1) by (simp add: expand_loop.simps [of s2s pid st] g(1) shown_def add.assoc)
  with st'(2) u g(4,5) show ?case by (simp add: add.assoc)
qed

lemma rd_init_wf:
  "(\<And>b. RdBytes b \<in> set script \<Longrightarrow> length b \<le> length buf) \<Longrightarrow> rd_wf (rd_init buf script)"
  by (auto simp: rd_init_def rd_wf_def to_int32_def)

lemma unread_rd_init [simp]: "unread persist (rd_init buf script) = upcoming persist script"
  by (simp add: unread_def rd_init_def buffered_def)

lemma rd_init_fields [simp]:
  "rd_script (rd_init buf script) = script" "bytes_seen (rd_init buf script) = 0"
  by (simp_all add: rd_init_def)

lemma get_le_truncated:
  assumes "rd_wf st" and "ends_eof (rd_script st)" and "wf_thaw le"
    and "unread False st = take k (entry_bytes le)" and "32 \<le> k" and "k < length (entry_bytes le)"
  shows "get_le False st = Inl AssertFail"
proof -
  have "nat (int sizeof_frozen) \<le> length (unread False st)"
    using assms(4-6) by (simp add: sizeof_frozen_def)
  from fill_data [OF assms(1) this, of "[]"] assms(2,4-6) obtain st1 where
    f1: "fill False (int sizeof_frozen) [] st = Inr (BOK, take 32 (entry_bytes le), st1)" "rd_wf st1"
      "unread False st1 = drop 32 (take k (entry_bytes le))" "ends_eof (rd_script st1)"
    by (auto simp: sizeof_frozen_def min_def)
  have t1: "thaw1 (take 32 (entry_bytes le)) = Inr (th_fz le)"
    using thaw1_entry_bytes [OF assms(3), of "[]"] assms(5,6) by (simp add: thaw1_def sizeof_frozen_def)
  have "length (unread False st1) < nat (frozen_size (th_fz le) - int sizeof_frozen)"
    using f1(3) assms(5,6) length_entry_bytes [OF assms(3)] by (simp add: sizeof_frozen_def)
  from fill_eof [OF f1(2) this f1(4), of "[]"] f1(1) t1 show ?thesis
    by (auto simp: get_le_def Let_def)
qed

section \<open>Properties\<close>

text \<open>
  C6: reading is independent of how the kernel cuts the log.  When the bytes the
  buffer holds and the kernel will deliver start with the bytes of a well-formed entry, in
  whatever chunks they come, \<^verbatim>\<open>get_le\<close> returns exactly that entry, leaves exactly the bytes
  after it and adds the bytes of the entry to its 32-bit count of those seen.
\<close>
theorem get_le_reads_next_entry:
  assumes "rd_wf st" and "unread persist st = entry_bytes le @ rest" and "wf_thaw le"
  shows "\<exists>st'. get_le persist st = Inr (Some le, st') \<and> rd_wf st' \<and> unread persist st' = rest \<and>
     bytes_seen st' = to_int32 (bytes_seen st + frozen_size (th_fz le))"
  using get_le_entry [OF assms] length_entry_bytes [OF assms(3)] by auto

definition cut_script :: "rdret list" where
  "cut_script = [RdBytes (take 7 (entry_bytes sample_entry)),
     RdBytes (drop 7 (entry_bytes sample_entry) @ take 35 (entry_bytes sample_entry)), RdBytes []]"

lemma upcoming_chunk: "b \<noteq> [] \<Longrightarrow> upcoming persist (RdBytes b # script) = b @ upcoming persist script"
  by (cases b) auto

lemma ends_eof_chunk: "b \<noteq> [] \<Longrightarrow> ends_eof (RdBytes b # script) = ends_eof script"
  by (cases b) auto

lemma sample_cut_nonempty: "take (Suc n) (entry_bytes sample_entry) \<noteq> []"
  using length_sample_entry by (cases "entry_bytes sample_entry") auto

lemma cut_script_chunks:
  "upcoming False cut_script = entry_bytes sample_entry @ take 35 (entry_bytes sample_entry)"
  "ends_eof cut_script"
  using sample_cut_nonempty [of 6] sample_cut_nonempty [of 34]
  by (simp_all add: cut_script_def upcoming_chunk ends_eof_chunk del: take_eq_Nil)

lemma cut_script_wf: "rd_wf (rd_init (replicate 4097 NUL) cut_script)"
  by (rule rd_init_wf) (auto simp: cut_script_def length_sample_entry)

theorem get_le_reads_next_entry_witness:
  "\<exists>st'. get_le False (rd_init (replicate 4097 NUL) cut_script) = Inr (Some sample_entry, st') \<and>
     unread False st' = take 35 (entry_bytes sample_entry)"
  using get_le_reads_next_entry [OF cut_script_wf _ sample_entry_wf, of False] cut_script_chunks by auto

text \<open>
  A log cut inside the body of its last entry is not taken for a shorter one: with the
  header complete and the body incomplete at the end of the file, \<^verbatim>\<open>get_le\<close> stops in its
  assertion.
\<close>
lemma truncated_entry_asserts:
  assumes "rd_wf st" and "ends_eof (rd_script st)" and "wf_thaw le"
    and "unread False st = take k (entry_bytes le)" and "sizeof_frozen \<le> k" and "k < length (entry_bytes le)"
  shows "get_le False st = Inl AssertFail"
  using get_le_truncated [OF assms(1-4)] assms(5,6) by (simp add: sizeof_frozen_def)

lemma expand_main_entries:
  assumes "list_all wf_thaw es" and "content = concat (map entry_bytes es)"
    and "files fn = Some (Some (length content), script)"
    and "upcoming False script = content" and "ends_eof script"
    and "\<forall>b. RdBytes b \<in> set script \<longrightarrow> length b \<le> PIPE_BUF"
    and "pid = (if pidarg = [] then 0 else word_of_int (atoi (hd pidarg)))" and "length pidarg \<le> 1"
  shows "expand_main s2s files ([''expand'', fn] @ pidarg)
     = Inr (1, shown s2s pid es @ totals (length es) (length content))"
proof -
  let ?st = "rd_init (replicate (PIPE_BUF + 1) NUL) script"
  have "rd_wf ?st" by (rule rd_init_wf) (use assms(6) in auto)
  from expand_loop_entries [OF this _ assms(1), of "[]" s2s pid 0 "[]"] assms(2,4,5) obtain st' where
    l: "expand_loop s2s pid ?st 0 [] = Inr (to_int32 (int (length es)), shown s2s pid es, st')"
      "bytes_seen st' = to_int32 (int (length content))"
    by (auto simp: to_int32_id)
  have p: "(if length ([''expand'', fn] @ pidarg) = 3
            then word_of_int (atoi (([''expand'', fn] @ pidarg) ! 2)) else 0) = pid"
    using assms(7,8) by (cases pidarg) auto
  show ?thesis
    unfolding expand_main_def p using assms(3) l to_int32_eq_iff [of "int (length content)"]
    by (auto simp: Let_def totals_def eq_commute [of "int _" "to_int32 _"])
qed

text \<open>
  C7: \<^verbatim>\<open>expand\<close> prints the log.  For a file that holds the bytes of any list of well-formed
  entries, delivered in chunks of any sizes the buffer takes, the program ends, prints exactly
  those entries (of the chosen process, when one is given) in order, and then their number and
  the size of the file, each cut to 32 bits: a file of 2 GiB or more is printed whole, but its size is
  printed wrong and reported as a mismatch, which the size of a smaller file never is.
\<close>
theorem expand_prints_entries:
  assumes "list_all wf_thaw es" and "content = concat (map entry_bytes es)"
    and "files fn = Some (Some (length content), script)"
    and "upcoming False script = content" and "ends_eof script"
    and "\<forall>b. RdBytes b \<in> set script \<longrightarrow> length b \<le> PIPE_BUF"
    and "pid = (if pidarg = [] then 0 else word_of_int (atoi (hd pidarg)))" and "length pidarg \<le> 1"
  shows "expand_main s2s files ([''expand'', fn] @ pidarg)
     = Inr (1, shown s2s pid es @ totals (length es) (length content))"
  using assms by (rule expand_main_entries)

theorem expand_prints_entries_witness:
  "expand_main (\<lambda>_. ''read'')
     (\<lambda>_. Some (Some 86, [RdBytes (entry_bytes sample_entry @ entry_bytes sample_entry), RdBytes []]))
     ([''expand'', ''raw.log''] @ [])
   = Inr (1, shown (\<lambda>_. ''read'') 0 [sample_entry, sample_entry] @ ''total: '' @ show_int 2 @ [LF] @
             ''bytes: '' @ show_int 86 @ [LF])"
proof -
  let ?c = "concat (map entry_bytes [sample_entry, sample_entry])"
  let ?s = "[RdBytes ?c, RdBytes []]"
  have ne: "?c \<noteq> []" using length_sample_entry by auto
  have lc: "length ?c = 86" by (simp add: length_sample_entry)
  have "expand_main (\<lambda>_. ''read'') (\<lambda>_. Some (Some (length ?c), ?s)) ([''expand'', ''raw.log''] @ [])
     = Inr (1, shown (\<lambda>_. ''read'') 0 [sample_entry, sample_entry] @ totals (length [sample_entry, sample_entry]) (length ?c))"
    by (rule expand_prints_entries [where script = ?s])
       (simp_all only: upcoming_chunk [OF ne] ends_eof_chunk [OF ne],
        simp_all add: sample_entry_wf length_sample_entry PIPE_BUF_def)
  then show ?thesis by (simp only: lc) (simp add: totals_def to_int32_id)
qed

end
