(* ===== verification/Logd.thy ===== *)
theory Logd
  imports Binlog Common
begin

text \<open>
  The log daemon \<^verbatim>\<open>src/logd/logd.c\<close>: one relay buffer, fill level and clock difference per
  descriptor, \<^verbatim>\<open>record_timediff\<close>, \<^verbatim>\<open>transfer_out\<close>, \<^verbatim>\<open>transfer_in\<close>, the signal handler and the
  \<^verbatim>\<open>select\<close> loop with its accepts and disconnects.  The kernel is a set of scripts: what
  \<^verbatim>\<open>read\<close> will answer on each descriptor, what \<^verbatim>\<open>accept\<close> and the \<^verbatim>\<open>write\<close>s to the log file
  answer, and the clock.
\<close>

section \<open>State\<close>

definition RELAY_BUF :: nat where
  "RELAY_BUF = 4 * 1024 * 1024"

definition FD_SETSIZE :: int where
  "FD_SETSIZE = 1024"

record logd =
  relay :: "int \<Rightarrow> string option"
  infd :: int
  outfd :: int
  active_fd_set :: "int list"
  b_end :: "int \<Rightarrow> nat"
  avail :: "int \<Rightarrow> nat"
  timediff :: "int \<Rightarrow> timeval"
  nfds :: int
  lg_clock :: "nat \<Rightarrow> timeval"    \<comment> \<open>the answers of \<^verbatim>\<open>gettimeofday\<close>\<close>
  lg_ticks :: nat
  lg_reads :: "int \<Rightarrow> rdret list"
  lg_accepts :: "int list"
  lg_writes :: "sysret list"
  lg_out :: string                \<comment> \<open>the log file\<close>
  lg_closed :: "int list"

definition FD_SET :: "int \<Rightarrow> int list \<Rightarrow> int list" where
  "FD_SET fd s = (if fd \<in> set s then s else fd # s)"

definition FD_CLR :: "int \<Rightarrow> int list \<Rightarrow> int list" where
  "FD_CLR fd s = removeAll fd s"

section \<open>record_timediff\<close>

definition remote_time :: "logentry_frozen \<Rightarrow> timeval" where
  "remote_time fz = Timeval (int (unat (fz_cycle_high fz))) (int (unat (fz_cycle_low fz)))"

definition record_timediff :: "logentry_frozen \<Rightarrow> logd \<Rightarrow> logd" where
  "record_timediff fz st =
     (if infd st = - 1 then st
      else let localtime = lg_clock st (lg_ticks st) in
        st\<lparr>lg_ticks := lg_ticks st + 1,
           timediff := (timediff st)(infd st := timersub localtime (remote_time fz))\<rparr>)"

section \<open>transfer_out\<close>

text \<open>The entry with the clock difference applied; the sum is stored into 32-bit fields.\<close>

definition apply_timediff :: "timeval \<Rightarrow> logentry_thaw \<Rightarrow> logentry_thaw" where
  "apply_timediff td le =
     (let newtime = timeradd (remote_time (th_fz le)) td in
      le\<lparr>th_fz := (th_fz le)\<lparr>fz_cycle_high := word_of_int (tv_sec newtime),
                           fz_cycle_low := word_of_int (tv_usec newtime)\<rparr>\<rparr>)"

text \<open>
  The copy loop after a write: \<open>relay[i] = relay[t + i]\<close> for \<open>i < b_end - size\<close>, upwards, so
  every byte is read before it is overwritten.
\<close>

definition shift_relay :: "nat \<Rightarrow> nat \<Rightarrow> nat \<Rightarrow> string \<Rightarrow> string" where
  "shift_relay t bend sz mem = poke mem 0 (peek mem t (bend - sz))"

text \<open>The answer \<open>SysOk r\<close> of \<^verbatim>\<open>write\<close> takes at most \<open>r\<close> of the bytes offered.\<close>

definition write_entry :: "nat \<Rightarrow> string \<Rightarrow> string \<Rightarrow> logd \<Rightarrow> logd result" where
  "write_entry sz buf mem st =
     (case lg_writes st of
        [] \<Rightarrow> Inl Blocked
      | SysErr # script \<Rightarrow> Inl (Exit 1)
      | SysOk r # script \<Rightarrow>
          let t = min r sz; fd = infd st; st = st\<lparr>lg_writes := script, lg_out := lg_out st @ take t buf\<rparr> in
          Inr (if t > 0
               then st\<lparr>relay := (relay st)(fd := Some (shift_relay t (b_end st fd) sz mem)),
                       b_end := (b_end st)(fd := b_end st fd - t),
                       avail := (avail st)(fd := avail st fd + t)\<rparr>
               else st))"

definition ensure_timediff :: "logentry_frozen \<Rightarrow> logd \<Rightarrow> logd" where
  "ensure_timediff fz st = (if timerisset (timediff st (infd st)) then st else record_timediff fz st)"

lemma ensure_timediff_same [simp]:
  "infd (ensure_timediff fz st) = infd st" "relay (ensure_timediff fz st) = relay st"
  "b_end (ensure_timediff fz st) = b_end st" "avail (ensure_timediff fz st) = avail st"
  "lg_writes (ensure_timediff fz st) = lg_writes st" "lg_out (ensure_timediff fz st) = lg_out st"
  "lg_reads (ensure_timediff fz st) = lg_reads st" "outfd (ensure_timediff fz st) = outfd st"
  "active_fd_set (ensure_timediff fz st) = active_fd_set st" "nfds (ensure_timediff fz st) = nfds st"
  "lg_accepts (ensure_timediff fz st) = lg_accepts st" "lg_clock (ensure_timediff fz st) = lg_clock st"
  by (simp_all add: ensure_timediff_def record_timediff_def Let_def)

lemma write_entry_shorter: "write_entry sz buf mem st = Inr st' \<Longrightarrow> length (lg_writes st') < length (lg_writes st)"
  by (auto simp: write_entry_def Let_def split: list.splits sysret.splits)

function transfer_out_loop :: "logd \<Rightarrow> logd result" where
  "transfer_out_loop st =
     (if b_end st (infd st) < sizeof_frozen then Inr st
      else case relay st (infd st) of
        None \<Rightarrow> Inl NullDeref
      | Some mem \<Rightarrow>
         (case thaw1 mem of
            Inl e \<Rightarrow> Inl e
          | Inr frozen \<Rightarrow>
              let st1 = ensure_timediff frozen st;
                  sz = to_uint32 (frozen_size frozen)
              in if b_end st (infd st) < sz then Inr st1
                 else case rbind (thaw2 (drop sizeof_frozen mem) frozen (to_int32 (int sz - int sizeof_frozen)))
                             (\<lambda>le. rbind (freeze (apply_timediff (timediff st1 (infd st)) le) (to_int32 (int sz)))
                               (\<lambda>buf. write_entry sz buf mem st1)) of
                        Inl e \<Rightarrow> Inl e
                      | Inr st2 \<Rightarrow> transfer_out_loop st2))"
  by pat_completeness auto
termination
  by (relation "measure (\<lambda>st. length (lg_writes st))")
     (auto elim!: rbind_InrE dest!: write_entry_shorter)

declare transfer_out_loop.simps [simp del]

definition transfer_out :: "logd \<Rightarrow> logd result" where
  "transfer_out st =
     (if relay st (infd st) = None then Inr st
      else if outfd st < 0 then Inr st
      else transfer_out_loop st)"

section \<open>transfer_in\<close>

text \<open>
  The kernel's side of \<^verbatim>\<open>read(fd, buf, count)\<close>: it hands out at most \<open>count\<close> bytes of what has
  arrived and keeps the rest; an empty chunk is the end of the stream.
\<close>

definition take_arrived :: "nat \<Rightarrow> string \<Rightarrow> rdret list \<Rightarrow> rdret list" where
  "take_arrived count b script = (if length b \<le> count then script else RdBytes (drop count b) # script)"

text \<open>The return value and the state.\<close>

definition transfer_in :: "logd \<Rightarrow> (int \<times> logd) result" where
  "transfer_in st =
     (let fd = infd st in
      if fd < 0 then Inr (- 1, st)
      else case relay st fd of
        None \<Rightarrow> Inr (- 1, st)
      | Some mem \<Rightarrow>
         (case lg_reads st fd of
            [] \<Rightarrow> Inl Blocked
          | RdErr # script \<Rightarrow> Inr (- 1, st\<lparr>lg_reads := (lg_reads st)(fd := script)\<rparr>)
          | RdBytes b # script \<Rightarrow>
              let got = take (avail st fd) b;
                  st1 = st\<lparr>lg_reads := (lg_reads st)(fd := take_arrived (avail st fd) b script)\<rparr>
              in if got = [] then Inr (0, st1)
                 else if length mem < b_end st fd + length got then Inl OutOfBounds
                 else let st2 = st1\<lparr>relay := (relay st)(fd := Some (poke mem (b_end st fd) got)),
                                   avail := (avail st)(fd := avail st fd - length got),
                                   b_end := (b_end st)(fd := b_end st fd + length got)\<rparr>
                      in rbind (if sizeof_frozen < b_end st2 fd then transfer_out st2 else Inr st2)
                           (\<lambda>st3. Inr (int (length got), st3))))"

section \<open>The signal handler\<close>

definition sig :: "logd \<Rightarrow> logd" where
  "sig st =
     (if outfd st < 0 then st
      else st\<lparr>lg_closed := lg_closed st @ (if 0 \<le> infd st then [infd st] else []) @
                          filter (\<lambda>i. i \<in> set (active_fd_set st)) [0..FD_SETSIZE - 1] @ [outfd st],
              active_fd_set := filter (\<lambda>i. i < 0 \<or> FD_SETSIZE \<le> i) (active_fd_set st)\<rparr>)"

section \<open>The main loop\<close>

text \<open>A connection request: \<^verbatim>\<open>accept\<close> gives a descriptor, which gets a zeroed relay buffer.\<close>

definition logd_accept :: "logd \<Rightarrow> logd result" where
  "logd_accept st =
     (case lg_accepts st of
        [] \<Rightarrow> Inl Blocked
      | status # rest \<Rightarrow>
          if status < 0 then Inl (Exit 1)
          else if FD_SETSIZE \<le> status then Inl OutOfBounds
          else Inr (st\<lparr>lg_accepts := rest,
                       relay := (relay st)(status := Some (replicate RELAY_BUF NUL)),
                       active_fd_set := FD_SET status (active_fd_set st),
                       nfds := (if nfds st \<le> status then status + 1 else nfds st)\<rparr>))"

text \<open>Data, an error or the end of the stream on a connected descriptor.\<close>

definition logd_data :: "int \<Rightarrow> logd \<Rightarrow> logd result" where
  "logd_data i st =
     rbind (transfer_in (st\<lparr>infd := i\<rparr>)) (\<lambda>(r, st1).
       rbind (if r \<le> 0
              then rbind (transfer_out (st1\<lparr>lg_closed := lg_closed st1 @ [i],
                                            active_fd_set := FD_CLR i (active_fd_set st1),
                                            nfds := (if i = nfds st1 then nfds st1 - 1 else nfds st1)\<rparr>))
                     (\<lambda>st2. Inr (st2\<lparr>relay := (relay st2)(i := None)\<rparr>))
              else Inr st1)
         (\<lambda>st3. Inr (st3\<lparr>infd := - 1\<rparr>)))"

definition serve_fd :: "int \<Rightarrow> int \<Rightarrow> logd \<Rightarrow> logd result" where
  "serve_fd sock i st = (if i = sock then logd_accept st else logd_data i st)"

text \<open>The kernel's accepts and the descriptors still to visit bound the \<^verbatim>\<open>for\<close> loop.\<close>

lemma write_entry_frame:
  "write_entry sz buf mem st = Inr st' \<Longrightarrow>
     nfds st' = nfds st \<and> lg_accepts st' = lg_accepts st \<and> infd st' = infd st \<and> lg_reads st' = lg_reads st"
  by (auto simp: write_entry_def Let_def split: list.splits sysret.splits)

lemma transfer_out_loop_frame:
  "transfer_out_loop st = Inr st' \<Longrightarrow>
     nfds st' = nfds st \<and> lg_accepts st' = lg_accepts st \<and> infd st' = infd st \<and> lg_reads st' = lg_reads st"
proof (induction st rule: transfer_out_loop.induct)
  case (1 st)
  show ?case
  proof (cases "b_end st (infd st) < sizeof_frozen")
    case True
    with "1.prems" show ?thesis by (simp add: transfer_out_loop.simps [of st])
  next
    case False
    with "1.prems" obtain mem frozen where mf: "relay st (infd st) = Some mem" "thaw1 mem = Inr frozen"
      by (auto simp: transfer_out_loop.simps [of st] split: option.splits sum.splits)
    show ?thesis
    proof (cases "b_end st (infd st) < to_uint32 (frozen_size frozen)")
      case True
      with False mf "1.prems" show ?thesis by (auto simp: transfer_out_loop.simps [of st] Let_def)
    next
      case more: False
      let ?r = "rbind (thaw2 (drop sizeof_frozen mem) frozen
            (to_int32 (int (to_uint32 (frozen_size frozen)) - int sizeof_frozen)))
          (\<lambda>le. rbind (freeze (apply_timediff (timediff (ensure_timediff frozen st) (infd st)) le)
                        (to_int32 (int (to_uint32 (frozen_size frozen)))))
            (\<lambda>buf. write_entry (to_uint32 (frozen_size frozen)) buf mem (ensure_timediff frozen st)))"
      from False mf more "1.prems" obtain st2 where r: "?r = Inr st2" and l: "transfer_out_loop st2 = Inr st'"
        by (auto simp: transfer_out_loop.simps [of st] Let_def split: sum.splits)
      from r have "nfds st2 = nfds st \<and> lg_accepts st2 = lg_accepts st \<and> infd st2 = infd st \<and> lg_reads st2 = lg_reads st"
        by (auto elim!: rbind_InrE dest!: write_entry_frame)
      with "1.IH" [OF False mf refl refl more r l] show ?thesis by simp
    qed
  qed
qed

lemma transfer_out_frame:
  "transfer_out st = Inr st' \<Longrightarrow> nfds st' = nfds st \<and> lg_accepts st' = lg_accepts st \<and> infd st' = infd st \<and> lg_reads st' = lg_reads st"
  by (auto simp: transfer_out_def dest!: transfer_out_loop_frame split: if_splits)

lemma transfer_in_frame:
  "transfer_in st = Inr (r, st') \<Longrightarrow> nfds st' = nfds st \<and> lg_accepts st' = lg_accepts st \<and> infd st' = infd st"
  by (auto simp: transfer_in_def Let_def elim!: rbind_InrE dest!: transfer_out_frame
      split: if_splits option.splits list.splits rdret.splits)

lemma serve_fd_bound:
  "serve_fd sock i st = Inr st' \<Longrightarrow>
     length (lg_accepts st') < length (lg_accepts st) \<or>
     lg_accepts st' = lg_accepts st \<and> nfds st' \<le> nfds st"
  by (auto simp: serve_fd_def logd_accept_def logd_data_def elim!: rbind_InrE
      dest!: transfer_out_frame transfer_in_frame split: if_splits list.splits)

text \<open>A piece that fits the buffer is taken whole.\<close>

lemma logd_data_takes:
  assumes "logd_data fd st = Inr st'" and "lg_reads st fd = RdBytes b # script" and "b \<noteq> []" and "length b \<le> avail st fd"
    and "relay st fd \<noteq> None" and "0 \<le> fd"
  shows "lg_reads st' fd = script"
  using assms
  by (auto simp: logd_data_def transfer_in_def take_arrived_def Let_def elim!: rbind_InrE dest!: transfer_out_frame split: if_splits)

text \<open>
  The \<^verbatim>\<open>for\<close> loop over the descriptors of \<^verbatim>\<open>read_fd_set\<close>, with \<^verbatim>\<open>nfds\<close> read again in every
  round and the count \<^verbatim>\<open>avail_fd\<close> ending it early.
\<close>

function serve_ready :: "int \<Rightarrow> int list \<Rightarrow> int \<Rightarrow> int \<Rightarrow> logd \<Rightarrow> logd result" where
  "serve_ready sock read_fd_set avail_fd i st =
     (if i < nfds st
      then if i \<in> set read_fd_set
           then (case serve_fd sock i st of
                   Inl e \<Rightarrow> Inl e
                 | Inr st' \<Rightarrow> if avail_fd - 1 = 0 then Inr st'
                              else serve_ready sock read_fd_set (avail_fd - 1) (i + 1) st')
           else serve_ready sock read_fd_set avail_fd (i + 1) st
      else Inr st)"
  by pat_completeness auto
termination
  by (relation "measures [\<lambda>(sock, rs, av, i, st). length (lg_accepts st), \<lambda>(sock, rs, av, i, st). nat (nfds st - i)]")
     (auto dest!: serve_fd_bound)

declare serve_ready.simps [simp del]

text \<open>
  One round of \<^verbatim>\<open>while (1)\<close>: the answer of \<^verbatim>\<open>select\<close> is \<open>None\<close> for an error and otherwise the
  descriptors that are ready.
\<close>

definition logd_round :: "int \<Rightarrow> int list option \<Rightarrow> logd \<Rightarrow> logd result" where
  "logd_round sock answer st =
     (case answer of
        None \<Rightarrow> Inl (Exit 1)
      | Some ready \<Rightarrow> serve_ready sock ready (int (length ready)) 0 st)"

definition logd_rounds :: "int \<Rightarrow> int list option list \<Rightarrow> logd \<Rightarrow> logd result" where
  "logd_rounds sock = run_all (logd_round sock)"

section \<open>Start\<close>

definition create_socket :: "int \<Rightarrow> bool \<Rightarrow> int" where
  "create_socket sock bind_ok = (if sock < 0 then - 1 else if bind_ok then sock else - 1)"

text \<open>The answers the kernel gives while the daemon starts.\<close>

record logd_boot =
  bt_mkfifo_fails :: bool
  bt_eexist :: bool
  bt_fifo :: int          \<comment> \<open>\<^verbatim>\<open>open\<close> of the fifo\<close>
  bt_socket :: int
  bt_bind_ok :: bool
  bt_listen_ok :: bool    \<comment> \<open>on a descriptor that is not negative\<close>
  bt_log :: int           \<comment> \<open>\<^verbatim>\<open>open\<close> of the log file\<close>
  bt_stack :: int         \<comment> \<open>what the uninitialised local \<^verbatim>\<open>sock\<close> holds\<close>

text \<open>
  \<^verbatim>\<open>main\<close> up to its loop: the value of \<^verbatim>\<open>sock\<close> and the state.  With a fifo \<^verbatim>\<open>sock\<close> is
  never assigned.
\<close>

definition logd_start :: "nat \<Rightarrow> logd_boot \<Rightarrow> logd \<Rightarrow> (int \<times> logd) result" where
  "logd_start argc k st =
     (if argc \<noteq> 2 \<and> argc \<noteq> 3 then Inl (Exit 1)
      else let st = st\<lparr>b_end := (\<lambda>_. 0), avail := (\<lambda>_. RELAY_BUF)\<rparr> in
        rbind
          (if argc = 2
           then if bt_mkfifo_fails k \<and> \<not> bt_eexist k then Inl (Exit 1)
                else if bt_fifo k < 0 then Inl (Exit 1)
                else if FD_SETSIZE \<le> bt_fifo k then Inl OutOfBounds
                else Inr (bt_stack k,
                          st\<lparr>infd := bt_fifo k,
                             relay := (relay st)(bt_fifo k := Some (replicate RELAY_BUF NUL)),
                             active_fd_set := [bt_fifo k],
                             nfds := (if nfds st \<le> bt_fifo k then bt_fifo k + 1 else nfds st)\<rparr>)
           else let sock = create_socket (bt_socket k) (bt_bind_ok k) in
                if sock < 0 \<or> \<not> bt_listen_ok k then Inl (Exit 1)
                else if FD_SETSIZE \<le> sock then Inl OutOfBounds
                else Inr (sock, st\<lparr>active_fd_set := [sock],
                                   nfds := (if nfds st \<le> sock then sock + 1 else nfds st)\<rparr>))
          (\<lambda>(sock, st). if bt_log k < 0 then Inl (Exit 1) else Inr (sock, st\<lparr>outfd := bt_log k\<rparr>)))"

section \<open>Entries through the relay\<close>

definition conn_wf :: "int \<Rightarrow> logd \<Rightarrow> bool" where
  "conn_wf fd st \<longleftrightarrow>
     (case relay st fd of None \<Rightarrow> False | Some mem \<Rightarrow> length mem = RELAY_BUF) \<and>
     b_end st fd + avail st fd = RELAY_BUF"

definition pending :: "int \<Rightarrow> logd \<Rightarrow> string" where
  "pending fd st = (case relay st fd of None \<Rightarrow> [] | Some mem \<Rightarrow> take (b_end st fd) mem)"

text \<open>A regular file takes every write whole.\<close>

definition full_writes :: "logd \<Rightarrow> bool" where
  "full_writes st \<longleftrightarrow> list_all (\<lambda>w. case w of SysErr \<Rightarrow> False | SysOk r \<Rightarrow> RELAY_BUF \<le> r) (lg_writes st)"

text \<open>An entry that has not arrived completely.\<close>

definition torn :: "string \<Rightarrow> bool" where
  "torn b \<longleftrightarrow> (\<exists>e k. wf_thaw e \<and> k < length (entry_bytes e) \<and> b = take k (entry_bytes e))"

definition max_entry :: nat where
  "max_entry = 32811"

text \<open>The state after \<open>out\<close> has been written in \<open>k\<close> writes and \<open>n\<close> bytes of \<open>m\<close> are left.\<close>

definition drained :: "int \<Rightarrow> string \<Rightarrow> nat \<Rightarrow> string \<Rightarrow> nat \<Rightarrow> logd \<Rightarrow> logd" where
  "drained fd out k m n st =
     st\<lparr>lg_out := lg_out st @ out, lg_writes := drop k (lg_writes st), relay := (relay st)(fd := Some m),
        b_end := (b_end st)(fd := n), avail := (avail st)(fd := RELAY_BUF - n)\<rparr>"

lemma apply_timediff_sizes [simp]:
  "arg_count (th_fz (apply_timediff td e)) = arg_count (th_fz e)"
  "str_count (th_fz (apply_timediff td e)) = str_count (th_fz e)"
  "th_arg (apply_timediff td e) = th_arg e" "th_str (apply_timediff td e) = th_str e"
  "fz_padding (th_fz (apply_timediff td e)) = fz_padding (th_fz e)"
  by (simp_all add: apply_timediff_def Let_def arg_count_def str_count_def)

lemma frozen_size_apply [simp]: "frozen_size (th_fz (apply_timediff td e)) = frozen_size (th_fz e)"
  by (simp add: frozen_size_def)

lemma wf_apply_timediff [simp]: "wf_thaw (apply_timediff td e) = wf_thaw e"
  by (simp add: wf_thaw_def wf_frozen_def Let_def split: option.splits)

lemma frozen_size_bounds: "wf_thaw e \<Longrightarrow> 32 \<le> frozen_size (th_fz e) \<and> frozen_size (th_fz e) \<le> int max_entry"
  using str_count_bounds(2) [of "th_fz e"]
  by (auto simp: frozen_size_eq wf_thaw_def wf_frozen_def max_entry_def Let_def)

lemma length_entry_bounds: "wf_thaw e \<Longrightarrow> 32 \<le> length (entry_bytes e) \<and> length (entry_bytes e) \<le> max_entry"
  using frozen_size_bounds [of e] length_entry_bytes [of e] by simp

lemma size_conversions:
  assumes "wf_thaw e"
  shows "to_uint32 (frozen_size (th_fz e)) = length (entry_bytes e)"
    and "to_int32 (int (length (entry_bytes e))) = frozen_size (th_fz e)"
    and "to_int32 (int (length (entry_bytes e)) - 32) = frozen_size (th_fz e) - 32"
proof -
  define z where "z = frozen_size (th_fz e)"
  have z: "32 \<le> z" "z \<le> 32811" "length (entry_bytes e) = nat z" "int (length (entry_bytes e)) = z"
    using frozen_size_bounds [OF assms] length_entry_bytes [OF assms] by (simp_all add: z_def max_entry_def)
  show "to_uint32 (frozen_size (th_fz e)) = length (entry_bytes e)"
    unfolding z_def [symmetric] z(3) by (rule to_uint32_id) (use z in simp_all)
  show "to_int32 (int (length (entry_bytes e))) = frozen_size (th_fz e)"
    unfolding z_def [symmetric] z(4) by (rule to_int32_id) (use z in simp_all)
  show "to_int32 (int (length (entry_bytes e)) - 32) = frozen_size (th_fz e) - 32"
    unfolding z_def [symmetric] z(4) by (rule to_int32_id) (use z in simp_all)
qed

lemma freeze_apply: "wf_thaw e \<Longrightarrow> freeze (apply_timediff td e) (frozen_size (th_fz e)) = Inr (entry_bytes (apply_timediff td e))"
  using freeze_wf [of "apply_timediff td e"] by simp

lemma length_apply: "wf_thaw e \<Longrightarrow> length (entry_bytes (apply_timediff td e)) = length (entry_bytes e)"
  using length_entry_bytes [of e] length_entry_bytes [of "apply_timediff td e"] by simp

lemma take_eq_append: "take n m = a @ b \<Longrightarrow> \<exists>t. m = a @ b @ t \<and> t = drop n m"
  by (metis append.assoc append_take_drop_id)

text \<open>One whole entry at the head of the relay buffer goes out in one round of the loop.\<close>

lemma transfer_out_loop_entry:
  assumes "conn_wf (infd st) st" and "pending (infd st) st = entry_bytes e @ rest" and "wf_thaw e"
    and "timerisset (timediff st (infd st))" and "lg_writes st = SysOk r # ws" and "RELAY_BUF \<le> r"
  shows "\<exists>m. transfer_out_loop st = transfer_out_loop
           (drained (infd st) (entry_bytes (apply_timediff (timediff st (infd st)) e)) 1 m (length rest) st) \<and>
         length m = RELAY_BUF \<and> take (length rest) m = rest"
proof -
  let ?fd = "infd st" and ?n = "length (entry_bytes e)"
  from assms(1) obtain mem where mem: "relay st ?fd = Some mem" "length mem = RELAY_BUF"
    and be: "b_end st ?fd + avail st ?fd = RELAY_BUF" by (auto simp: conn_wf_def split: option.splits)
  from assms(2) mem have tk: "take (b_end st ?fd) mem = entry_bytes e @ rest" by (simp add: pending_def)
  then have bl: "b_end st ?fd = ?n + length rest" using be mem(2) by (metis le_add1 length_append length_take min.absorb2)
  from take_eq_append [OF tk] obtain t where m: "mem = entry_bytes e @ rest @ t" by auto
  note lb = length_entry_bounds [OF assms(3)]
  have t1: "thaw1 mem = Inr (th_fz e)" unfolding m using thaw1_entry_bytes [OF assms(3)] by simp
  have t2: "thaw2 (drop 32 mem) (th_fz e) (frozen_size (th_fz e) - 32) = Inr e"
    unfolding m using thaw2_entry_bytes [OF assms(3), of "rest @ t"] lb by simp
  let ?m = "shift_relay ?n (b_end st ?fd) ?n mem"
  have nr: "min r ?n = ?n" using lb assms(6) by (simp add: max_entry_def RELAY_BUF_def)
  have sh: "?m = poke mem 0 rest" by (simp add: shift_relay_def bl m peek_def)
  have "length rest \<le> length mem" by (simp add: m)
  then have lm: "length ?m = RELAY_BUF" "take (length rest) ?m = rest"
    using mem(2) unfolding sh by (simp_all add: poke_def)
  have en: "ensure_timediff (th_fz e) st = st" using assms(4) by (simp add: ensure_timediff_def)
  let ?buf = "entry_bytes (apply_timediff (timediff st ?fd) e)"
  have we: "write_entry ?n ?buf mem st = Inr (drained ?fd ?buf 1 ?m (length rest) st)"
  proof -
    have "0 < ?n" using lb by linarith
    moreover have "avail st ?fd + ?n = RELAY_BUF - length rest" using be bl by simp
    ultimately show ?thesis
      by (simp add: write_entry_def assms(5) Let_def drained_def length_apply [OF assms(3)] nr bl)
  qed
  have "transfer_out_loop st = transfer_out_loop (drained ?fd ?buf 1 ?m (length rest) st)"
    using lb bl mem(1) t1 t2 we
    by (subst transfer_out_loop.simps)
       (simp add: Let_def en size_conversions [OF assms(3)] sizeof_frozen_def freeze_apply [OF assms(3)])
  with lm show ?thesis by blast
qed

text \<open>An entry that is still incomplete stays.\<close>

lemma transfer_out_loop_torn:
  assumes "conn_wf (infd st) st" and "torn (pending (infd st) st)" and "timerisset (timediff st (infd st))"
  shows "transfer_out_loop st = Inr st"
proof -
  let ?fd = "infd st"
  from assms(1) obtain mem where mem: "relay st ?fd = Some mem" "length mem = RELAY_BUF"
    and be: "b_end st ?fd + avail st ?fd = RELAY_BUF" by (auto simp: conn_wf_def split: option.splits)
  from assms(2) mem obtain e k where e: "wf_thaw e" "k < length (entry_bytes e)"
    "take (b_end st ?fd) mem = take k (entry_bytes e)" by (auto simp: torn_def pending_def)
  have k: "b_end st ?fd = k" using arg_cong [OF e(3), of length] be mem(2) e(2) by simp
  show ?thesis
  proof (cases "k < 32")
    case True
    then show ?thesis by (subst transfer_out_loop.simps) (simp add: k sizeof_frozen_def)
  next
    case False
    then have "take 32 mem = take 32 (entry_bytes e)"
      using e(3) k by (metis linorder_not_less min.absorb2 min.commute take_take)
    moreover have "length (frozen_bytes (th_fz e)) = 32" "length (fz_padding (th_fz e)) = 4"
      using e(1) by (simp_all add: length_frozen_bytes wf_thaw_def wf_frozen_def Let_def)
    ultimately have "thaw1 mem = Inr (th_fz e)"
      using mem(2) by (simp add: thaw1_def sizeof_frozen_def RELAY_BUF_def entry_bytes_def frozen_of_bytes_frozen_bytes)
    then show ?thesis
      using False mem(1) e(2) assms(3)
      by (subst transfer_out_loop.simps) (simp add: k sizeof_frozen_def size_conversions [OF e(1)] ensure_timediff_def)
  qed
qed

lemma drained_simps [simp]:
  "infd (drained fd out k m n st) = infd st" "outfd (drained fd out k m n st) = outfd st"
  "timediff (drained fd out k m n st) = timediff st" "lg_reads (drained fd out k m n st) = lg_reads st"
  "lg_writes (drained fd out k m n st) = drop k (lg_writes st)" "lg_out (drained fd out k m n st) = lg_out st @ out"
  "relay (drained fd out k m n st) = (relay st)(fd := Some m)"
  "b_end (drained fd out k m n st) = (b_end st)(fd := n)"
  "avail (drained fd out k m n st) = (avail st)(fd := RELAY_BUF - n)"
  by (simp_all add: drained_def)

lemma drained_drained: "drained fd out k m n (drained fd out' k' m' n' st) = drained fd (out' @ out) (k' + k) m n st"
  by (simp add: drained_def add.commute)

lemma drained_conn:
  "length m = RELAY_BUF \<Longrightarrow> take n m = b \<Longrightarrow> n = length b \<Longrightarrow>
     conn_wf fd (drained fd out k m n st) \<and> pending fd (drained fd out k m n st) = b"
  by (auto simp: conn_wf_def pending_def dest: arg_cong [of _ _ length])

lemma full_writes_drop [simp]: "full_writes st \<Longrightarrow> full_writes (drained fd out k m n st)"
  by (auto simp: full_writes_def list_all_iff dest: in_set_dropD)

lemma full_writes_Cons:
  assumes "full_writes st"
  obtains "lg_writes st = []" | r ws where "lg_writes st = SysOk r # ws" and "RELAY_BUF \<le> r"
  using assms by (cases "lg_writes st") (auto simp: full_writes_def split: sysret.splits)

definition relayed_bytes :: "timeval \<Rightarrow> logentry_thaw list \<Rightarrow> string" where
  "relayed_bytes td es = concat (map (\<lambda>e. entry_bytes (apply_timediff td e)) es)"

lemma drained_self:
  assumes "conn_wf fd st"
  obtains m where "st = drained fd [] 0 m (length (pending fd st)) st" and "length m = RELAY_BUF"
    and "take (length (pending fd st)) m = pending fd st"
proof -
  from assms obtain m where m: "relay st fd = Some m" "length m = RELAY_BUF"
    "b_end st fd + avail st fd = RELAY_BUF" by (auto simp: conn_wf_def split: option.splits)
  have l: "length (pending fd st) = b_end st fd" using m by (simp add: pending_def)
  have "(relay st)(fd := Some m) = relay st" "(avail st)(fd := RELAY_BUF - b_end st fd) = avail st"
    using m by (auto simp: fun_upd_idem_iff)
  then have "st = drained fd [] 0 m (length (pending fd st)) st" by (simp add: drained_def l)
  then show ?thesis using m l by (intro that) (simp_all add: pending_def)
qed

lemma transfer_out_loop_entries:
  assumes "conn_wf (infd st) st" and "full_writes st" and "timerisset (timediff st (infd st))"
    and "list_all wf_thaw es" and "torn rest"
    and "pending (infd st) st = concat (map entry_bytes es) @ rest"
  shows "transfer_out_loop st = Inl Blocked \<and> length (lg_writes st) < length es \<or>
     (\<exists>m. transfer_out_loop st = Inr (drained (infd st) (relayed_bytes (timediff st (infd st)) es) (length es)
                                        m (length rest) st) \<and>
          length m = RELAY_BUF \<and> take (length rest) m = rest)"
  using assms
proof (induction es arbitrary: st)
  case Nil
  then have p: "pending (infd st) st = rest" by simp
  from drained_self [OF Nil.prems(1), unfolded p] obtain m where
    m: "st = drained (infd st) [] 0 m (length rest) st" "length m = RELAY_BUF" "take (length rest) m = rest" .
  have "transfer_out_loop st = Inr st"
    using transfer_out_loop_torn [OF Nil.prems(1)] Nil.prems(3,5) p by simp
  then show ?case using m by (auto simp: relayed_bytes_def)
next
  case (Cons e es)
  let ?fd = "infd st" and ?rest = "concat (map entry_bytes es) @ rest" and ?td = "timediff st (infd st)"
  have p: "pending ?fd st = entry_bytes e @ ?rest" and wf: "wf_thaw e" "list_all wf_thaw es"
    using Cons.prems by auto
  from Cons.prems(2) show ?case
  proof (cases rule: full_writes_Cons)
    case 1
    have "transfer_out_loop st = Inl Blocked"
    proof -
      from Cons.prems(1) obtain mem where mem: "relay st ?fd = Some mem" "length mem = RELAY_BUF"
        "b_end st ?fd \<le> RELAY_BUF" by (auto simp: conn_wf_def split: option.splits)
      from p mem(1) have tk: "take (b_end st ?fd) mem = entry_bytes e @ ?rest" by (simp add: pending_def)
      from take_eq_append [OF tk] obtain t where m: "mem = entry_bytes e @ ?rest @ t" by auto
      have bl: "length (entry_bytes e) \<le> b_end st ?fd"
        using arg_cong [OF tk, of length] mem(2,3) by simp
      have t2: "thaw2 (drop 32 mem) (th_fz e) (frozen_size (th_fz e) - 32) = Inr e"
        unfolding m using thaw2_entry_bytes [OF wf(1), of "?rest @ t"] length_entry_bounds [OF wf(1)] by simp
      show ?thesis
        using bl mem(1) 1 thaw1_entry_bytes [OF wf(1), of "?rest @ t"] t2 length_entry_bounds [OF wf(1)]
        by (subst transfer_out_loop.simps)
           (simp add: Let_def size_conversions [OF wf(1)] sizeof_frozen_def freeze_apply [OF wf(1)]
             write_entry_def m)
    qed
    with 1 show ?thesis by simp
  next
    case (2 r ws)
    let ?e = "entry_bytes (apply_timediff ?td e)"
    from transfer_out_loop_entry [OF Cons.prems(1) p wf(1) Cons.prems(3) 2] obtain m where
      m: "transfer_out_loop st = transfer_out_loop (drained ?fd ?e 1 m (length ?rest) st)"
        "length m = RELAY_BUF" "take (length ?rest) m = ?rest" by auto
    let ?st1 = "drained ?fd ?e 1 m (length ?rest) st"
    have inv: "conn_wf (infd ?st1) ?st1" "pending (infd ?st1) ?st1 = ?rest"
      using drained_conn [OF m(2,3) refl] by simp_all
    from Cons.IH [OF inv(1) _ _ wf(2) Cons.prems(5) inv(2)] Cons.prems(2,3)
    show ?thesis unfolding m(1)
      by (simp add: 2 drained_drained relayed_bytes_def)
  qed
qed

section \<open>The stream of one client\<close>

lemma torn_Nil: "torn []"
  unfolding torn_def using sample_entry_wf length_entry_bounds [OF sample_entry_wf]
  by (intro exI [of _ sample_entry] exI [of _ 0]) auto

lemma length_torn: "torn b \<Longrightarrow> length b < max_entry"
  using length_entry_bounds by (fastforce simp: torn_def)

text \<open>No entry but the torn one is left: the bytes of a whole one would be longer.\<close>

lemma torn_whole:
  assumes "torn b" and "b = concat (map entry_bytes S)" and "list_all wf_thaw S"
  shows "S = []"
proof (rule ccontr)
  assume "S \<noteq> []"
  then obtain e T where S: "S = e # T" by (cases S) auto
  from assms(1) obtain e' k where e': "wf_thaw e'" "k < length (entry_bytes e')" "b = take k (entry_bytes e')"
    by (auto simp: torn_def)
  have wf: "wf_thaw e" using assms(3) S by simp
  have "32 \<le> k" using arg_cong [OF assms(2), of length] e'(2,3) S length_entry_bounds [OF wf] by simp
  then have "take 32 (entry_bytes e') = take 32 b" using e'(3) by (simp add: min_def)
  also have "\<dots> = take 32 (entry_bytes e)" using assms(2) S length_entry_bounds [OF wf] by simp
  finally have "take 32 (entry_bytes e') = take 32 (entry_bytes e)" .
  moreover have "thaw1 (entry_bytes e') = Inr (th_fz e')" "thaw1 (entry_bytes e) = Inr (th_fz e)"
    using thaw1_entry_bytes [OF e'(1), of "[]"] thaw1_entry_bytes [OF wf, of "[]"] by simp_all
  ultimately have "th_fz e' = th_fz e"
    using length_entry_bounds [OF wf] length_entry_bounds [OF e'(1)] by (simp add: thaw1_def sizeof_frozen_def)
  then have "length (entry_bytes e') = length (entry_bytes e)"
    using length_entry_bytes [OF e'(1)] length_entry_bytes [OF wf] by simp
  then show False using assms(2) S e'(2,3)
    by (metis concat.simps(2) length_append length_take list.simps(9) min.absorb4 not_add_less1)
qed

text \<open>
  What a relay buffer may still hold after a round: a torn entry, or no more bytes than a header has, for
  \<^verbatim>\<open>transfer_in\<close> calls \<^verbatim>\<open>transfer_out\<close> only when there are more.
\<close>

definition settled :: "string \<Rightarrow> bool" where
  "settled b \<longleftrightarrow> torn b \<or> length b \<le> sizeof_frozen"

lemma settled_Nil [simp]: "settled []"
  by (simp add: settled_def)

lemma length_settled: "settled b \<Longrightarrow> length b \<le> max_entry"
  using less_imp_le [OF length_torn [of b]] by (auto simp: settled_def sizeof_frozen_def max_entry_def)

lemma settled_whole:
  assumes "settled b" and "b = concat (map entry_bytes S)" and "list_all wf_thaw S"
  shows "S = [] \<or> (\<exists>e. S = [e] \<and> length (entry_bytes e) = sizeof_frozen)"
proof (cases "torn b")
  case True
  then show ?thesis using torn_whole assms(2,3) by blast
next
  case False
  then have l: "length (concat (map entry_bytes S)) \<le> 32" using assms(1,2) by (simp add: settled_def sizeof_frozen_def)
  show ?thesis
  proof (cases S)
    case (Cons e T)
    then have e: "32 \<le> length (entry_bytes e)" using length_entry_bounds assms(3) by simp
    have "T = []" using l e Cons length_entry_bounds assms(3) by (cases T) fastforce+
    then show ?thesis using l e Cons by (simp add: sizeof_frozen_def)
  qed simp
qed

text \<open>What has arrived of a stream of entries is some whole entries and a torn one.\<close>

lemma stream_prefix:
  assumes "list_all wf_thaw S" and "a @ b = concat (map entry_bytes S)"
  shows "\<exists>es S' rest. S = es @ S' \<and> a = concat (map entry_bytes es) @ rest \<and> torn rest \<and>
           rest @ b = concat (map entry_bytes S')"
  using assms
proof (induction S arbitrary: a)
  case Nil
  then show ?case by (auto simp: torn_Nil)
next
  case (Cons e S)
  show ?case
  proof (cases "length (entry_bytes e) \<le> length a")
    case True
    with Cons.prems(2) obtain a' where a: "a = entry_bytes e @ a'"
      by (metis append_eq_append_conv_if concat.simps(2) list.simps(9) append_take_drop_id)
    with Cons.prems have "a' @ b = concat (map entry_bytes S)" by simp
    from Cons.IH [OF _ this] Cons.prems(1) obtain es S' rest where
      "S = es @ S'" "a' = concat (map entry_bytes es) @ rest" "torn rest" "rest @ b = concat (map entry_bytes S')"
      by auto
    with a show ?thesis by (intro exI [of _ "e # es"] exI [of _ S'] exI [of _ rest]) simp
  next
    case False
    then have "a = take (length a) (entry_bytes e)"
      using Cons.prems(2) by (metis append_eq_append_conv_if concat.simps(2) linorder_linear list.simps(9))
    moreover have "wf_thaw e" "length a < length (entry_bytes e)" using False Cons.prems(1) by simp_all
    ultimately have "torn a" unfolding torn_def by blast
    with Cons.prems(2) show ?thesis by (intro exI [of _ "[]"] exI [of _ "e # S"] exI [of _ a]) simp
  qed
qed

text \<open>
  The daemon takes a zero difference for an unrecorded one; \<open>clock_apart\<close> says no entry of the
  stream carries exactly the time at which the daemon reads its own clock.
\<close>

definition clock_apart :: "logd \<Rightarrow> logentry_thaw list \<Rightarrow> bool" where
  "clock_apart st S \<longleftrightarrow> (\<forall>n. \<forall>e \<in> set S. timerisset (timersub (lg_clock st n) (remote_time (th_fz e))))"

lemma thaw1_stream_head:
  assumes "list_all wf_thaw S" and "a @ b = concat (map entry_bytes S)" and "32 \<le> length a" and "take (length a) mem = a"
  shows "S \<noteq> [] \<and> thaw1 mem = Inr (th_fz (hd S))"
proof -
  from assms(2,3) obtain e S' where S: "S = e # S'" by (cases S) auto
  then have wf: "wf_thaw e" using assms(1) by simp
  have "take 32 mem = take 32 a" using assms(3,4) by (metis min.absorb1 take_take)
  also have "\<dots> = take 32 (a @ b)" using assms(3) by simp
  also have "\<dots> = take 32 (entry_bytes e)" unfolding assms(2) S using length_entry_bounds [OF wf] by simp
  finally have "take 32 mem = frozen_bytes (th_fz e)" "length (fz_padding (th_fz e)) = 4"
    using wf by (simp_all add: entry_bytes_def length_frozen_bytes wf_thaw_def wf_frozen_def Let_def)
  moreover have "32 \<le> length mem" using assms(3,4) by (metis length_take min.boundedE)
  ultimately show ?thesis
    by (simp add: S thaw1_def sizeof_frozen_def frozen_of_bytes_frozen_bytes)
qed

lemma transfer_out_loop_ensure:
  assumes "relay st (infd st) = Some mem" and "32 \<le> b_end st (infd st)" and "thaw1 mem = Inr fz"
    and "timerisset (timediff (ensure_timediff fz st) (infd st))"
  shows "transfer_out_loop st = transfer_out_loop (ensure_timediff fz st)"
proof -
  have "ensure_timediff fz (ensure_timediff fz st) = ensure_timediff fz st"
    using assms(4) by (simp add: ensure_timediff_def [of fz "ensure_timediff fz st"])
  then show ?thesis
    using assms by (simp add: transfer_out_loop.simps [of st] transfer_out_loop.simps [of "ensure_timediff fz st"]
        sizeof_frozen_def Let_def)
qed

lemma ensure_timediff_eq:
  assumes "infd st \<noteq> - 1"
  shows "\<exists>td n. ensure_timediff fz st = st\<lparr>timediff := (timediff st)(infd st := td), lg_ticks := n\<rparr> \<and>
     (if timerisset (timediff st (infd st)) then td = timediff st (infd st)
      else td = timersub (lg_clock st (lg_ticks st)) (remote_time fz))"
proof (cases "timerisset (timediff st (infd st))")
  case True
  then show ?thesis
    by (intro exI [of _ "timediff st (infd st)"] exI [of _ "lg_ticks st"]) (simp add: ensure_timediff_def)
next
  case False
  with assms show ?thesis
    by (intro exI [of _ "timersub (lg_clock st (lg_ticks st)) (remote_time fz)"] exI [of _ "lg_ticks st + 1"])
       (simp add: ensure_timediff_def record_timediff_def Let_def)
qed

text \<open>
  \<open>sent fd td es rest st st'\<close>: the state \<open>st'\<close> differs from \<open>st\<close> in that the entries \<open>es\<close> of the
  client \<open>fd\<close> have been written with the difference \<open>td\<close>, \<open>rest\<close> is left in its buffer, and a
  difference once recorded is kept.
\<close>

definition sent :: "int \<Rightarrow> timeval \<Rightarrow> logentry_thaw list \<Rightarrow> string \<Rightarrow> logd \<Rightarrow> logd \<Rightarrow> bool" where
  "sent fd td es rest st st' \<longleftrightarrow>
     (\<exists>m n. st' = drained fd (relayed_bytes td es) (length es) m (length rest)
                 (st\<lparr>timediff := (timediff st)(fd := td), lg_ticks := n\<rparr>) \<and>
            length m = RELAY_BUF \<and> take (length rest) m = rest) \<and>
     (timerisset (timediff st fd) \<longrightarrow> td = timediff st fd) \<and>
     (es \<noteq> [] \<longrightarrow> timerisset td \<and>
        (timerisset (timediff st fd) \<or> td = timersub (lg_clock st (lg_ticks st)) (remote_time (th_fz (hd es)))))"

lemma sentI:
  assumes "st' = drained fd (relayed_bytes td es) (length es) m (length rest)
                 (st\<lparr>timediff := (timediff st)(fd := td), lg_ticks := n\<rparr>)"
    and "length m = RELAY_BUF" and "take (length rest) m = rest"
    and "timerisset (timediff st fd) \<Longrightarrow> td = timediff st fd" and "es \<noteq> [] \<Longrightarrow> timerisset td"
    and "es \<noteq> [] \<Longrightarrow> \<not> timerisset (timediff st fd) \<Longrightarrow>
           td = timersub (lg_clock st (lg_ticks st)) (remote_time (th_fz (hd es)))"
  shows "sent fd td es rest st st'"
  using assms by (auto simp: sent_def)

lemma sent_none:
  assumes "conn_wf fd st"
  shows "sent fd (timediff st fd) [] (pending fd st) st st"
proof -
  from drained_self [OF assms] obtain m where
    m: "st = drained fd [] 0 m (length (pending fd st)) st" "length m = RELAY_BUF"
      "take (length (pending fd st)) m = pending fd st" .
  have "st\<lparr>timediff := (timediff st)(fd := timediff st fd), lg_ticks := lg_ticks st\<rparr> = st" by simp
  then show ?thesis
    using m by (intro sentI [where m = m and n = "lg_ticks st"]) (simp_all add: relayed_bytes_def)
qed

lemma sent_facts:
  assumes "sent fd td es rest st st'"
  shows "conn_wf fd st'" and "pending fd st' = rest"
    and "lg_out st' = lg_out st @ relayed_bytes td es" and "timediff st' = (timediff st)(fd := td)"
    and "full_writes st \<Longrightarrow> full_writes st'" and "outfd st' = outfd st" and "infd st' = infd st"
    and "lg_reads st' = lg_reads st" and "lg_clock st' = lg_clock st"
    and "fd' \<noteq> fd \<Longrightarrow> relay st' fd' = relay st fd' \<and> b_end st' fd' = b_end st fd' \<and> avail st' fd' = avail st fd'"
    and "timerisset (timediff st fd) \<Longrightarrow> td = timediff st fd" and "es \<noteq> [] \<Longrightarrow> timerisset td"
    and "es \<noteq> [] \<Longrightarrow> \<not> timerisset (timediff st fd) \<Longrightarrow>
           td = timersub (lg_clock st (lg_ticks st)) (remote_time (th_fz (hd es)))"
proof -
  from assms obtain m n where
    st': "st' = drained fd (relayed_bytes td es) (length es) m (length rest)
                 (st\<lparr>timediff := (timediff st)(fd := td), lg_ticks := n\<rparr>)"
    and m: "length m = RELAY_BUF" "take (length rest) m = rest"
    by (auto simp: sent_def)
  show "conn_wf fd st'" "pending fd st' = rest" using drained_conn [OF m refl] by (simp_all add: st')
  show "lg_out st' = lg_out st @ relayed_bytes td es" "timediff st' = (timediff st)(fd := td)"
    "outfd st' = outfd st" "infd st' = infd st" "lg_reads st' = lg_reads st" "lg_clock st' = lg_clock st"
    by (simp_all add: st' drained_def)
  show "full_writes st'" if "full_writes st"
    unfolding st' by (rule full_writes_drop) (use that in \<open>simp add: full_writes_def\<close>)
  show "relay st' fd' = relay st fd' \<and> b_end st' fd' = b_end st fd' \<and> avail st' fd' = avail st fd'" if "fd' \<noteq> fd"
    using that by (simp add: st')
qed (use assms in \<open>auto simp: sent_def\<close>)

lemma transfer_out_stream:
  assumes "conn_wf (infd st) st" and "infd st \<noteq> - 1" and "0 \<le> outfd st" and "full_writes st"
    and "list_all wf_thaw S" and "pending (infd st) st @ b = concat (map entry_bytes S)" and "clock_apart st S"
  shows "transfer_out st = Inl Blocked \<and> length (lg_writes st) < length S \<or>
     (\<exists>es S' rest td st'. S = es @ S' \<and> torn rest \<and> rest @ b = concat (map entry_bytes S') \<and>
        transfer_out st = Inr st' \<and> sent (infd st) td es rest st st')"
proof -
  let ?fd = "infd st" and ?a = "pending (infd st) st"
  from assms(1) obtain mem where mem: "relay st ?fd = Some mem" "length mem = RELAY_BUF"
    "b_end st ?fd \<le> RELAY_BUF" by (auto simp: conn_wf_def split: option.splits)
  have a: "?a = take (b_end st ?fd) mem" "length ?a = b_end st ?fd" using mem by (simp_all add: pending_def)
  have out: "transfer_out st = transfer_out_loop st" using mem(1) assms(3) by (simp add: transfer_out_def)
  from stream_prefix [OF assms(5,6)] obtain es S' rest where
    S: "S = es @ S'" "?a = concat (map entry_bytes es) @ rest" "torn rest" "rest @ b = concat (map entry_bytes S')"
    by auto
  show ?thesis
  proof (cases "32 \<le> length ?a")
    case False
    then have "transfer_out_loop st = Inr st"
      using a(2) by (subst transfer_out_loop.simps) (simp add: sizeof_frozen_def)
    moreover have "es = []" using False S(1,2) assms(5) length_entry_bounds by (cases es) fastforce+
    moreover have "sent ?fd (timediff st ?fd) [] rest st st"
      using sent_none [OF assms(1)] S(2) \<open>es = []\<close> by simp
    ultimately show ?thesis using S out by auto
  next
    case True
    from thaw1_stream_head [OF assms(5,6) True] a have hd: "S \<noteq> []" "thaw1 mem = Inr (th_fz (hd S))" by simp_all
    let ?fz = "th_fz (hd S)"
    let ?st = "ensure_timediff ?fz st"
    from ensure_timediff_eq [OF assms(2)] obtain td n where
      st1: "?st = st\<lparr>timediff := (timediff st)(?fd := td), lg_ticks := n\<rparr>"
      and td: "if timerisset (timediff st ?fd) then td = timediff st ?fd
               else td = timersub (lg_clock st (lg_ticks st)) (remote_time ?fz)" by blast
    have set: "timerisset td"
      using td assms(7) hd(1) by (auto simp: clock_apart_def split: if_splits)
    have eq: "transfer_out_loop st = transfer_out_loop ?st"
      by (rule transfer_out_loop_ensure [OF mem(1) _ hd(2)]) (use True a(2) set st1 in simp_all)
    have inv: "conn_wf (infd ?st) ?st" "full_writes ?st" "timerisset (timediff ?st (infd ?st))"
      "pending (infd ?st) ?st = concat (map entry_bytes es) @ rest"
      unfolding st1 using assms(1,4) S(2) set
      by (simp_all add: conn_wf_def full_writes_def pending_def cong: option.case_cong)
    have "list_all wf_thaw es" using assms(5) S(1) by simp
    from transfer_out_loop_entries [OF inv(1,2,3) this S(3) inv(4)]
    show ?thesis
    proof
      assume "transfer_out_loop ?st = Inl Blocked \<and> length (lg_writes ?st) < length es"
      then show ?thesis using out eq S(1) by simp
    next
      assume "\<exists>m. transfer_out_loop ?st = Inr (drained (infd ?st) (relayed_bytes (timediff ?st (infd ?st)) es)
          (length es) m (length rest) ?st) \<and> length m = RELAY_BUF \<and> take (length rest) m = rest"
      then obtain m where m: "transfer_out_loop ?st = Inr (drained ?fd (relayed_bytes td es) (length es) m (length rest) ?st)"
        "length m = RELAY_BUF" "take (length rest) m = rest" by (auto simp: st1)
      have head: "es \<noteq> [] \<Longrightarrow> hd S = hd es" by (simp add: S(1))
      have "sent ?fd td es rest st (drained ?fd (relayed_bytes td es) (length es) m (length rest) ?st)"
        by (rule sentI [where m = m and n = n]) (use m td set head in \<open>auto simp: st1\<close>)
      then show ?thesis using S out eq m(1) by auto
    qed
  qed
qed

text \<open>
  \<open>client S fd st\<close>: the entries \<open>S\<close> are what the client on \<open>fd\<close> still has to deliver, in the relay
  buffer and on its way; nothing when the client is gone.
\<close>

definition client :: "logentry_thaw list \<Rightarrow> int \<Rightarrow> logd \<Rightarrow> bool" where
  "client S fd st \<longleftrightarrow> list_all wf_thaw S \<and> clock_apart st S \<and>
     (relay st fd = None \<and> S = [] \<or>
      conn_wf fd st \<and> settled (pending fd st) \<and>
      pending fd st @ upcoming False (lg_reads st fd) = concat (map entry_bytes S))"

text \<open>
  \<open>relayed_whole S st\<close>: of every client whose stream has been read to its end all entries have been relayed,
  except that a last one of exactly the size of a header waits for the end of a connection that is still open.
\<close>

definition relayed_whole :: "(int \<Rightarrow> logentry_thaw list) \<Rightarrow> logd \<Rightarrow> bool" where
  "relayed_whole S st \<longleftrightarrow>
     (\<forall>c. upcoming False (lg_reads st c) = [] \<longrightarrow>
        S c = [] \<or> relay st c \<noteq> None \<and> (\<exists>e. S c = [e] \<and> length (entry_bytes e) = sizeof_frozen))"

lemma clients_relayed_whole:
  assumes "\<forall>c. client (S c) c st"
  shows "relayed_whole S st"
  unfolding relayed_whole_def
proof (intro allI impI)
  fix c
  assume "upcoming False (lg_reads st c) = []"
  with assms have "list_all wf_thaw (S c)" "relay st c = None \<and> S c = [] \<or>
      conn_wf c st \<and> settled (pending c st) \<and> pending c st = concat (map entry_bytes (S c))"
    unfolding client_def by (metis append_Nil2)+
  then show "S c = [] \<or> relay st c \<noteq> None \<and> (\<exists>e. S c = [e] \<and> length (entry_bytes e) = sizeof_frozen)"
    using settled_whole [of "pending c st" "S c"] by (cases "relay st c") (auto simp: conn_wf_def)
qed

text \<open>What a step on \<open>fd\<close> leaves alone.\<close>

definition others_same :: "int \<Rightarrow> logd \<Rightarrow> logd \<Rightarrow> bool" where
  "others_same fd st st' \<longleftrightarrow>
     (\<forall>fd'. fd' \<noteq> fd \<longrightarrow> relay st' fd' = relay st fd' \<and> b_end st' fd' = b_end st fd' \<and>
        avail st' fd' = avail st fd' \<and> timediff st' fd' = timediff st fd' \<and> lg_reads st' fd' = lg_reads st fd') \<and>
     lg_clock st' = lg_clock st \<and> outfd st' = outfd st"

lemma client_others: "client S fd' st \<Longrightarrow> others_same fd st st' \<Longrightarrow> fd' \<noteq> fd \<Longrightarrow> client S fd' st'"
  by (simp add: client_def others_same_def conn_wf_def pending_def clock_apart_def cong: option.case_cong)

definition step_ok :: "int \<Rightarrow> logentry_thaw list \<Rightarrow> logd \<Rightarrow> logd \<Rightarrow> bool" where
  "step_ok fd S st st' \<longleftrightarrow>
     (\<exists>es S' td. S = es @ S' \<and> client S' fd st' \<and> lg_out st' = lg_out st @ relayed_bytes td es \<and>
        timediff st' fd = td \<and> (timerisset (timediff st fd) \<longrightarrow> td = timediff st fd) \<and> (es \<noteq> [] \<longrightarrow> timerisset td)) \<and>
     others_same fd st st' \<and> full_writes st'"

lemma upcoming_take_arrived:
  "b \<noteq> [] \<Longrightarrow> upcoming False (RdBytes b # script) = take n b @ upcoming False (take_arrived n b script)"
proof -
  assume b: "b \<noteq> []"
  have "upcoming False (RdBytes c # script) = c @ upcoming False script" if "c \<noteq> []" for c
    using that by (cases c) auto
  with b show ?thesis by (auto simp: take_arrived_def)
qed

text \<open>A client that ends its stream, or fails: the entries still pending go out and the buffer goes.\<close>

lemma disconnect_ok:
  assumes "conn_wf fd st" and "0 \<le> fd" and "0 \<le> outfd st" and "full_writes st" and "infd st = fd"
    and "list_all wf_thaw S" and "clock_apart st S" and "pending fd st = concat (map entry_bytes S)"
  shows "transfer_out st = Inl Blocked \<and> length (lg_writes st) < length S \<or>
     (\<exists>st'. transfer_out st = Inr st' \<and> step_ok fd S st (st'\<lparr>relay := (relay st')(fd := None), infd := - 1\<rparr>))"
proof -
  have "infd st \<noteq> - 1" "pending (infd st) st @ [] = concat (map entry_bytes S)" using assms by simp_all
  from transfer_out_stream [OF assms(1) [folded assms(5)] this(1) assms(3,4,6) this(2) assms(7)]
  show ?thesis
  proof
    assume "\<exists>es S' rest td st'. S = es @ S' \<and> torn rest \<and> rest @ [] = concat (map entry_bytes S') \<and>
        transfer_out st = Inr st' \<and> sent (infd st) td es rest st st'"
    then obtain es S' rest td st' where *: "S = es @ S'" "torn rest" "rest = concat (map entry_bytes S')"
      "transfer_out st = Inr st'" and sn: "sent fd td es rest st st'" using assms(5) by auto
    have "S' = []" by (rule torn_whole [OF *(2,3)]) (use assms(6) *(1) in simp)
    note f = sent_facts [OF sn]
    have "client [] fd (st'\<lparr>relay := (relay st')(fd := None), infd := - 1\<rparr>)"
      by (simp add: client_def clock_apart_def)
    moreover have "others_same fd st (st'\<lparr>relay := (relay st')(fd := None), infd := - 1\<rparr>)"
      using f(4,6,8,9,10) by (simp add: others_same_def)
    ultimately show ?thesis
      using *(1,4) \<open>S' = []\<close> f(3,4,5,11,12) assms(4) by (auto simp: step_ok_def full_writes_def)
  qed simp
qed

lemma conn_frame [simp]:
  "pending fd (st\<lparr>infd := x0\<rparr>) = pending fd st" "conn_wf fd (st\<lparr>infd := x0\<rparr>) = conn_wf fd st"
  "pending fd (st\<lparr>lg_reads := x1\<rparr>) = pending fd st" "conn_wf fd (st\<lparr>lg_reads := x1\<rparr>) = conn_wf fd st"
  "pending fd (st\<lparr>lg_closed := x2\<rparr>) = pending fd st" "conn_wf fd (st\<lparr>lg_closed := x2\<rparr>) = conn_wf fd st"
  "pending fd (st\<lparr>active_fd_set := x3\<rparr>) = pending fd st" "conn_wf fd (st\<lparr>active_fd_set := x3\<rparr>) = conn_wf fd st"
  "pending fd (st\<lparr>nfds := x4\<rparr>) = pending fd st" "conn_wf fd (st\<lparr>nfds := x4\<rparr>) = conn_wf fd st"
  by (simp_all add: pending_def conn_wf_def cong: option.case_cong)

lemma step_ok_prepare:
  assumes "step_ok fd S st2 st'" and "lg_out st2 = lg_out st" and "timediff st2 = timediff st" and "others_same fd st st2"
  shows "step_ok fd S st st'"
  using assms by (auto simp: step_ok_def others_same_def)

text \<open>New bytes behind the pending ones.\<close>

lemma arrival:
  fixes script :: "rdret list"
  assumes "conn_wf fd st" and "length got \<le> avail st fd" and "relay st fd = Some mem"
  defines "st2 \<equiv> st\<lparr>infd := fd, lg_reads := (lg_reads st)(fd := script), relay := (relay st)(fd := Some (poke mem (b_end st fd) got)),
      avail := (avail st)(fd := avail st fd - length got), b_end := (b_end st)(fd := b_end st fd + length got)\<rparr>"
  shows "conn_wf fd st2" and "pending fd st2 = pending fd st @ got" and "\<not> length mem < b_end st fd + length got"
proof -
  have l: "length mem = RELAY_BUF" "b_end st fd + avail st fd = RELAY_BUF"
    using assms(1,3) by (simp_all add: conn_wf_def)
  then have le: "b_end st fd + length got \<le> length mem" using assms(2) by simp
  show "conn_wf fd st2" using l le assms(2) by (simp add: conn_wf_def st2_def)
  show "pending fd st2 = pending fd st @ got"
    using le by (simp add: pending_def st2_def assms(3) take_add_peek mem_simps)
  show "\<not> length mem < b_end st fd + length got" using le by simp
qed

lemma logd_data_arrival:
  assumes "client S fd st" and "conn_wf fd st" and "0 \<le> fd" and "0 \<le> outfd st" and "full_writes st"
    and "lg_reads st fd = RdBytes b # script" and "b \<noteq> []"
  shows "logd_data fd st = Inl Blocked \<and> (lg_reads st fd = [] \<or> length (lg_writes st) < length S) \<or>
     (\<exists>st'. logd_data fd st = Inr st' \<and> step_ok fd S st st')"
proof -
  from assms(1,2) have c: "list_all wf_thaw S" "clock_apart st S" "settled (pending fd st)"
    "pending fd st @ upcoming False (lg_reads st fd) = concat (map entry_bytes S)"
    by (auto simp: client_def conn_wf_def)
  from assms(2) obtain mem where mem: "relay st fd = Some mem" "length mem = RELAY_BUF"
    "b_end st fd + avail st fd = RELAY_BUF" by (auto simp: conn_wf_def split: option.splits)
  have "avail st fd \<noteq> 0" using length_settled [OF c(3)] mem by (auto simp: pending_def max_entry_def RELAY_BUF_def)
  define got where "got = take (avail st fd) b"
  let ?script = "take_arrived (avail st fd) b script"
  have got: "got \<noteq> []" using assms(7) \<open>avail st fd \<noteq> 0\<close> by (simp add: got_def)
  let ?st2 = "st\<lparr>infd := fd, lg_reads := (lg_reads st)(fd := ?script),
      relay := (relay st)(fd := Some (poke mem (b_end st fd) got)),
      avail := (avail st)(fd := avail st fd - length got), b_end := (b_end st)(fd := b_end st fd + length got)\<rparr>"
  have le: "length got \<le> avail st fd" by (simp add: got_def)
  note ar = arrival(1,2) [OF assms(2) le mem(1), where script = ?script] arrival(3) [OF assms(2) le mem(1)]
  have inv: "conn_wf (infd ?st2) ?st2" "infd ?st2 \<noteq> - 1" "0 \<le> outfd ?st2" "full_writes ?st2" "clock_apart ?st2 S"
    "pending (infd ?st2) ?st2 @ upcoming False ?script = concat (map entry_bytes S)"
    using ar(1,2) assms(3-5) c(2) c(4) [unfolded assms(6) upcoming_take_arrived [OF assms(7), of script "avail st fd"], folded got_def]
    by (simp_all add: full_writes_def clock_apart_def)
  have os: "others_same fd st ?st2" by (simp add: others_same_def)
  let ?r = "if sizeof_frozen < b_end ?st2 fd then transfer_out ?st2 else Inr ?st2"
  have data: "logd_data fd st = rbind ?r (\<lambda>st3. Inr (st3\<lparr>infd := - 1\<rparr>))"
  proof -
    have "transfer_in (st\<lparr>infd := fd\<rparr>) = rbind ?r (\<lambda>st3. Inr (int (length got), st3))"
      using mem(1) assms(3,6) ar(3) got by (simp add: transfer_in_def Let_def got_def [symmetric])
    moreover have "0 < length got" using got by simp
    ultimately show ?thesis by (cases ?r) (simp_all add: logd_data_def)
  qed
  have fin: "step_ok fd S st (st3\<lparr>infd := - 1\<rparr>)"
    if "sent fd td es rest ?st2 st3" "S = es @ S'" "settled rest"
      "rest @ upcoming False ?script = concat (map entry_bytes S')" for td es rest S' st3
  proof (rule step_ok_prepare [OF _ _ _ os])
    note f = sent_facts [OF that(1)]
    have "client S' fd (st3\<lparr>infd := - 1\<rparr>)"
      using f(1,2,8,9) that(2-4) c(1,2) by (auto simp: client_def clock_apart_def)
    moreover have "others_same fd ?st2 (st3\<lparr>infd := - 1\<rparr>)" using f(4,6,8,9,10) by (simp add: others_same_def)
    ultimately show "step_ok fd S ?st2 (st3\<lparr>infd := - 1\<rparr>)"
      using f(3,4,5,11,12) that(2) inv(4) by (auto simp: step_ok_def full_writes_def)
  qed simp_all
  show ?thesis
  proof (cases "sizeof_frozen < b_end ?st2 fd")
    case False
    then have l: "settled (pending fd ?st2)"
      using mem ar(1) by (simp add: settled_def pending_def sizeof_frozen_def conn_wf_def)
    have "step_ok fd S st (?st2\<lparr>infd := - 1\<rparr>)"
      by (rule fin [OF sent_none [of fd ?st2], where S' = S]) (use inv(1,6) l in simp_all)
    then show ?thesis unfolding data using False by simp
  next
    case True
    from transfer_out_stream [OF inv(1-4) c(1) inv(6,5)]
    show ?thesis
    proof
      assume "\<exists>es S' rest td st'. S = es @ S' \<and> torn rest \<and> rest @ upcoming False ?script = concat (map entry_bytes S') \<and>
        transfer_out ?st2 = Inr st' \<and> sent (infd ?st2) td es rest ?st2 st'"
      then obtain es S' rest td st' where
        *: "S = es @ S'" "torn rest" "rest @ upcoming False ?script = concat (map entry_bytes S')"
          "transfer_out ?st2 = Inr st'" and sn: "sent fd td es rest ?st2 st'" by auto
      have "step_ok fd S st (st'\<lparr>infd := - 1\<rparr>)"
        by (rule fin [OF sn *(1) _ *(3)]) (use *(2) in \<open>simp add: settled_def\<close>)
      then show ?thesis unfolding data using True *(4) by simp
    qed (use True in \<open>simp add: data\<close>)
  qed
qed

lemma logd_data_step:
  assumes "client S fd st" and "0 \<le> fd" and "0 \<le> outfd st" and "full_writes st"
  shows "logd_data fd st = Inl Blocked \<and> (lg_reads st fd = [] \<or> length (lg_writes st) < length S) \<or>
     (\<exists>st'. logd_data fd st = Inr st' \<and> step_ok fd S st st')"
proof -
  let ?cl = "\<lambda>st1. st1\<lparr>lg_closed := lg_closed st1 @ [fd], active_fd_set := FD_CLR fd (active_fd_set st1),
                     nfds := (if fd = nfds st1 then nfds st1 - 1 else nfds st1)\<rparr>"
  have gone: ?thesis
    if "transfer_in (st\<lparr>infd := fd\<rparr>) = Inr (r, st\<lparr>infd := fd, lg_reads := (lg_reads st)(fd := script)\<rparr>)" "r \<le> 0"
      "conn_wf fd st" "pending fd st = concat (map entry_bytes S)" for r script
  proof -
    let ?st2 = "?cl (st\<lparr>infd := fd, lg_reads := (lg_reads st)(fd := script)\<rparr>)"
    have os: "others_same fd st ?st2" by (simp add: others_same_def)
    have *: "conn_wf fd ?st2" "0 \<le> outfd ?st2" "full_writes ?st2" "infd ?st2 = fd" "list_all wf_thaw S"
      "clock_apart ?st2 S" "pending fd ?st2 = concat (map entry_bytes S)"
      using that assms by (simp_all add: full_writes_def client_def clock_apart_def)
    have data: "logd_data fd st = rbind (rbind (transfer_out ?st2) (\<lambda>st2. Inr (st2\<lparr>relay := (relay st2)(fd := None)\<rparr>)))
        (\<lambda>st3. Inr (st3\<lparr>infd := - 1\<rparr>))"
      using that(1,2) by (simp add: logd_data_def)
    from disconnect_ok [OF *(1) assms(2) *(2-7)] show ?thesis
    proof (elim disjE exE conjE)
      fix st' assume t: "transfer_out ?st2 = Inr st'"
        and ok: "step_ok fd S ?st2 (st'\<lparr>relay := (relay st')(fd := None), infd := - 1\<rparr>)"
      from step_ok_prepare [OF ok _ _ os]
      have "step_ok fd S st (st'\<lparr>relay := (relay st')(fd := None), infd := - 1\<rparr>)" by simp
      then show ?thesis unfolding data t by simp
    qed (simp add: data)
  qed
  show ?thesis
  proof (cases "relay st fd")
    case None
    then have S: "S = []" using assms(1) by (simp add: client_def conn_wf_def)
    have ti: "transfer_in (st\<lparr>infd := fd\<rparr>) = Inr (- 1, st\<lparr>infd := fd\<rparr>)"
      using None assms(2) by (simp add: transfer_in_def)
    define st' where "st' = (?cl (st\<lparr>infd := fd\<rparr>))\<lparr>relay := (relay st)(fd := None), infd := - 1\<rparr>"
    have "logd_data fd st = Inr st'" by (simp add: logd_data_def ti transfer_out_def None st'_def)
    moreover have "others_same fd st st'" "client [] fd st'" "full_writes st'"
      using assms(4) by (simp_all add: others_same_def client_def clock_apart_def full_writes_def st'_def)
    ultimately show ?thesis using S by (auto simp: step_ok_def relayed_bytes_def st'_def)
  next
    case (Some mem)
    then have c: "conn_wf fd st" "pending fd st @ upcoming False (lg_reads st fd) = concat (map entry_bytes S)"
      using assms(1) by (simp_all add: client_def)
    show ?thesis
    proof (cases "lg_reads st fd")
      case Nil
      then show ?thesis using Some assms(2) by (simp add: logd_data_def transfer_in_def)
    next
      case (Cons r script)
      show ?thesis
      proof (cases r)
        case RdErr
        then show ?thesis
          using Some assms(2) Cons c by (intro gone [of "- 1" script]) (simp_all add: transfer_in_def)
      next
        case (RdBytes b)
        show ?thesis
        proof (cases "b = []")
          case True
          then show ?thesis using Some assms(2) Cons RdBytes c
            by (intro gone [of 0 script]) (simp_all add: transfer_in_def take_arrived_def Let_def)
        next
          case False
          then show ?thesis using logd_data_arrival [OF assms(1) c(1) assms(2-4)] Cons RdBytes by simp
        qed
      qed
    qed
  qed
qed

section \<open>Many clients\<close>

text \<open>
  \<open>interleaves L S S'\<close>: the log \<open>L\<close> of tagged entries contains, for every client, exactly the
  entries by which its list \<open>S'\<close> of remaining entries is shorter than \<open>S\<close>, in order.
\<close>

definition interleaves ::
  "(int \<times> logentry_thaw) list \<Rightarrow> (int \<Rightarrow> logentry_thaw list) \<Rightarrow> (int \<Rightarrow> logentry_thaw list) \<Rightarrow> bool" where
  "interleaves L S S' \<longleftrightarrow> (\<forall>c. S c = map snd (filter (\<lambda>ce. fst ce = c) L) @ S' c)"

definition tagged_bytes :: "(int \<Rightarrow> timeval) \<Rightarrow> (int \<times> logentry_thaw) list \<Rightarrow> string" where
  "tagged_bytes td L = concat (map (\<lambda>ce. entry_bytes (apply_timediff (td (fst ce)) (snd ce))) L)"

lemma tagged_bytes_append: "tagged_bytes td (L @ L') = tagged_bytes td L @ tagged_bytes td L'"
  by (simp add: tagged_bytes_def)

lemma tagged_bytes_one: "tagged_bytes td (map (Pair c) es) = relayed_bytes (td c) es"
  by (induction es) (auto simp: tagged_bytes_def relayed_bytes_def)

text \<open>A difference that is recorded stays.\<close>

definition keeps_timediff :: "logd \<Rightarrow> logd \<Rightarrow> bool" where
  "keeps_timediff st st' \<longleftrightarrow> (\<forall>c. timerisset (timediff st c) \<longrightarrow> timediff st' c = timediff st c)"

lemma clients_run:
  assumes "\<forall>c. client (S c) c st" and "list_all (\<lambda>c. 0 \<le> c) sched" and "0 \<le> outfd st" and "full_writes st"
  shows "run_all logd_data sched st = Inl Blocked \<or>
     (\<exists>st' S' L. run_all logd_data sched st = Inr st' \<and> (\<forall>c. client (S' c) c st') \<and> interleaves L S S' \<and>
        lg_out st' = lg_out st @ tagged_bytes (timediff st') L \<and>
        (\<forall>ce \<in> set L. timerisset (timediff st' (fst ce))) \<and> keeps_timediff st st' \<and>
        outfd st' = outfd st \<and> full_writes st')"
  using assms
proof (induction sched arbitrary: st S)
  case Nil
  then show ?case
    by (auto simp: interleaves_def tagged_bytes_def keeps_timediff_def intro!: exI [of _ S] exI [of _ "[]"])
next
  case (Cons c sched)
  have c: "client (S c) c st" "0 \<le> c" using Cons.prems by auto
  show ?case
  proof (cases "logd_data c st")
    case (Inl e)
    with logd_data_step [OF c Cons.prems(3,4)] show ?thesis by simp
  next
    case (Inr st1)
    with logd_data_step [OF c Cons.prems(3,4)] have ok: "step_ok c (S c) st st1" by simp
    then obtain es R where es: "S c = es @ R" "client R c st1"
      "lg_out st1 = lg_out st @ relayed_bytes (timediff st1 c) es"
      "timerisset (timediff st c) \<longrightarrow> timediff st1 c = timediff st c" "es \<noteq> [] \<longrightarrow> timerisset (timediff st1 c)"
      and os: "others_same c st st1" and fw: "full_writes st1" by (auto simp: step_ok_def)
    have cl: "\<forall>d. client ((S(c := R)) d) d st1"
      using es(2) client_others [OF _ os] Cons.prems(1) by simp
    have k: "keeps_timediff st st1" and o1: "outfd st1 = outfd st"
      using es(4) os by (auto simp: keeps_timediff_def others_same_def)
    show ?thesis
    proof (cases "run_all logd_data sched st1 = Inl Blocked")
      case True
      then show ?thesis using Inr by simp
    next
      case False
      have "list_all (\<lambda>c. 0 \<le> c) sched" "0 \<le> outfd st1" using Cons.prems(2,3) o1 by simp_all
      from Cons.IH [OF cl this fw] False obtain st' S' L where
        r: "run_all logd_data sched st1 = Inr st'" "\<forall>d. client (S' d) d st'" "interleaves L (S(c := R)) S'"
          "lg_out st' = lg_out st1 @ tagged_bytes (timediff st') L" "\<forall>ce \<in> set L. timerisset (timediff st' (fst ce))"
          "keeps_timediff st1 st'" "outfd st' = outfd st1" "full_writes st'" by blast
      let ?L = "map (Pair c) es @ L"
      have td: "es \<noteq> [] \<Longrightarrow> timediff st' c = timediff st1 c" using r(6) es(5) by (auto simp: keeps_timediff_def)
      have "lg_out st' = lg_out st @ tagged_bytes (timediff st') ?L"
        using r(4) es(3) td by (cases "es = []") (simp_all add: tagged_bytes_append tagged_bytes_one relayed_bytes_def)
      moreover have "interleaves ?L S S'"
        unfolding interleaves_def
      proof
        fix d
        from r(3) have "(S(c := R)) d = map snd (filter (\<lambda>ce. fst ce = d) L) @ S' d" by (simp add: interleaves_def)
        then show "S d = map snd (filter (\<lambda>ce. fst ce = d) ?L) @ S' d"
          using es(1) by (cases "d = c") (simp_all add: filter_map comp_def)
      qed
      moreover have "\<forall>ce \<in> set ?L. timerisset (timediff st' (fst ce))" using r(5) es(5) td by (cases "es = []") auto
      moreover have "keeps_timediff st st'" using k r(6) by (simp add: keeps_timediff_def)
      moreover have "run_all logd_data (c # sched) st = Inr st'" "outfd st' = outfd st"
        using Inr r(1,7) o1 by simp_all
      ultimately show ?thesis using r(2,8) by blast
    qed
  qed
qed

text \<open>
  A round of \<^verbatim>\<open>select\<close> in which no connection is requested serves the ready descriptors in
  ascending order, each once.
\<close>

lemma logd_data_nfds: "logd_data i st = Inr st' \<Longrightarrow> i < nfds st \<Longrightarrow> nfds st' = nfds st"
  by (auto simp: logd_data_def elim!: rbind_InrE dest!: transfer_out_frame transfer_in_frame split: if_splits)

lemma serve_ready_eq:
  assumes "sock \<notin> set ready"
    and "avail_fd = int (length (filter (\<lambda>j. j \<in> set ready) [i..nfds st - 1]))"
  shows "serve_ready sock ready avail_fd i st = run_all logd_data (filter (\<lambda>j. j \<in> set ready) [i..nfds st - 1]) st"
  using assms
proof (induction sock ready avail_fd i st rule: serve_ready.induct)
  case (1 sock ready avail_fd i st)
  show ?case
  proof (cases "i < nfds st")
    case False
    then show ?thesis by (simp add: serve_ready.simps [of sock ready avail_fd i])
  next
    case lt: True
    then have up: "[i..nfds st - 1] = i # [i + 1..nfds st - 1]" by (simp add: upto_rec1)
    show ?thesis
    proof (cases "i \<in> set ready")
      case False
      have "serve_ready sock ready avail_fd i st = serve_ready sock ready avail_fd (i + 1) st"
        using lt False by (simp add: serve_ready.simps [of sock ready avail_fd i])
      with "1.IH"(2) [OF lt False "1.prems"(1)] "1.prems"(2) False show ?thesis by (simp add: up)
    next
      case True
      let ?rest = "filter (\<lambda>j. j \<in> set ready) [i + 1..nfds st - 1]"
      have sv: "serve_fd sock i st = logd_data i st" using True "1.prems"(1) by (auto simp: serve_fd_def)
      have av: "avail_fd - 1 = int (length ?rest)" using "1.prems"(2) True by (simp add: up)
      show ?thesis
      proof (cases "logd_data i st")
        case (Inl e)
        then show ?thesis using lt True by (simp add: serve_ready.simps [of sock ready avail_fd i] sv up)
      next
        case (Inr st')
        note n = logd_data_nfds [OF Inr lt]
        have step: "serve_ready sock ready avail_fd i st
            = (if avail_fd - 1 = 0 then Inr st' else serve_ready sock ready (avail_fd - 1) (i + 1) st')"
          using lt True Inr by (simp add: serve_ready.simps [of sock ready avail_fd i] sv)
        show ?thesis
        proof (cases "avail_fd - 1 = 0")
          case zero: True
          then have "?rest = []" using av by simp
          then show ?thesis using step zero Inr True by (simp add: up)
        next
          case False
          from "1.IH"(1) [OF lt True _ False "1.prems"(1)] Inr sv n av
          show ?thesis using step False Inr True by (simp add: up)
        qed
      qed
    qed
  qed
qed

definition served :: "int list \<Rightarrow> logd \<Rightarrow> int list" where
  "served ready st = filter (\<lambda>j. j \<in> set ready) [0..nfds st - 1]"

lemma length_served:
  assumes "distinct ready" and "set ready \<subseteq> {0..<nfds st}"
  shows "length (served ready st) = length ready"
proof -
  have "set (served ready st) = set ready" using assms(2) by (auto simp: served_def)
  moreover have "distinct (served ready st)" by (simp add: served_def)
  ultimately show ?thesis using assms(1) by (metis distinct_card)
qed

lemma logd_round_eq:
  assumes "sock \<notin> set ready" and "distinct ready" and "set ready \<subseteq> {0..<nfds st}"
  shows "logd_round sock (Some ready) st = run_all logd_data (served ready st) st"
  unfolding logd_round_def option.case served_def
  by (rule serve_ready_eq) (use assms length_served [OF assms(2,3)] in \<open>simp_all add: served_def\<close>)

lemma run_all_nfds:
  "run_all logd_data is st = Inr st' \<Longrightarrow> list_all (\<lambda>i. i < nfds st) is \<Longrightarrow> nfds st' = nfds st"
proof (induction "is" arbitrary: st)
  case (Cons i "is")
  from Cons.prems(1) obtain st1 where 1: "logd_data i st = Inr st1" "run_all logd_data is st1 = Inr st'"
    by (auto elim: rbind_InrE)
  with logd_data_nfds [OF 1(1)] Cons.IH [OF 1(2)] Cons.prems(2) show ?case by simp
qed simp

text \<open>Any number of such rounds is a schedule of reads.\<close>

lemma logd_rounds_eq:
  assumes "list_all (\<lambda>ready. sock \<notin> set ready \<and> distinct ready \<and> set ready \<subseteq> {0..<nfds st}) readies"
  shows "\<exists>sched. logd_rounds sock (map Some readies) st = run_all logd_data sched st \<and> list_all (\<lambda>c. 0 \<le> c) sched"
  using assms
proof (induction readies arbitrary: st)
  case Nil
  show ?case by (intro exI [of _ "[]"]) (simp add: logd_rounds_def)
next
  case (Cons ready readies)
  let ?is = "served ready st"
  have r: "logd_round sock (Some ready) st = run_all logd_data ?is st"
    by (rule logd_round_eq) (use Cons.prems in simp_all)
  have nn: "list_all (\<lambda>c. 0 \<le> c) ?is" "list_all (\<lambda>i. i < nfds st) ?is" by (auto simp: served_def list_all_iff)
  show ?case
  proof (cases "run_all logd_data ?is st")
    case (Inl e)
    then show ?thesis using r nn(1) by (intro exI [of _ ?is]) (simp add: logd_rounds_def)
  next
    case (Inr st1)
    with Cons.IH [of st1] Cons.prems run_all_nfds [OF Inr nn(2)] obtain sched where
      "logd_rounds sock (map Some readies) st1 = run_all logd_data sched st1" "list_all (\<lambda>c. 0 \<le> c) sched" by auto
    then show ?thesis
      using r Inr nn(1) by (intro exI [of _ "?is @ sched"]) (simp add: logd_rounds_def run_all_append)
  qed
qed

section \<open>Times\<close>

text \<open>The microsecond at which an entry \<open>e\<close> happened by a clock that shows \<open>now\<close> when \<open>a\<close> happens.\<close>

definition shifted_micros :: "timeval \<Rightarrow> logentry_thaw \<Rightarrow> logentry_thaw \<Rightarrow> int" where
  "shifted_micros now a e = micros now + (micros (remote_time (th_fz e)) - micros (remote_time (th_fz a)))"

definition same_but_time :: "timeval \<Rightarrow> logentry_thaw \<Rightarrow> logentry_thaw \<Rightarrow> logentry_thaw \<Rightarrow> bool" where
  "same_but_time now a e e' \<longleftrightarrow>
     normal (remote_time (th_fz e')) \<and> micros (remote_time (th_fz e')) = shifted_micros now a e \<and>
     e' = e\<lparr>th_fz := (th_fz e)\<lparr>fz_cycle_high := fz_cycle_high (th_fz e'), fz_cycle_low := fz_cycle_low (th_fz e')\<rparr>\<rparr>"

lemma apply_timediff_time:
  fixes td
  assumes "normal (remote_time (th_fz e))" and "normal td" and "td = timersub now (remote_time (th_fz a))"
    and "shifted_micros now a e div 1000000 \<in> {0..<2 ^ 32}"
  shows "remote_time (th_fz (apply_timediff td e)) = timeradd (remote_time (th_fz e)) td \<and>
     same_but_time now a e (apply_timediff td e)"
proof -
  let ?t = "timeradd (remote_time (th_fz e)) td"
  have n: "normal ?t" using assms(1,2) by blast
  have m: "micros ?t = shifted_micros now a e" by (simp add: assms(3) shifted_micros_def time_simps)
  have "tv_sec ?t = micros ?t div 1000000" using n by (simp add: micros_def normal_def)
  then have s: "0 \<le> tv_sec ?t" "tv_sec ?t < 2 ^ 32" using assms(4) m by simp_all
  have u: "0 \<le> tv_usec ?t" "tv_usec ?t < 2 ^ 32" using n by (simp_all add: normal_def)
  have "int (unat (word_of_int x :: 32 word)) = x" if "0 \<le> x" "x < 2 ^ 32" for x
    using that to_uint32_id [of x] by (simp add: to_uint32_def)
  with s u have r: "remote_time (th_fz (apply_timediff td e)) = ?t"
    by (auto simp: apply_timediff_def Let_def remote_time_def [of "_\<lparr>fz_cycle_high := _, fz_cycle_low := _\<rparr>"])
  with n m show ?thesis by (simp add: same_but_time_def) (simp add: apply_timediff_def Let_def)
qed

section \<open>Properties\<close>

lemma logd_rounds_relay:
  assumes "\<forall>c. client (S c) c st" and "0 \<le> outfd st" and "full_writes st"
    and "list_all (\<lambda>ready. sock \<notin> set ready \<and> distinct ready \<and> set ready \<subseteq> {0..<nfds st}) readies"
  shows "case logd_rounds sock (map Some readies) st of
       Inl e \<Rightarrow> e = Blocked
     | Inr st' \<Rightarrow> \<exists>S' L. (\<forall>c. client (S' c) c st') \<and> relayed_whole S' st' \<and> interleaves L S S' \<and>
         lg_out st' = lg_out st @ tagged_bytes (timediff st') L"
proof -
  from logd_rounds_eq [OF assms(4)] obtain sched where
    eq: "logd_rounds sock (map Some readies) st = run_all logd_data sched st" and nn: "list_all (\<lambda>c. 0 \<le> c) sched"
    by blast
  from clients_run [OF assms(1) nn assms(2,3)] show ?thesis
    unfolding eq by (elim disjE exE conjE) (simp_all only: sum.case, use clients_relayed_whole in blast)
qed

text \<open>
  C8: the daemon merges the streams of its clients without losing, reordering or
  tearing an entry.  Whatever well-formed entries the connected clients send, however the kernel cuts
  their streams into reads, and in whatever order \<^verbatim>\<open>select\<close> reports the descriptors, the rounds
  of the main loop never crash (the daemon only ever waits for the kernel), and what they
  append to the log file is the bytes of an interleaving of the clients' entries: of each
  client a prefix of what it sends, in order, every entry with the one clock difference of
  its client applied; the rest is still in the relay buffer or on its way.  Of a client whose stream
  has been read to its end nothing is left, but for a last entry of exactly the size of a header on an open connection.

  The conditions: the log file takes every \<^verbatim>\<open>write\<close> whole (\<open>full_writes\<close>; \<open>short_write_keeps_head\<close> is what happens
  otherwise), in the rounds considered the listening socket is not ready, so that no client is accepted, and no
  entry carries the very time the daemon's clock shows (\<open>clock_apart\<close>, in \<open>client\<close>: a zero difference counts as none).
\<close>
theorem logd_relays_clients:
  assumes "\<forall>c. client (S c) c st" and "0 \<le> outfd st" and "full_writes st"
    and "list_all (\<lambda>ready. sock \<notin> set ready \<and> distinct ready \<and> set ready \<subseteq> {0..<nfds st}) readies"
  shows "case logd_rounds sock (map Some readies) st of
       Inl e \<Rightarrow> e = Blocked
     | Inr st' \<Rightarrow> \<exists>S' L. (\<forall>c. client (S' c) c st') \<and> relayed_whole S' st' \<and> interleaves L S S' \<and>
         lg_out st' = lg_out st @ tagged_bytes (timediff st') L"
  by (rule logd_rounds_relay [OF assms])

definition sample_logd :: logd where
  "sample_logd = \<lparr> relay = (\<lambda>_. None)(5 := Some (replicate RELAY_BUF NUL)), infd = - 1, outfd = 4,
     active_fd_set = [3, 5], b_end = (\<lambda>_. 0), avail = (\<lambda>_. RELAY_BUF), timediff = (\<lambda>_. Timeval 0 0), nfds = 6,
     lg_clock = (\<lambda>n. Timeval 1240000100 7), lg_ticks = 0,
     lg_reads = (\<lambda>_. [])(5 := [RdBytes (entry_bytes sample_entry)]), lg_accepts = [],
     lg_writes = [SysOk RELAY_BUF], lg_out = [], lg_closed = [] \<rparr>"

lemma sample_logd_clients: "client (((\<lambda>_. [])(5 := [sample_entry])) c) c sample_logd"
proof -
  have "clock_apart sample_logd [sample_entry]"
    by (simp add: clock_apart_def sample_logd_def timersub_def remote_time_def sample_entry_def sample_frozen_def
        timerisset_def Let_def)
  moreover have "upcoming False [RdBytes (entry_bytes sample_entry)] = entry_bytes sample_entry"
    using length_entry_bounds [OF sample_entry_wf] by (cases "entry_bytes sample_entry") auto
  moreover have "clock_apart sample_logd []" by (simp add: clock_apart_def)
  ultimately show ?thesis
    by (simp add: client_def sample_entry_wf conn_wf_def pending_def) (simp add: sample_logd_def)
qed

lemma sample_logd_round:
  "\<exists>st'. logd_rounds 3 [Some [5]] sample_logd = Inr st' \<and> lg_reads st' 5 = []"
proof -
  have "logd_round 3 (Some [5]) sample_logd = run_all logd_data [5] sample_logd"
    using logd_round_eq [of 3 "[5]" sample_logd] by (simp add: served_def sample_logd_def upto_rec1)
  moreover have "client [sample_entry] 5 sample_logd" using sample_logd_clients [of 5] by simp
  from logd_data_step [OF this] obtain st' where st': "logd_data 5 sample_logd = Inr st'"
    by (auto simp: full_writes_def sample_logd_def)
  moreover have "entry_bytes sample_entry \<noteq> []" using length_sample_entry by auto
  then have "lg_reads st' 5 = []"
    using logd_data_takes [OF st', of "entry_bytes sample_entry" "[]"]
    by (simp add: sample_logd_def length_sample_entry RELAY_BUF_def)
  ultimately show ?thesis by (auto simp: logd_rounds_def)
qed

text \<open>What a client of which everything is relayed has in the log.\<close>

lemma relayed_client:
  assumes "relayed_whole S' st'" and "interleaves L S S'" and "lg_reads st' c = []"
    and "\<And>e. e \<in> set (S c) \<Longrightarrow> length (entry_bytes e) \<noteq> sizeof_frozen"
  shows "map snd (filter (\<lambda>ce. fst ce = c) L) = S c"
proof -
  have S: "S c = map snd (filter (\<lambda>ce. fst ce = c) L) @ S' c" using assms(2) by (simp add: interleaves_def)
  have "upcoming False (lg_reads st' c) = []" by (simp add: assms(3))
  then have "S' c = []" using assms(1,4) S unfolding relayed_whole_def by (metis Un_iff list.set_intros(1) set_append)
  with S show ?thesis by simp
qed

theorem logd_relays_clients_witness:
  "\<exists>st' L. logd_rounds 3 [Some [5]] sample_logd = Inr st' \<and>
     map snd (filter (\<lambda>ce. fst ce = 5) L) = [sample_entry] \<and>
     lg_out st' = lg_out sample_logd @ tagged_bytes (timediff st') L"
proof -
  obtain st' where st': "logd_rounds 3 [Some [5]] sample_logd = Inr st'" "lg_reads st' 5 = []"
    using sample_logd_round by blast
  with logd_relays_clients [of "(\<lambda>_. [])(5 := [sample_entry])" sample_logd 3 "[[5]]"] sample_logd_clients
  obtain S' L where L: "relayed_whole S' st'" "interleaves L ((\<lambda>_. [])(5 := [sample_entry])) S'"
    "lg_out st' = lg_out sample_logd @ tagged_bytes (timediff st') L"
    by (auto simp: full_writes_def sample_logd_def)
  have "map snd (filter (\<lambda>ce. fst ce = 5) L) = [sample_entry]"
    using relayed_client [OF L(1,2) st'(2)] by (simp add: length_sample_entry sizeof_frozen_def)
  with L(3) st'(1) show ?thesis by (intro exI [of _ st'] exI [of _ L]) simp
qed

text \<open>
  C9: the clock correction.  When the first bytes of a client have arrived and no clock
  difference is recorded for it, \<^verbatim>\<open>transfer_out\<close> records one (\<^verbatim>\<open>record_timediff\<close>, from the first header and the daemon's
  clock) and writes the entries such that the first carries exactly the time the daemon's clock shows, and every other a
  time as far from it, in microseconds and in the same direction, as its own time is from that of the first; so order
  and distances are kept.  The file takes whole entries, all times are
  normal (microseconds below a second), the shifted seconds fit their 32-bit field, and the clocks
  of daemon and client differ, as the daemon takes a zero difference for an unrecorded one.
\<close>
theorem relayed_times:
  assumes "conn_wf fd st" and "infd st = fd" and "fd \<noteq> - 1" and "0 \<le> outfd st" and "full_writes st"
    and "list_all wf_thaw (a # es)" and "length es < length (lg_writes st)"
    and "pending fd st = concat (map entry_bytes (a # es))" and "clock_apart st (a # es)"
    and "\<not> timerisset (timediff st fd)" and "now = lg_clock st (lg_ticks st)" and "normal now"
    and "\<forall>e \<in> set (a # es). normal (remote_time (th_fz e))"
    and "\<forall>e \<in> set (a # es). shifted_micros now a e div 1000000 \<in> {0..<2 ^ 32}"
  shows "\<exists>st' a' es'. transfer_out st = Inr st' \<and> timediff st' fd = timediff (record_timediff (th_fz a) st) fd \<and>
     lg_out st' = lg_out st @ concat (map entry_bytes (a' # es')) \<and>
     remote_time (th_fz a') = now \<and> list_all2 (same_but_time now a) (a # es) (a' # es')"
proof -
  have infd: "conn_wf (infd st) st" "infd st \<noteq> - 1" "pending (infd st) st @ [] = concat (map entry_bytes (a # es))"
    using assms by simp_all
  from transfer_out_stream [OF infd(1,2) assms(4-6) infd(3) assms(9)] assms(7) obtain es1 S' rest td st' where
    *: "a # es = es1 @ S'" "torn rest" "rest = concat (map entry_bytes S')" "transfer_out st = Inr st'"
    and sn: "sent fd td es1 rest st st'" using assms(2) by auto
  have "S' = []" by (rule torn_whole [OF *(2,3)]) (use assms(6) *(1) in \<open>metis list_all_append\<close>)
  then have es1: "es1 = a # es" using *(1) by simp
  note f = sent_facts [OF sn]
  have td: "td = timersub now (remote_time (th_fz a))" using f(13) es1 assms(10,11) by simp
  let ?f = "apply_timediff td"
  have tm: "remote_time (th_fz (?f e)) = timeradd (remote_time (th_fz e)) td \<and> same_but_time now a e (?f e)"
    if "e \<in> set (a # es)" for e
  proof -
    have "normal (remote_time (th_fz e))" "normal td" using that assms(12,13) td by auto
    moreover have "shifted_micros now a e div 1000000 \<in> {0..<2 ^ 32}" using that assms(14) by blast
    ultimately show ?thesis using apply_timediff_time td by blast
  qed
  have "timediff (record_timediff (th_fz a) st) fd = td" "timediff st' fd = td"
    using assms(2,3,11) td f(4) by (simp_all add: record_timediff_def Let_def)
  moreover have "remote_time (th_fz (?f a)) = now"
    using tm [of a] timeradd_timersub [of now "remote_time (th_fz a)"] assms(12,13) td by simp
  moreover have "list_all2 (same_but_time now a) (a # es) (map ?f (a # es))"
    unfolding list_all2_map2 list_all2_same using tm by blast
  ultimately show ?thesis
    using *(4) f(3) es1 by (intro exI [of _ st'] exI [of _ "?f a"] exI [of _ "map ?f es"]) (simp add: relayed_bytes_def comp_def)
qed

definition late_entry :: logentry_thaw where
  "late_entry = sample_entry\<lparr>th_fz := sample_frozen\<lparr>fz_cycle_low := 900000\<rparr>\<rparr>"

definition full_logd :: logd where
  "full_logd = sample_logd\<lparr>infd := 5, lg_writes := [SysOk RELAY_BUF, SysOk RELAY_BUF],
     relay := (\<lambda>_. None)(5 := Some (entry_bytes sample_entry @ entry_bytes late_entry @ replicate (RELAY_BUF - 86) NUL)),
     b_end := (\<lambda>_. 0)(5 := 86), avail := (\<lambda>_. RELAY_BUF)(5 := RELAY_BUF - 86)\<rparr>"

lemma late_entry_wf: "wf_thaw late_entry" "length (entry_bytes late_entry) = 43"
proof -
  show wf: "wf_thaw late_entry"
    by (simp add: late_entry_def sample_entry_def wf_thaw_def wf_frozen_def sample_frozen_def arg_count_def str_count_def)
  show "length (entry_bytes late_entry) = 43"
    using length_entry_bytes [OF wf]
    by (simp add: late_entry_def frozen_size_eq sample_frozen_def arg_count_def str_count_def)
qed

lemma full_logd_ok:
  "conn_wf 5 full_logd" "pending 5 full_logd = concat (map entry_bytes [sample_entry, late_entry])"
  "clock_apart full_logd [sample_entry, late_entry]"
proof -
  have "86 \<le> RELAY_BUF" by (simp add: RELAY_BUF_def)
  then show "conn_wf 5 full_logd" "pending 5 full_logd = concat (map entry_bytes [sample_entry, late_entry])"
    by (simp_all add: conn_wf_def pending_def full_logd_def length_sample_entry late_entry_wf)
  show "clock_apart full_logd [sample_entry, late_entry]"
    by (simp add: clock_apart_def full_logd_def sample_logd_def timersub_def remote_time_def late_entry_def sample_entry_def
        sample_frozen_def timerisset_def Let_def)
qed

theorem relayed_times_witness:
  "\<exists>st' a' b'. transfer_out full_logd = Inr st' \<and> lg_out st' = entry_bytes a' @ entry_bytes b' \<and>
     remote_time (th_fz a') = Timeval 1240000100 7 \<and> remote_time (th_fz b') = Timeval 1240000100 650007"
proof -
  let ?now = "Timeval 1240000100 7"
  have r: "remote_time (th_fz sample_entry) = Timeval 1240000000 250000" "remote_time (th_fz late_entry) = Timeval 1240000000 900000"
    by (simp_all add: remote_time_def late_entry_def sample_entry_def sample_frozen_def)
  have f: "infd full_logd = 5" "outfd full_logd = 4" "full_writes full_logd" "length (lg_writes full_logd) = 2"
    "timediff full_logd 5 = Timeval 0 0" "lg_clock full_logd n = ?now" "lg_out full_logd = []" for n
    by (simp_all add: full_logd_def sample_logd_def full_writes_def)
  have "\<exists>st' a' es'. transfer_out full_logd = Inr st' \<and> timediff st' 5 = timediff (record_timediff (th_fz sample_entry) full_logd) 5 \<and>
      lg_out st' = lg_out full_logd @ concat (map entry_bytes (a' # es')) \<and> remote_time (th_fz a') = ?now \<and>
      list_all2 (same_but_time ?now sample_entry) [sample_entry, late_entry] (a' # es')"
    by (rule relayed_times [OF full_logd_ok(1) f(1) _ _ f(3) _ _ full_logd_ok(2,3)])
       (simp_all add: f r sample_entry_wf late_entry_wf normal_def shifted_micros_def micros_def timerisset_def)
  then obtain st' a' b' where t: "transfer_out full_logd = Inr st'" "lg_out st' = entry_bytes a' @ entry_bytes b'"
    "remote_time (th_fz a') = ?now" "same_but_time ?now sample_entry late_entry b'"
    by (auto simp: list_all2_Cons1 f)
  have "remote_time (th_fz b') = Timeval 1240000100 650007"
    using t(4) by (subst normal_micros_inject [symmetric])
      (simp_all add: same_but_time_def shifted_micros_def r normal_def micros_def)
  with t show ?thesis by blast
qed

text \<open>
  C38: a descriptor that is used again starts with the state of its former client.
  When a client disconnects in the middle of a header and the next connection gets the same
  descriptor, the fill level and the clock difference of the old connection are still there:
  the relay buffer of the new client starts with as many zero bytes as the old one left
  unsent, and the new client's times are shifted by the old client's difference.
\<close>
theorem reconnect_inherits_relay_state:
  assumes "conn_wf fd st" and "0 < b_end st fd" and "b_end st fd < sizeof_frozen"
    and "lg_reads st fd = RdBytes [] # script" and "lg_accepts st = fd # accepts" and "0 \<le> fd" and "fd < FD_SETSIZE"
    and "0 \<le> outfd st"
  shows "\<exists>st1 st2. logd_data fd st = Inr st1 \<and> relay st1 fd = None \<and> logd_accept st1 = Inr st2 \<and>
     pending fd st2 = replicate (b_end st fd) NUL \<and> timediff st2 fd = timediff st fd"
proof -
  let ?s1 = "st\<lparr>infd := fd, lg_reads := (lg_reads st)(fd := script), lg_closed := lg_closed st @ [fd],
      active_fd_set := FD_CLR fd (active_fd_set st), nfds := (if fd = nfds st then nfds st - 1 else nfds st)\<rparr>"
  from assms(1) obtain mem where mem: "relay st fd = Some mem" "b_end st fd \<le> RELAY_BUF"
    by (auto simp: conn_wf_def split: option.splits)
  have "transfer_out ?s1 = Inr ?s1"
    using mem assms(3,8) by (simp add: transfer_out_def transfer_out_loop.simps [of ?s1])
  moreover have "transfer_in (st\<lparr>infd := fd\<rparr>) = Inr (0, st\<lparr>infd := fd, lg_reads := (lg_reads st)(fd := script)\<rparr>)"
    using mem assms(4,6) by (simp add: transfer_in_def take_arrived_def)
  ultimately have d: "logd_data fd st = Inr (?s1\<lparr>relay := (relay st)(fd := None), infd := - 1\<rparr>)"
    by (cases "fd = nfds st") (simp_all add: logd_data_def)
  show ?thesis
    using d mem(2) assms(5-7) by (simp add: logd_accept_def pending_def min_def)
qed

definition stale_logd :: logd where
  "stale_logd = sample_logd\<lparr>b_end := (\<lambda>_. 0)(5 := 20), avail := (\<lambda>_. RELAY_BUF)(5 := RELAY_BUF - 20),
     lg_reads := (\<lambda>_. [])(5 := [RdBytes []]), lg_accepts := [5]\<rparr>"

theorem reconnect_inherits_relay_state_witness:
  "\<exists>st1 st2. logd_data 5 stale_logd = Inr st1 \<and> relay st1 5 = None \<and> logd_accept st1 = Inr st2 \<and>
     pending 5 st2 = replicate 20 NUL \<and> timediff st2 5 = timediff stale_logd 5"
proof -
  have "20 \<le> RELAY_BUF" by (simp add: RELAY_BUF_def)
  then have "conn_wf 5 stale_logd" by (simp add: conn_wf_def stale_logd_def sample_logd_def)
  moreover have "b_end stale_logd 5 = 20" by (simp add: stale_logd_def)
  ultimately show ?thesis
    using reconnect_inherits_relay_state [of 5 stale_logd "[]" "[]"]
    by (simp add: stale_logd_def sample_logd_def FD_SETSIZE_def sizeof_frozen_def)
qed

text \<open>
  A short write garbles the relay.  When the log file takes only \<open>t\<close> of the bytes
  of the only entry in the buffer, the daemon moves nothing (the copy loop runs over
  \<^verbatim>\<open>b_end - size\<close> bytes) but drops the last \<open>t\<close> bytes: the buffer still begins with the head
  of the entry, of which \<open>t\<close> bytes are already in the file, instead of its tail.
\<close>
lemma short_write_keeps_head:
  assumes "conn_wf (infd st) st" and "pending (infd st) st = b" and "relay st (infd st) = Some mem"
    and "sz = length b" and "0 < t" and "t < sz" and "lg_writes st = SysOk t # ws"
  shows "\<exists>st'. write_entry sz buf mem st = Inr st' \<and> lg_out st' = lg_out st @ take t buf \<and>
     pending (infd st) st' = take (sz - t) b"
proof -
  have "length mem = RELAY_BUF" "b_end st (infd st) \<le> RELAY_BUF" using assms(1,3) by (auto simp: conn_wf_def)
  with assms show ?thesis
    by (auto simp: write_entry_def Let_def pending_def shift_relay_def min_def)
qed

text \<open>
  A header whose sizes are negative stops a client for good.  When the header at
  the head of the relay buffer gives a negative total size, the comparison with the fill
  level is unsigned: \<^verbatim>\<open>transfer_out\<close> leaves the buffer as it is, writes nothing, and the entries
  behind the header are never relayed.
\<close>
lemma negative_size_stalls_client:
  assumes "relay st (infd st) = Some mem" and "thaw1 mem = Inr fz" and "frozen_size fz < 0"
    and "b_end st (infd st) \<le> RELAY_BUF"
  shows "\<exists>st'. transfer_out st = Inr st' \<and> lg_out st' = lg_out st \<and>
     relay st' = relay st \<and> b_end st' = b_end st \<and> avail st' = avail st"
proof -
  have "- 40000 \<le> frozen_size fz"
    using arg_count_bounds [of fz] str_count_bounds [of fz] by (simp add: frozen_size_eq)
  then have "(frozen_size fz + 2 ^ 32) mod 2 ^ 32 = frozen_size fz + 2 ^ 32"
    using assms(3) by (intro mod_pos_pos_trivial) simp_all
  then have "frozen_size fz mod 2 ^ 32 = frozen_size fz + 2 ^ 32" by simp
  then have "b_end st (infd st) < to_uint32 (frozen_size fz)"
    using assms(4) \<open>- 40000 \<le> frozen_size fz\<close> by (simp add: to_uint32_mod RELAY_BUF_def)
  then show ?thesis
    using assms(1,2) by (simp add: transfer_out_def transfer_out_loop.simps [of st] Let_def)
qed

end
