(* ===== verification/Pp_Base.thy ===== *)
theory Pp_Base
  imports Binlog
begin

text \<open>
  What the protocol plugins of \<^verbatim>\<open>src/trace/protocol.c\<close> share: the protocol numbers and
  directions, how a plugin sees its buffer, and the contract between a plugin and the
  virtual descriptors that call it.

  A plugin gets a pointer into a larger array and a length.  In the model \<open>mem\<close> is what
  the pointer can reach, the bytes up to the end of the array, and \<open>len\<close> the number of them that
  hold data; the string functions of C look at \<open>mem\<close>.  A plugin answers with its new state, the
  integer it returns and the log calls it makes, in order.
\<close>

section \<open>Numbers\<close>

datatype pp_direction = PP_READ | PP_WRITE

definition PP_PERLS_ID :: int where "PP_PERLS_ID = 1"
definition PP_PERLC_ID :: int where "PP_PERLC_ID = 2"
definition PP_HTTPS_ID :: int where "PP_HTTPS_ID = 3"
definition PP_HTTPC_ID :: int where "PP_HTTPC_ID = 4"
definition PP_PSQLS_ID :: int where "PP_PSQLS_ID = 5"
definition PP_PSQLC_ID :: int where "PP_PSQLC_ID = 6"
definition PP_FCGIS_ID :: int where "PP_FCGIS_ID = 7"
definition PP_FCGIC_ID :: int where "PP_FCGIC_ID = 8"
definition PP_XC_ID :: int where "PP_XC_ID = 10"
definition PP_MYSQLS_ID :: int where "PP_MYSQLS_ID = 11"
definition PP_MYSQLC_ID :: int where "PP_MYSQLC_ID = 12"

lemmas pp_ids = PP_PERLS_ID_def PP_PERLC_ID_def PP_HTTPS_ID_def PP_HTTPC_ID_def PP_PSQLS_ID_def PP_PSQLC_ID_def
  PP_FCGIS_ID_def PP_FCGIC_ID_def PP_XC_ID_def PP_MYSQLS_ID_def PP_MYSQLC_ID_def

type_synonym 'st pp_answer = "('st \<times> int \<times> logcall list) result"

text \<open>
  Memory that \<^verbatim>\<open>malloc\<close> or the stack hands out holds whatever was there: \<open>jk_heap\<close> is the
  byte behind a heap copy, \<open>jk_stack\<close> the bytes of a local array, \<open>jk_int\<close> an unset field.
\<close>

record pp_junk =
  jk_heap :: char
  jk_stack :: string
  jk_int :: int

section \<open>String functions on a buffer\<close>

text \<open>\<^verbatim>\<open>strstr\<close> on memory: it reads up to the match or the NUL, and past the array without either.\<close>

definition mem_strstr :: "string \<Rightarrow> string \<Rightarrow> nat option result" where
  "mem_strstr needle mem =
     (case strstr needle (takeWhile (\<lambda>c. c \<noteq> NUL) mem) of
        Some i \<Rightarrow> Inr (Some i)
      | None \<Rightarrow> if NUL \<in> set mem then Inr None else Inl OutOfBounds)"

text \<open>\<^verbatim>\<open>strncpy(dst, src, n)\<close>: the \<open>n\<close> bytes stored, NULs behind a shorter string.\<close>

definition strncpy :: "nat \<Rightarrow> string \<Rightarrow> string result" where
  "strncpy n mem =
     (let s = takeWhile (\<lambda>c. c \<noteq> NUL) (take n mem) in
      if length s < n \<and> length mem \<le> length s then Inl OutOfBounds
      else Inr (s @ replicate (n - length s) NUL))"

definition c_string :: "string \<Rightarrow> string result" where
  "c_string mem = (case cstr mem of None \<Rightarrow> Inl OutOfBounds | Some s \<Rightarrow> Inr s)"

text \<open>\<^verbatim>\<open>snprintf\<close> into a buffer that is then read as a string.\<close>

definition snprintf :: "nat \<Rightarrow> string \<Rightarrow> string" where
  "snprintf n s = takeWhile (\<lambda>c. c \<noteq> NUL) (take (n - 1) s)"

lemma length_strncpy: "strncpy n mem = Inr t \<Longrightarrow> length t = n"
proof -
  assume "strncpy n mem = Inr t"
  moreover have "length (takeWhile (\<lambda>c. c \<noteq> NUL) (take n mem)) \<le> n"
    using length_takeWhile_le [of "\<lambda>c. c \<noteq> NUL" "take n mem"] by simp
  ultimately show ?thesis by (auto simp: strncpy_def Let_def split: if_splits)
qed

lemma mem_strstr_Some:
  assumes "mem_strstr needle mem = Inr (Some i)"
  shows "take (length needle) (drop i mem) = needle \<and> i + length needle \<le> length mem"
proof -
  let ?s = "takeWhile (\<lambda>c. c \<noteq> NUL) mem"
  from assms have "strstr needle ?s = Some i" by (auto simp: mem_strstr_def split: option.splits if_splits)
  from strstr_SomeD [OF this] have *: "take (length needle) (drop i ?s) = needle" "i + length needle \<le> length ?s" by auto
  have cut: "take n (drop i (a @ b)) = take n (drop i a)" if "i + n \<le> length a" for n and a b :: string
    using that by simp
  from cut [OF *(2), of "dropWhile (\<lambda>c. c \<noteq> NUL) mem"] have "take (length needle) (drop i mem) = needle"
    using *(1) by simp
  with *(2) show ?thesis using length_takeWhile_le [of "\<lambda>c. c \<noteq> NUL" mem] by linarith
qed

section \<open>Presenting written data\<close>

text \<open>
  The loop of \<^verbatim>\<open>vwrite_req\<close>: the plugin is called on what is left until nothing is left or
  it does not take anything.  The result is its state, what its pointer still reaches, the
  number of bytes it has not taken, and the log calls.  A plugin that takes more than it is offered
  makes the count negative; the \<^verbatim>\<open>memmove\<close> that follows then leaves the buffer.
\<close>

function pp_consume ::
  "('st \<Rightarrow> string \<Rightarrow> nat \<Rightarrow> 'st pp_answer) \<Rightarrow> 'st \<Rightarrow> string \<Rightarrow> nat \<Rightarrow> ('st \<times> string \<times> nat \<times> logcall list) result" where
  "pp_consume speak st mem vlen =
     (if vlen = 0 then Inr (st, mem, 0, [])
      else case speak st mem vlen of
        Inl e \<Rightarrow> Inl e
      | Inr (st', req, logs) \<Rightarrow>
          if 0 < req
          then if int vlen < req then Inl OutOfBounds
               else rbind (pp_consume speak st' (drop (nat req) mem) (vlen - nat req))
                      (\<lambda>(st2, mem2, vlen2, logs2). Inr (st2, mem2, vlen2, logs @ logs2))
          else Inr (st', mem, vlen, logs))"
  by pat_completeness auto
termination
  by (relation "measure (\<lambda>(speak, st, mem, vlen). vlen)") auto

declare pp_consume.simps [simp del]

text \<open>The loop on a state of which the plugin sees one part.\<close>

lemma pp_consume_map:
  assumes "\<And>x mem n. sp2 (f x) mem n = rbind (sp1 x mem n) (\<lambda>(x', r, calls). Inr (f x', r, calls))"
  shows "pp_consume sp2 (f x) mem n = rbind (pp_consume sp1 x mem n) (\<lambda>(x', m, k, calls). Inr (f x', m, k, calls))"
proof (induction n arbitrary: x mem rule: less_induct)
  case (less n)
  show ?case
  proof (cases "n = 0 \<or> (\<exists>e. sp1 x mem n = Inl e)")
    case True
    then show ?thesis by (auto simp: pp_consume.simps [of sp1 x mem] pp_consume.simps [of sp2 "f x" mem] assms)
  next
    case False
    then obtain x' r calls where sp: "sp1 x mem n = Inr (x', r, calls)" and n: "0 < n" by (cases "sp1 x mem n") auto
    show ?thesis
    proof (cases "0 < r \<and> r \<le> int n")
      case True
      then have "n - nat r < n" using n by simp
      from less.IH [OF this, of x' "drop (nat r) mem"] True n sp show ?thesis
        by (cases "pp_consume sp1 x' (drop (nat r) mem) (n - nat r)")
           (auto simp: pp_consume.simps [of sp1 x mem] pp_consume.simps [of sp2 "f x" mem] assms)
    next
      case False
      then show ?thesis using n sp by (auto simp: pp_consume.simps [of sp1 x mem] pp_consume.simps [of sp2 "f x" mem] assms)
    qed
  qed
qed

text \<open>A plugin that looks at the data only does not see what lies behind it.\<close>

lemma pp_consume_take:
  assumes "\<And>x m k. k \<le> length m \<Longrightarrow> sp x m k = sp x (take k m) k" and "n \<le> length mem"
  shows "pp_consume sp x mem n =
     rbind (pp_consume sp x (take n mem) n) (\<lambda>(x', m, k, calls). Inr (x', m @ drop n mem, k, calls))"
  using assms(2)
proof (induction n arbitrary: x mem rule: less_induct)
  case (less n)
  note eq = assms(1) [OF less.prems, of x]
  show ?case
  proof (cases "n = 0 \<or> (\<exists>e. sp x mem n = Inl e)")
    case True
    then show ?thesis using eq by (auto simp: pp_consume.simps [of sp x])
  next
    case False
    then obtain x' r calls where sp: "sp x mem n = Inr (x', r, calls)" and n: "0 < n" by (cases "sp x mem n") auto
    then have sp': "sp x (take n mem) n = Inr (x', r, calls)" using eq by simp
    show ?thesis
    proof (cases "0 < r \<and> r \<le> int n")
      case True
      then have lt: "n - nat r < n" and le: "n - nat r \<le> length (drop (nat r) mem)" and n': "n - nat r + nat r = n"
        using n less.prems by auto
      from less.IH [OF lt le, of x'] True n sp sp' show ?thesis
        by (cases "pp_consume sp x' (take (n - nat r) (drop (nat r) mem)) (n - nat r)")
           (auto simp: pp_consume.simps [of sp x] drop_take n')
    next
      case False
      then show ?thesis using n sp sp' by (auto simp: pp_consume.simps [of sp x])
    qed
  qed
qed

section \<open>The contract of a plugin\<close>

text \<open>
  What the virtual descriptors rely on.  An answer to some data takes a positive number of the
  bytes offered or asks for more with \<open>-1\<close>; asking leaves the state alone, and the plugin that
  has asked takes, once it is satisfied, more bytes than it had been offered.
\<close>

locale pp_contract =
  fixes speak :: "'st \<Rightarrow> string \<Rightarrow> nat \<Rightarrow> 'st pp_answer"
    and inv :: "'st \<Rightarrow> bool"
  assumes speak_inv: "inv st \<Longrightarrow> 0 < len \<Longrightarrow> len \<le> length mem \<Longrightarrow> speak st mem len = Inr (st', r, logs) \<Longrightarrow> inv st'"
    and speak_takes: "inv st \<Longrightarrow> 0 < len \<Longrightarrow> len \<le> length mem \<Longrightarrow> speak st mem len = Inr (st', r, logs) \<Longrightarrow>
      r = - 1 \<or> 0 < r \<and> r \<le> int len"
    and speak_waits: "inv st \<Longrightarrow> 0 < len \<Longrightarrow> len \<le> length mem \<Longrightarrow> speak st mem len = Inr (st', - 1, logs) \<Longrightarrow> st' = st"
    and speak_fresh: "inv st \<Longrightarrow> 0 < len \<Longrightarrow> len \<le> length mem \<Longrightarrow> speak st mem len = Inr (st', - 1, logs) \<Longrightarrow>
      len < len2 \<Longrightarrow> len2 \<le> length mem2 \<Longrightarrow> speak st mem2 len2 = Inr (st2, r, logs2) \<Longrightarrow> r = - 1 \<or> int len < r"
begin

text \<open>Asking again on the same data changes nothing, and a satisfied plugin makes progress.\<close>

lemma speak_progress:
  assumes "inv st" and "0 < len" and "len \<le> length mem" and "speak st mem len = Inr (st', r, logs)" and "r \<noteq> - 1"
  shows "0 < nat r" and "nat r \<le> len"
  using speak_takes [OF assms(1-4)] assms(5) by auto

text \<open>
  The loop stays inside the buffer for such a plugin: it keeps the invariant, leaves a suffix of
  the data on which the plugin asks for more, and fails only where the plugin itself does.
\<close>

lemma pp_consume_ok:
  assumes "inv st" and "vlen \<le> length mem"
  shows "case pp_consume speak st mem vlen of
       Inl e \<Rightarrow> \<exists>st1 mem1 len1. inv st1 \<and> 0 < len1 \<and> len1 \<le> length mem1 \<and> speak st1 mem1 len1 = Inl e
     | Inr (st', mem', vlen', logs) \<Rightarrow> inv st' \<and> vlen' \<le> vlen \<and> mem' = drop (vlen - vlen') mem \<and>
         (0 < vlen' \<longrightarrow> (\<exists>logs'. speak st' mem' vlen' = Inr (st', - 1, logs')))"
  using assms
proof (induction vlen arbitrary: st mem rule: less_induct)
  case (less vlen)
  show ?case
  proof (cases "vlen = 0")
    case True
    then show ?thesis using less.prems by (simp add: pp_consume.simps [of speak st mem])
  next
    case False
    then have pos: "0 < vlen" by simp
    show ?thesis
    proof (cases "speak st mem vlen")
      case (Inl e)
      then show ?thesis using less.prems pos by (auto simp: pp_consume.simps [of speak st mem])
    next
      case (Inr x)
      obtain st1 r logs where x: "x = (st1, r, logs)" by (cases x)
      note sp = Inr [unfolded x]
      show ?thesis
      proof (cases "r = - 1")
        case True
        with speak_waits [OF less.prems(1) pos less.prems(2)] sp have "st1 = st" by simp
        with True sp pos less.prems show ?thesis by (simp add: pp_consume.simps [of speak st mem])
      next
        case ne: False
        note r = speak_progress [OF less.prems(1) pos less.prems(2) sp ne]
        let ?c = "pp_consume speak st1 (drop (nat r) mem) (vlen - nat r)"
        have eq: "pp_consume speak st mem vlen
            = rbind ?c (\<lambda>(st2, mem2, vlen2, logs2). Inr (st2, mem2, vlen2, logs @ logs2))"
        proof -
          have "\<not> int vlen < r" using r(2) by linarith
          then show ?thesis using r(1) pos sp by (simp add: pp_consume.simps [of speak st mem])
        qed
        have le: "vlen - nat r \<le> length (drop (nat r) mem)" and lt: "vlen - nat r < vlen" using r less.prems(2) pos by simp_all
        from less.IH [OF lt speak_inv [OF less.prems(1) pos less.prems(2) sp] le]
        show ?thesis
        proof (cases ?c)
          case (Inl e)
          with less.IH [OF lt speak_inv [OF less.prems(1) pos less.prems(2) sp] le] show ?thesis by (simp add: eq)
        next
          case (Inr y)
          obtain st2 mem2 vlen2 logs2 where y: "y = (st2, mem2, vlen2, logs2)" by (cases y)
          from less.IH [OF lt speak_inv [OF less.prems(1) pos less.prems(2) sp] le] Inr y
          show ?thesis using r by (auto simp: eq)
        qed
      qed
    qed
  qed
qed

text \<open>The contract carries over to a state of which the plugin owns one part.\<close>

lemma contract_part:
  assumes get_put: "\<And>x w. get (put x w) = x" and put_get: "\<And>w. put (get w) w = w"
  shows "pp_contract (\<lambda>w mem len. rbind (speak (get w) mem len) (\<lambda>(x, r, logs). Inr (put x w, r, logs))) (\<lambda>w. inv (get w))"
proof -
  let ?sp = "\<lambda>w mem len. rbind (speak (get w) mem len) (\<lambda>(x, r, logs). Inr (put x w, r, logs))"
  have ans: "\<exists>x. speak (get w) mem len = Inr (x, r, logs) \<and> w' = put x w" if "?sp w mem len = Inr (w', r, logs)" for w mem len w' r logs
    using that by (auto elim!: rbind_InrE)
  show ?thesis
  proof (unfold_locales, goal_cases)
    case (1 w len mem w' r logs)
    from ans [OF 1(4)] speak_inv [OF 1(1-3)] show ?case by (auto simp: get_put)
  next
    case (2 w len mem w' r logs)
    from ans [OF 2(4)] speak_takes [OF 2(1-3)] show ?case by blast
  next
    case (3 w len mem w' logs)
    from ans [OF 3(4)] speak_waits [OF 3(1-3)] show ?case by (auto simp: put_get)
  next
    case (4 w len mem w' logs len2 mem2 w2 r logs2)
    from ans [OF 4(4)] ans [OF 4(7)] speak_fresh [OF 4(1-3) _ 4(5,6)] show ?case by blast
  qed
qed

text \<open>It also carries over to a tagged union in which the state of the plugin is one variant.\<close>

lemma contract_variant:
  assumes rd: "\<And>x mem len. rd (C x) mem len = rbind (speak x mem len) (\<lambda>(x', r, logs). Inr (C x', r, logs))"
    and ok: "\<And>d. ok d \<longleftrightarrow> (\<exists>x. d = C x \<and> inv x)"
  shows "pp_contract rd ok"
proof -
  have ans: "\<exists>x'. speak x mem len = Inr (x', r, logs) \<and> d' = C x'" if "rd (C x) mem len = Inr (d', r, logs)" for x mem len d' r logs
    using that by (auto simp: rd elim!: rbind_InrE)
  show ?thesis
  proof (unfold_locales, goal_cases)
    case (1 d len mem d' r logs)
    then obtain x where x: "d = C x" "inv x" by (auto simp: ok)
    from ans [OF 1(4) [unfolded x]] speak_inv [OF x(2) 1(2,3)] show ?case by (auto simp: ok)
  next
    case (2 d len mem d' r logs)
    then obtain x where x: "d = C x" "inv x" by (auto simp: ok)
    from ans [OF 2(4) [unfolded x]] speak_takes [OF x(2) 2(2,3)] show ?case by blast
  next
    case (3 d len mem d' logs)
    then obtain x where x: "d = C x" "inv x" by (auto simp: ok)
    from ans [OF 3(4) [unfolded x]] speak_waits [OF x(2) 3(2,3)] show ?case by (auto simp: x)
  next
    case (4 d len mem d' logs len2 mem2 d2 r logs2)
    then obtain x where x: "d = C x" "inv x" by (auto simp: ok)
    from ans [OF 4(4) [unfolded x]] ans [OF 4(7) [unfolded x]] speak_fresh [OF x(2) 4(2,3) _ 4(5,6)] show ?case by blast
  qed
qed

text \<open>A property of the state that every answer keeps may be added to the invariant.\<close>

lemma contract_more:
  assumes J: "\<And>st mem len st' r logs. J st \<Longrightarrow> speak st mem len = Inr (st', r, logs) \<Longrightarrow> J st'"
  shows "pp_contract speak (\<lambda>st. inv st \<and> J st)"
proof (unfold_locales, goal_cases)
  case (1 st len mem st' r logs)
  then show ?case using speak_inv [of st len mem] J [of st mem len] by blast
next
  case (2 st len mem st' r logs)
  then show ?case using speak_takes [of st len mem] by blast
next
  case (3 st len mem st' logs)
  then show ?case using speak_waits [of st len mem] by blast
next
  case (4 st len mem st' logs len2 mem2 st2 r logs2)
  then show ?case using speak_fresh [of st len mem] by blast
qed

end

end
