(* ===== verification/Pp_Sql.thy ===== *)
theory Pp_Sql
  imports Pp_Base
begin

text \<open>
  The PostgreSQL and MySQL plugins of \<^verbatim>\<open>src/trace/protocol.c\<close>.  Both follow a stream of messages
  with a length in the header: \<^verbatim>\<open>speak_psql\<close> and \<^verbatim>\<open>speak_mysql\<close> on one direction of a connection,
  and the init, shutdown, read and write entry points on the pair of directions.
\<close>

section \<open>PostgreSQL\<close>

record pp_psql_state_side =
  ps_gotStartup :: bool
  ps_type :: char
  ps_gotHeader :: bool
  ps_todo :: "32 word"
  ps_id :: int

record pp_psql_state =
  psql_read :: pp_psql_state_side
  psql_write :: pp_psql_state_side

text \<open>\<^verbatim>\<open>get_int\<close>: four bytes in network order.\<close>

definition get_int :: "string \<Rightarrow> 32 word" where
  "get_int mem = of_nat (be_val (peek mem 0 4))"

definition show_d :: "32 word \<Rightarrow> string" where
  "show_d w = show_int (sint w)"

definition psql_log :: "pp_psql_state_side \<Rightarrow> int \<Rightarrow> int \<Rightarrow> pp_direction \<Rightarrow> logcall list" where
  "psql_log state s role dir =
     (let q = ps_type state in
      if q = CHR ''Q''
      then if role = PP_PSQLC_ID \<and> dir = PP_WRITE
           then [LOGBINiiis (SYS ''PP_MSG_SEND'') 0 PP_PSQLC_ID s (ps_id state) ''psqlc'']
           else if role = PP_PSQLS_ID \<and> dir = PP_READ
           then [LOGBINiiis (SYS ''PP_MSG_RECV'') 0 PP_PSQLS_ID s (ps_id state) ''psqls'']
           else []
      else if q = CHR ''Z''
      then if role = PP_PSQLC_ID \<and> dir = PP_READ
           then [LOGBINiiis (SYS ''PP_MSG_RECV'') 0 PP_PSQLC_ID s (ps_id state) ''psqlc'']
           else if role = PP_PSQLS_ID \<and> dir = PP_WRITE
           then [LOGBINiiis (SYS ''PP_MSG_SEND'') 0 PP_PSQLS_ID s (ps_id state) ''psqls'']
           else []
      else [])"

definition speak_psql ::
  "int \<Rightarrow> int \<Rightarrow> pp_direction \<Rightarrow> pp_psql_state_side \<Rightarrow> string \<Rightarrow> nat \<Rightarrow> pp_psql_state_side pp_answer" where
  "speak_psql s role dir state mem len =
     (if 0 < ps_todo state
      then if ps_type state = CHR ''Q'' \<and> len < unat (ps_todo state) then Inr (state, - 1, [])
           else rbind (if ps_type state = CHR ''Q'' then rbind (c_string mem) (\<lambda>q. Inr [LOGBINss (SYS ''PP_PROP'') 0 ''QUERY'' q])
                       else Inr []) (\<lambda>logs.
             let used = min len (unat (ps_todo state));
                 todo = ps_todo state - of_nat used
             in Inr (state\<lparr>ps_todo := todo, ps_gotHeader := ps_gotHeader state \<and> todo \<noteq> 0\<rparr>, int used, logs))
      else if \<not> ps_gotStartup state
      then if len < 8 then Inr (state, - 1, [])
           else Inr (state\<lparr>ps_gotStartup := True, ps_todo := get_int mem - 8\<rparr>, 8, [])
      else if \<not> ps_gotHeader state
      then if len < 5 then Inr (state, - 1, [])
           else let st1 = state\<lparr>ps_type := mem ! 0, ps_gotHeader := True, ps_todo := get_int (drop 1 mem) - 4\<rparr>;
                    line = snprintf 67 (''psql: type='' @ [ps_type st1] @ '' len='' @ show_d (ps_todo st1 + 4) @
                                        '' todo='' @ show_d (ps_todo st1));
                    msg = psql_log st1 s role dir
                in Inr (if msg = [] then st1 else st1\<lparr>ps_id := ps_id st1 + 1\<rparr>, 5,
                        LOGBINs (SYS ''PP_DATA'') 0 line # msg)
      else Inr (state, - 1, []))"

definition psql_side0 :: pp_psql_state_side where
  "psql_side0 = \<lparr> ps_gotStartup = False, ps_type = NUL, ps_gotHeader = False, ps_todo = 0, ps_id = 0 \<rparr>"

definition pp_psql_common_init :: pp_psql_state where
  "pp_psql_common_init = \<lparr> psql_read = psql_side0, psql_write = psql_side0 \<rparr>"

definition pp_psqlc_init :: "int \<Rightarrow> pp_psql_state \<times> logcall list" where
  "pp_psqlc_init s =
     (pp_psql_common_init\<lparr>psql_read := psql_side0\<lparr>ps_gotStartup := True\<rparr>\<rparr>,
      [LOGBINiis (SYS ''PP_INIT'') 0 PP_PSQLC_ID s ''psqlc''])"

definition pp_psqlc_shutdown :: "logcall list" where
  "pp_psqlc_shutdown = [LOGBINs (SYS ''PP_SHUTDOWN'') 0 ''psqlc'']"

definition pp_psqlc_read :: "int \<Rightarrow> pp_psql_state \<Rightarrow> string \<Rightarrow> nat \<Rightarrow> pp_psql_state pp_answer" where
  "pp_psqlc_read s st mem len =
     rbind (speak_psql s PP_PSQLC_ID PP_READ (psql_read st) mem len)
       (\<lambda>(side, r, logs). Inr (st\<lparr>psql_read := side\<rparr>, r, logs))"

definition pp_psqlc_write :: "int \<Rightarrow> pp_psql_state \<Rightarrow> string \<Rightarrow> nat \<Rightarrow> pp_psql_state pp_answer" where
  "pp_psqlc_write s st mem len =
     rbind (speak_psql s PP_PSQLC_ID PP_WRITE (psql_write st) mem len)
       (\<lambda>(side, r, logs). Inr (st\<lparr>psql_write := side\<rparr>, r, logs))"

definition pp_psqls_init :: "int \<Rightarrow> pp_psql_state \<times> logcall list" where
  "pp_psqls_init s =
     (pp_psql_common_init\<lparr>psql_write := psql_side0\<lparr>ps_gotStartup := True\<rparr>\<rparr>,
      [LOGBINiis (SYS ''PP_INIT'') 0 PP_PSQLS_ID s ''psqls''])"

definition pp_psqls_shutdown :: "logcall list" where
  "pp_psqls_shutdown = [LOGBINs (SYS ''PP_SHUTDOWN'') 0 ''psqls'']"

definition pp_psqls_read :: "int \<Rightarrow> pp_psql_state \<Rightarrow> string \<Rightarrow> nat \<Rightarrow> pp_psql_state pp_answer" where
  "pp_psqls_read s st mem len =
     rbind (speak_psql s PP_PSQLS_ID PP_READ (psql_read st) mem len)
       (\<lambda>(side, r, logs). Inr (st\<lparr>psql_read := side\<rparr>, r, logs))"

definition pp_psqls_write :: "int \<Rightarrow> pp_psql_state \<Rightarrow> string \<Rightarrow> nat \<Rightarrow> pp_psql_state pp_answer" where
  "pp_psqls_write s st mem len =
     rbind (speak_psql s PP_PSQLS_ID PP_WRITE (psql_write st) mem len)
       (\<lambda>(side, r, logs). Inr (st\<lparr>psql_write := side\<rparr>, r, logs))"

section \<open>MySQL\<close>

record pp_mysql_state_side =
  my_todo :: "32 word"
  my_id :: "32 word"

record pp_mysql_state =
  mysql_read :: pp_mysql_state_side
  mysql_write :: pp_mysql_state_side

text \<open>A byte read through a \<^verbatim>\<open>char\<close>, which is signed, and promoted to \<^verbatim>\<open>int\<close>.\<close>

definition schar :: "char \<Rightarrow> 32 word" where
  "schar c = signed (of_nat (of_char c) :: 8 word)"

unbundle bit_operations_syntax

definition get_mysql_size :: "string \<Rightarrow> 32 word" where
  "get_mysql_size mem = schar (mem ! 0) OR push_bit 8 (schar (mem ! 1)) OR push_bit 16 (schar (mem ! 2))"

definition mysql_log :: "pp_mysql_state_side \<Rightarrow> int \<Rightarrow> int \<Rightarrow> pp_direction \<Rightarrow> logcall list" where
  "mysql_log state s role dir =
     (let id = sint (my_id state);
          what = (if dir = PP_WRITE then SYS ''PP_MSG_SEND'' else SYS ''PP_MSG_RECV'') in
      if role = PP_MYSQLC_ID then [LOGBINiiis what 0 PP_MYSQLC_ID s id ''mysqlc'']
      else if role = PP_MYSQLS_ID then [LOGBINiiis what 0 PP_MYSQLS_ID s id ''mysqls'']
      else [])"

text \<open>The packet number is copied over the first byte of \<^verbatim>\<open>id\<close>; the other bytes keep their value.\<close>

definition speak_mysql ::
  "int \<Rightarrow> int \<Rightarrow> pp_direction \<Rightarrow> pp_mysql_state_side \<Rightarrow> string \<Rightarrow> nat \<Rightarrow> pp_mysql_state_side pp_answer" where
  "speak_mysql s role dir state mem len =
     (if 0 < my_todo state
      then let used = min len (unat (my_todo state))
           in Inr (state\<lparr>my_todo := my_todo state - of_nat used\<rparr>, int used, [])
      else if len < 4 then Inr (state, - 1, [])
      else let st1 = state\<lparr>my_todo := get_mysql_size mem,
                           my_id := (my_id state AND NOT 255) OR of_nat (of_char (mem ! 3))\<rparr>;
               line = snprintf 67 (''mysql: id='' @ show_d (my_id st1) @ '' todo='' @ show_d (my_todo st1))
           in Inr (st1, 4, LOGBINs (SYS ''PP_DATA'') 0 line # mysql_log st1 s role dir))"

definition mysql_side0 :: pp_mysql_state_side where
  "mysql_side0 = \<lparr> my_todo = 0, my_id = 0 \<rparr>"

definition pp_mysql_common_init :: pp_mysql_state where
  "pp_mysql_common_init = \<lparr> mysql_read = mysql_side0, mysql_write = mysql_side0 \<rparr>"

definition pp_mysqlc_init :: "int \<Rightarrow> pp_mysql_state \<times> logcall list" where
  "pp_mysqlc_init s = (pp_mysql_common_init, [LOGBINiis (SYS ''PP_INIT'') 0 PP_MYSQLC_ID s ''mysqlc''])"

definition pp_mysqlc_shutdown :: "logcall list" where
  "pp_mysqlc_shutdown = [LOGBINs (SYS ''PP_SHUTDOWN'') 0 ''mysqlc'']"

definition pp_mysqlc_read :: "int \<Rightarrow> pp_mysql_state \<Rightarrow> string \<Rightarrow> nat \<Rightarrow> pp_mysql_state pp_answer" where
  "pp_mysqlc_read s st mem len =
     rbind (speak_mysql s PP_MYSQLC_ID PP_READ (mysql_read st) mem len)
       (\<lambda>(side, r, logs). Inr (st\<lparr>mysql_read := side\<rparr>, r, logs))"

definition pp_mysqlc_write :: "int \<Rightarrow> pp_mysql_state \<Rightarrow> string \<Rightarrow> nat \<Rightarrow> pp_mysql_state pp_answer" where
  "pp_mysqlc_write s st mem len =
     rbind (speak_mysql s PP_MYSQLC_ID PP_WRITE (mysql_write st) mem len)
       (\<lambda>(side, r, logs). Inr (st\<lparr>mysql_write := side\<rparr>, r, logs))"

definition pp_mysqls_init :: "int \<Rightarrow> pp_mysql_state \<times> logcall list" where
  "pp_mysqls_init s = (pp_mysql_common_init, [LOGBINiis (SYS ''PP_INIT'') 0 PP_MYSQLS_ID s ''mysqls''])"

definition pp_mysqls_shutdown :: "logcall list" where
  "pp_mysqls_shutdown = [LOGBINs (SYS ''PP_SHUTDOWN'') 0 ''mysqls'']"

definition pp_mysqls_read :: "int \<Rightarrow> pp_mysql_state \<Rightarrow> string \<Rightarrow> nat \<Rightarrow> pp_mysql_state pp_answer" where
  "pp_mysqls_read s st mem len =
     rbind (speak_mysql s PP_MYSQLS_ID PP_READ (mysql_read st) mem len)
       (\<lambda>(side, r, logs). Inr (st\<lparr>mysql_read := side\<rparr>, r, logs))"

definition pp_mysqls_write :: "int \<Rightarrow> pp_mysql_state \<Rightarrow> string \<Rightarrow> nat \<Rightarrow> pp_mysql_state pp_answer" where
  "pp_mysqls_write s st mem len =
     rbind (speak_mysql s PP_MYSQLS_ID PP_WRITE (mysql_write st) mem len)
       (\<lambda>(side, r, logs). Inr (st\<lparr>mysql_write := side\<rparr>, r, logs))"

section \<open>Both keep the contract\<close>

lemma word_pos_unat: "0 < (w :: 32 word) \<Longrightarrow> 0 < unat w"
  by (simp add: word_less_nat_alt)

lemma word_pos_uint: "0 < (w :: 32 word) \<Longrightarrow> 0 < uint w"
  by (simp add: word_less_def)

lemma uint_le_int: "\<not> len < unat (w :: 32 word) \<Longrightarrow> uint w \<le> int len"
  using of_nat_mono [of "unat w" len, where 'a = int] by (simp add: not_less)

lemma int_less_uint: "len < unat (w :: 32 word) \<Longrightarrow> int len < uint w"
  using of_nat_less_iff [of len "unat w", where 'a = int] by simp

lemma unat_sub_of_nat:
  assumes "n \<le> unat (w :: 32 word)"
  shows "unat (w - of_nat n) = unat w - n"
proof -
  have "unat w < 2 ^ 32" using unsigned_less [of w] by simp
  then have "unat (of_nat n :: 32 word) = n" using assms by (simp add: unat_of_nat)
  with assms show ?thesis by (simp add: unat_sub word_le_nat_alt)
qed

lemma uint_not_minus_one: "uint (w :: 32 word) \<noteq> - 1"
  using uint_ge_0 [of w] by linarith

interpretation mysql: pp_contract "speak_mysql s role dir" "\<lambda>_. True"
  for s role dir
proof (unfold_locales, goal_cases)
  case (2 st len mem st' r logs)
  then show ?case by (auto simp: speak_mysql_def Let_def dest: word_pos_unat split: if_splits)
next
  case (3 st len mem st' logs)
  then show ?case by (auto simp: speak_mysql_def Let_def split: if_splits)
next
  case (4 st len mem st' logs len2 mem2 st2 r logs2)
  then show ?case by (auto simp: speak_mysql_def Let_def split: if_splits)
qed simp

interpretation psql: pp_contract "speak_psql s role dir" "\<lambda>_. True"
  for s role dir
proof (unfold_locales, goal_cases)
  case (2 st len mem st' r logs)
  then show ?case
    by (auto simp: speak_psql_def Let_def word_pos_uint uint_le_int dest: word_pos_unat split: if_splits elim!: rbind_InrE)
next
  case (3 st len mem st' logs)
  then show ?case by (auto simp: speak_psql_def Let_def uint_not_minus_one split: if_splits elim!: rbind_InrE)
next
  case (4 st len mem st' logs len2 mem2 st2 r logs2)
  then show ?case by (auto simp: speak_psql_def Let_def uint_not_minus_one int_less_uint split: if_splits elim!: rbind_InrE)
qed simp

section \<open>MySQL messages\<close>

text \<open>The header a plugin in state \<open>st\<close> reads at the head of \<open>bs\<close>: the new state and the log calls.\<close>

definition mysql_header :: "int \<Rightarrow> int \<Rightarrow> pp_direction \<Rightarrow> pp_mysql_state_side \<Rightarrow> string \<Rightarrow> pp_mysql_state_side \<times> logcall list" where
  "mysql_header s role dir st bs =
     (case speak_mysql s role dir (st\<lparr>my_todo := 0\<rparr>) bs 4 of Inl e \<Rightarrow> (st, []) | Inr (st', r, logs) \<Rightarrow> (st', logs))"

definition with_logs :: "logcall list \<Rightarrow> ('st \<times> string \<times> nat \<times> logcall list) result \<Rightarrow> ('st \<times> string \<times> nat \<times> logcall list) result" where
  "with_logs logs x = rbind x (\<lambda>(st, mem, n, logs2). Inr (st, mem, n, logs @ logs2))"

lemma with_logs_simps [simp]:
  "with_logs logs (Inl e) = Inl e" "with_logs logs (Inr (st, mem, n, logs2)) = Inr (st, mem, n, logs @ logs2)"
  "with_logs [] x = x" "with_logs l1 (with_logs l2 x) = with_logs (l1 @ l2) x"
  by (cases x; simp add: with_logs_def split: prod.splits)+

definition mysql_run :: "int \<Rightarrow> int \<Rightarrow> pp_direction \<Rightarrow> pp_mysql_state_side \<Rightarrow> string \<Rightarrow>
  (pp_mysql_state_side \<times> string \<times> nat \<times> logcall list) result" where
  "mysql_run s role dir st bs = pp_consume (speak_mysql s role dir) st bs (length bs)"

lemma mysql_run_Nil [simp]: "mysql_run s role dir st [] = Inr (st, [], 0, [])"
  by (simp add: mysql_run_def pp_consume.simps)

lemma mysql_run_body:
  assumes "bs \<noteq> []" and "0 < my_todo st"
  shows "mysql_run s role dir st bs
     = mysql_run s role dir (st\<lparr>my_todo := my_todo st - of_nat (min (length bs) (unat (my_todo st)))\<rparr>)
         (drop (unat (my_todo st)) bs)"
proof -
  define k where "k = min (length bs) (unat (my_todo st))"
  have k: "0 < k" "k \<le> length bs" using assms word_pos_unat by (simp_all add: k_def)
  have d: "drop k bs = drop (unat (my_todo st)) bs" by (auto simp: k_def min_def)
  have sp: "speak_mysql s role dir st bs (length bs) = Inr (st\<lparr>my_todo := my_todo st - of_nat k\<rparr>, int k, [])"
    using assms(2) by (simp add: speak_mysql_def Let_def k_def)
  have "mysql_run s role dir st bs = with_logs [] (mysql_run s role dir (st\<lparr>my_todo := my_todo st - of_nat k\<rparr>) (drop k bs))"
    unfolding mysql_run_def using assms(1) k by (subst pp_consume.simps) (simp add: sp with_logs_def)
  then show ?thesis by (simp add: d flip: k_def)
qed

lemma mysql_run_wait: "bs \<noteq> [] \<Longrightarrow> my_todo st = 0 \<Longrightarrow> length bs < 4 \<Longrightarrow> mysql_run s role dir st bs = Inr (st, bs, length bs, [])"
  unfolding mysql_run_def by (subst pp_consume.simps) (simp add: speak_mysql_def)

lemma mysql_run_header:
  assumes "my_todo st = 0" and "4 \<le> length bs"
  shows "mysql_run s role dir st bs
     = (case mysql_header s role dir st bs of (st1, logs) \<Rightarrow> with_logs logs (mysql_run s role dir st1 (drop 4 bs)))"
proof -
  have sp: "speak_mysql s role dir st bs (length bs) = Inr (fst (mysql_header s role dir st bs), 4, snd (mysql_header s role dir st bs))"
    using assms by (simp add: mysql_header_def speak_mysql_def Let_def)
  show ?thesis
    unfolding mysql_run_def
    using assms(2) by (subst pp_consume.simps) (auto simp: sp with_logs_def split: prod.splits)
qed

lemma mysql_header_append: "4 \<le> length a \<Longrightarrow> mysql_header s role dir st (a @ b) = mysql_header s role dir st a"
  by (cases "a = []") (simp_all add: mysql_header_def speak_mysql_def Let_def get_mysql_size_def nth_append)

definition mysql_then :: "int \<Rightarrow> int \<Rightarrow> pp_direction \<Rightarrow> string \<Rightarrow>
  (pp_mysql_state_side \<times> string \<times> nat \<times> logcall list) result \<Rightarrow> (pp_mysql_state_side \<times> string \<times> nat \<times> logcall list) result" where
  "mysql_then s role dir b x = rbind x (\<lambda>(st, left, n, logs). with_logs logs (mysql_run s role dir st (left @ b)))"

lemma mysql_then_simps [simp]:
  "mysql_then s role dir b (Inr (st, left, n, logs)) = with_logs logs (mysql_run s role dir st (left @ b))"
  "mysql_then s role dir b (with_logs logs x) = with_logs logs (mysql_then s role dir b x)"
  by (cases x; simp add: mysql_then_def split: prod.splits)+

lemma mysql_run_append: "mysql_run s role dir st (a @ b) = mysql_then s role dir b (mysql_run s role dir st a)"
proof (induction a arbitrary: st rule: length_induct)
  case (1 a)
  show ?case
  proof (cases "a = []")
    case False
    note ne = False
    show ?thesis
    proof (cases "0 < my_todo st")
      case todo: True
      let ?t = "unat (my_todo st)"
      have t: "0 < ?t" by (rule word_pos_unat [OF todo])
      show ?thesis
      proof (cases "?t \<le> length a")
        case True
        have IH: "mysql_run s role dir st' (drop ?t a @ b) = mysql_then s role dir b (mysql_run s role dir st' (drop ?t a))" for st'
          by (rule 1 [rule_format]) (use t ne in simp)
        show ?thesis
          using ne True IH by (simp add: mysql_run_body [OF _ todo] min_def)
      next
        case False
        then have lt: "length a < ?t" by simp
        let ?st = "st\<lparr>my_todo := my_todo st - of_nat (length a)\<rparr>"
        have la: "mysql_run s role dir st a = Inr (?st, [], 0, [])"
          using ne lt by (simp add: mysql_run_body [OF _ todo] min_def)
        have u: "unat (my_todo ?st) = ?t - length a"
          using lt by (simp add: unat_sub_of_nat)
        have todo': "0 < my_todo ?st" using u lt by (simp add: word_less_nat_alt)
        show ?thesis
        proof (cases "b = []")
          case True
          then show ?thesis using la by simp
        next
          case False
          have "my_todo ?st - of_nat (min (length b) (unat (my_todo ?st)))
              = my_todo st - of_nat (min (length a + length b) ?t)"
            using lt u by (cases "length a + length b \<le> ?t") (auto simp: min_def of_nat_diff)
          then have e: "?st\<lparr>my_todo := my_todo ?st - of_nat (min (length b) (unat (my_todo ?st)))\<rparr>
              = st\<lparr>my_todo := my_todo st - of_nat (min (length (a @ b)) ?t)\<rparr>" by simp
          have d: "drop ?t (a @ b) = drop (unat (my_todo ?st)) b" using lt u by simp
          have "mysql_run s role dir st (a @ b) = mysql_run s role dir ?st b"
            using mysql_run_body [OF _ todo, of "a @ b"] mysql_run_body [OF False todo', of s role dir] ne
            unfolding e d by simp
          then show ?thesis using la by simp
        qed
      qed
    next
      case False
      then have todo: "my_todo st = 0" by (simp add: word_gt_0)
      show ?thesis
      proof (cases "length a < 4")
        case True
        then show ?thesis using ne todo mysql_run_wait [of a st] by simp
      next
        case False
        obtain st1 logs where h: "mysql_header s role dir st a = (st1, logs)" by (cases "mysql_header s role dir st a")
        have "mysql_run s role dir st1 (drop 4 a @ b) = mysql_then s role dir b (mysql_run s role dir st1 (drop 4 a))"
          by (rule 1 [rule_format]) (use False ne in simp)
        then show ?thesis
          using False todo h by (simp add: mysql_run_header mysql_header_append)
      qed
    qed
  qed simp
qed

section \<open>Packet lengths\<close>

lemma or_push_bit_of_nat:
  assumes "a < 2 ^ k"
  shows "(of_nat a :: 'a::len word) OR push_bit k (of_nat b) = of_nat (a + 2 ^ k * b)"
proof -
  have lt: "bit a n \<Longrightarrow> n < k" for n
  proof -
    have "a = take_bit k a" using assms by (simp add: take_bit_nat_eq_self)
    then show "bit a n \<Longrightarrow> n < k" by (metis bit_take_bit_iff)
  qed
  have "(of_nat a :: 'a word) OR push_bit k (of_nat b) = of_nat a + push_bit k (of_nat b)"
    by (rule disjunctive_add [symmetric]) (auto simp: bit_push_bit_iff bit_of_nat_iff dest: lt)
  also have "\<dots> = of_nat (a + 2 ^ k * b)" by (simp add: push_bit_eq_mult mult.commute)
  finally show ?thesis .
qed

lemma schar_small: "(of_char c :: nat) < 128 \<Longrightarrow> schar c = of_nat (of_char c)"
  by (simp add: schar_def signed_of_nat signed_take_bit_int_eq_self)

lemma schar_big: "128 \<le> (of_char c :: nat) \<Longrightarrow> schar c = of_int (int (of_char c) - 256)"
proof -
  assume a: "128 \<le> (of_char c :: nat)"
  let ?k = "int (of_char c)"
  have k: "128 \<le> ?k" "?k < 256" using a by simp_all
  have "signed_take_bit 7 ?k = take_bit 8 (?k + 128) - 128"
    by (simp add: signed_take_bit_eq_take_bit_shift)
  also have "take_bit 8 (?k + 128) = ?k - 128"
  proof -
    have "(?k + 128) mod 256 = (?k - 128) mod 256" using mod_add_self2 [of "?k - 128" 256] by (simp add: add.commute)
    then show ?thesis using k by (simp add: take_bit_eq_mod)
  qed
  finally show ?thesis by (simp add: schar_def signed_of_nat)
qed

text \<open>Sizes all of whose three bytes are below 128 are read as they are meant.\<close>

definition plain_size :: "nat \<Rightarrow> bool" where
  "plain_size n \<longleftrightarrow> n < 2 ^ 24 \<and> n mod 256 < 128 \<and> n div 256 mod 256 < 128 \<and> n div 65536 < 128"

lemma get_mysql_size_plain:
  assumes "plain_size n"
  shows "get_mysql_size (le_bytes 3 n @ rest) = of_nat n"
proof -
  define a b c where abc: "a = n mod 256" "b = n div 256 mod 256" "c = n div 65536"
  have lt: "a < 128" "b < 128" "c < 128" using assms by (simp_all add: plain_size_def abc)
  have n: "n = a + 2 ^ 8 * b + 2 ^ 16 * c"
  proof -
    have "n div 256 div 256 = n div 65536" by (simp add: div_mult2_eq [symmetric])
    moreover have p: "(2::nat) ^ 8 = 256" "(2::nat) ^ 16 = 65536" by simp_all
    ultimately show ?thesis
      using div_mult_mod_eq [of n 256] div_mult_mod_eq [of "n div 256" 256] unfolding abc p by linarith
  qed
  have "n div 256 div 256 = c" by (simp add: abc div_mult2_eq [symmetric])
  then have mem: "le_bytes 3 n = [char_of a, char_of b, char_of c]"
    by (simp add: numeral_3_eq_3 abc)
  have s: "schar (char_of x) = of_nat x" if "x < 128" for x using that schar_small [of "char_of x"] by simp
  have "(of_nat a :: 32 word) OR push_bit 8 (of_nat b) OR push_bit 16 (of_nat c) = of_nat a OR of_nat (2 ^ 8 * b + 2 ^ 16 * c)"
    using or_push_bit_of_nat [of "b" 8 "c", where 'a = 32] lt
      or_push_bit_of_nat [of "2 ^ 8 * b" 16 c, where 'a = 32]
    by (simp add: push_bit_eq_mult mult.commute)
  also have "(of_nat a :: 32 word) OR of_nat (2 ^ 8 * b + 2 ^ 16 * c) = of_nat a OR push_bit 8 (of_nat (b + 2 ^ 8 * c))"
    by (simp add: push_bit_eq_mult algebra_simps)
  also have "\<dots> = of_nat (a + 2 ^ 8 * (b + 2 ^ 8 * c))" by (rule or_push_bit_of_nat) (use lt in simp)
  also have "\<dots> = of_nat n" by (simp add: n algebra_simps)
  finally show ?thesis using lt by (simp add: get_mysql_size_def mem s nth_append)
qed

section \<open>Packets\<close>

definition mysql_packet :: "nat \<times> string \<Rightarrow> string" where
  "mysql_packet p = le_bytes 3 (length (snd p)) @ [char_of (fst p)] @ snd p"

definition mysql_packet_ok :: "nat \<times> string \<Rightarrow> bool" where
  "mysql_packet_ok p \<longleftrightarrow> fst p < 256 \<and> plain_size (length (snd p))"

text \<open>The log calls of one packet.\<close>

definition mysql_packet_logs :: "int \<Rightarrow> int \<Rightarrow> pp_direction \<Rightarrow> nat \<times> string \<Rightarrow> logcall list" where
  "mysql_packet_logs s role dir p =
     LOGBINs (SYS ''PP_DATA'') 0 (snprintf 67 (''mysql: id='' @ show_nat (fst p) @ '' todo='' @ show_nat (length (snd p)))) #
     mysql_log \<lparr> my_todo = of_nat (length (snd p)), my_id = of_nat (fst p) \<rparr> s role dir"

lemma sint_of_nat_small: "n < 2 ^ 31 \<Longrightarrow> sint (of_nat n :: 32 word) = int n"
  by (simp add: signed_of_nat signed_take_bit_int_eq_self)

lemma id_and_not_255: "n < 256 \<Longrightarrow> (of_nat n :: 32 word) AND NOT 255 = 0"
proof -
  assume n: "n < 256"
  have m: "(255 :: 32 word) = mask 8" by (simp add: mask_eq_exp_minus_1)
  have "take_bit 8 (of_nat n :: 32 word) = of_nat n"
    using n by (simp add: take_bit_of_nat take_bit_nat_eq_self)
  then have "(of_nat n :: 32 word) AND NOT (mask 8) = of_nat n AND (mask 8 AND NOT (mask 8))"
    by (metis and.assoc take_bit_eq_mask)
  then show ?thesis by (simp add: m)
qed

lemma mysql_header_packet:
  assumes "mysql_packet_ok p" and "unat (my_id st) < 256"
  shows "mysql_header s role dir st (mysql_packet p @ rest)
     = (\<lparr> my_todo = of_nat (length (snd p)), my_id = of_nat (fst p) \<rparr>, mysql_packet_logs s role dir p)"
proof -
  let ?n = "length (snd p)" and ?st = "\<lparr> my_todo = of_nat (length (snd p)), my_id = of_nat (fst p) \<rparr> :: pp_mysql_state_side"
  have ok: "fst p < 256" "plain_size ?n" "?n < 2 ^ 31" using assms(1) by (auto simp: mysql_packet_ok_def plain_size_def)
  have sz: "get_mysql_size (mysql_packet p @ rest) = of_nat ?n"
    using get_mysql_size_plain [OF ok(2)] by (simp add: mysql_packet_def)
  have id: "my_id st AND NOT 255 = 0" using id_and_not_255 [OF assms(2)] by simp
  have b3: "(mysql_packet p @ rest) ! 3 = char_of (fst p)"
    by (simp add: mysql_packet_def nth_append)
  have d: "show_d (of_nat ?n) = show_nat ?n" "show_d (of_nat (fst p)) = show_nat (fst p)"
    using ok sint_of_nat_small [of ?n] sint_of_nat_small [of "fst p"] by (simp_all add: show_d_def show_int_def)
  show ?thesis
    unfolding mysql_header_def speak_mysql_def Let_def
    using ok(1) id by (simp add: sz b3 d mysql_packet_logs_def mysql_log_def)
qed

lemma mysql_run_packet:
  assumes "mysql_packet_ok p" and "my_todo st = 0" and "unat (my_id st) < 256"
  shows "\<exists>st'. my_todo st' = 0 \<and> unat (my_id st') < 256 \<and>
     mysql_run s role dir st (mysql_packet p @ rest) = with_logs (mysql_packet_logs s role dir p) (mysql_run s role dir st' rest)"
proof -
  let ?n = "length (snd p)"
  let ?st1 = "\<lparr> my_todo = of_nat ?n, my_id = of_nat (fst p) \<rparr> :: pp_mysql_state_side"
  have ok: "fst p < 256" "?n < 2 ^ 24" using assms(1) by (auto simp: mysql_packet_ok_def plain_size_def)
  have u: "unat (of_nat ?n :: 32 word) = ?n" "unat (of_nat (fst p) :: 32 word) = fst p" using ok by (simp_all add: unat_of_nat)
  have d4: "drop 4 (mysql_packet p @ rest) = snd p @ rest" "4 \<le> length (mysql_packet p @ rest)" by (simp_all add: mysql_packet_def)
  have h: "mysql_run s role dir st (mysql_packet p @ rest)
      = with_logs (mysql_packet_logs s role dir p) (mysql_run s role dir ?st1 (snd p @ rest))"
    using mysql_run_header [OF assms(2) d4(2)] d4(1) mysql_header_packet [OF assms(1,3)] by simp
  show ?thesis
  proof (cases "?n = 0")
    case True
    then show ?thesis using h u ok(1) by (intro exI [of _ ?st1]) simp
  next
    case False
    let ?st2 = "?st1\<lparr>my_todo := 0\<rparr>"
    have pos: "0 < my_todo ?st1" using False u(1) by (simp add: word_less_nat_alt)
    have "mysql_run s role dir ?st1 (snd p @ rest) = mysql_run s role dir ?st2 rest"
      using mysql_run_body [OF _ pos, of "snd p @ rest"] False u(1) by (simp add: min_def)
    then show ?thesis using h u(2) ok(1) by (intro exI [of _ ?st2]) simp
  qed
qed

lemma mysql_run_packets:
  assumes "list_all mysql_packet_ok ps" and "my_todo st = 0" and "unat (my_id st) < 256"
  shows "\<exists>st'. my_todo st' = 0 \<and>
     mysql_run s role dir st (concat (map mysql_packet ps)) = Inr (st', [], 0, concat (map (mysql_packet_logs s role dir) ps))"
  using assms
proof (induction ps arbitrary: st)
  case (Cons p ps)
  have ok: "mysql_packet_ok p" "list_all mysql_packet_ok ps" using Cons.prems(1) by simp_all
  from mysql_run_packet [OF ok(1) Cons.prems(2,3), of s role dir "concat (map mysql_packet ps)"] obtain st1 where
    1: "my_todo st1 = 0" "unat (my_id st1) < 256"
      "mysql_run s role dir st (mysql_packet p @ concat (map mysql_packet ps))
        = with_logs (mysql_packet_logs s role dir p) (mysql_run s role dir st1 (concat (map mysql_packet ps)))" by blast
  from Cons.IH [OF ok(2) 1(1,2)] 1(3) show ?case by auto
qed (auto intro: exI [of _ st])

section \<open>Properties\<close>

text \<open>
  C23: what the MySQL plugin logs does not depend on how the program cuts its
  messages.  Presenting the bytes \<open>a @ b\<close> at once, or first \<open>a\<close> and then what the plugin left of
  \<open>a\<close> followed by \<open>b\<close>, ends in the same plugin state, leaves the same bytes and makes the same
  log calls in the same order, from every state and for all bytes.
\<close>
theorem mysql_chunk_independent:
  "pp_consume (speak_mysql s role dir) st (a @ b) (length (a @ b))
     = rbind (pp_consume (speak_mysql s role dir) st a (length a)) (\<lambda>(st1, left, n, logs1).
         rbind (pp_consume (speak_mysql s role dir) st1 (left @ b) (length (left @ b)))
           (\<lambda>(st2, left2, n2, logs2). Inr (st2, left2, n2, logs1 @ logs2)))"
  using mysql_run_append [of s role dir st a b]
  by (simp add: mysql_run_def mysql_then_def with_logs_def)

text \<open>
  The length of a MySQL packet is read through signed characters.  A packet of 128
  to 255 bytes is taken for one of almost four gigabytes: the plugin then waits for a
  length that is \<open>2^32 - 256\<close> too large and sees no further packet on the connection.
\<close>
lemma mysql_size_sign_extended:
  assumes "128 \<le> n" and "n < 256"
  shows "unat (get_mysql_size (le_bytes 3 n @ rest)) = 2 ^ 32 - 256 + n"
proof -
  have "n div 256 = 0" using assms(2) by simp
  then have mem: "le_bytes 3 n = [char_of n, char_of (0::nat), char_of (0::nat)]"
    by (simp add: numeral_3_eq_3)
  have c: "schar (char_of n) = of_int (int n - 256)" using schar_big [of "char_of n"] assms by simp
  have z: "schar (char_of (0::nat)) = 0" using schar_small [of "char_of (0::nat)"] by simp
  have "get_mysql_size (le_bytes 3 n @ rest) = of_int (int n - 256)"
    by (simp add: get_mysql_size_def mem c z nth_append)
  then have "uint (get_mysql_size (le_bytes 3 n @ rest)) = (int n - 256) mod 2 ^ 32"
    using uint_word_of_int [of "int n - 256", where 'a = 32] by simp
  also have "\<dots> = int n - 256 + 2 ^ 32"
  proof -
    have "(int n - 256) mod 2 ^ 32 = (int n - 256 + 2 ^ 32) mod 2 ^ 32" by (rule mod_add_self2 [symmetric])
    also have "\<dots> = int n - 256 + 2 ^ 32" using assms by (intro mod_pos_pos_trivial) simp_all
    finally show ?thesis .
  qed
  finally show ?thesis using assms(1) by (simp add: unat_eq_nat_uint)
qed

text \<open>
  A PostgreSQL message without a body stops the plugin.  After a header that
  announces a length of four (as Sync, Flush, BindComplete and others have it) nothing is left
  to skip, but only the end of a body makes the plugin expect the next header: from then on it
  asks for more data whatever it is shown.
\<close>
lemma psql_empty_body_stalls:
  assumes "ps_todo st = 0" and "ps_gotStartup st" and "\<not> ps_gotHeader st" and "5 \<le> len" and "get_int (drop 1 mem) = 4"
  shows "\<exists>st' logs. speak_psql s role dir st mem len = Inr (st', 5, logs) \<and>
     (\<forall>mem2 len2. speak_psql s role dir st' mem2 len2 = Inr (st', - 1, []))"
  using assms by (auto simp: speak_psql_def Let_def)

end
