(* ===== verification/Pp_Misc.thy ===== *)
theory Pp_Misc
  imports Pp_Base
begin

text \<open>
  The smaller plugins of \<^verbatim>\<open>src/trace/protocol.c\<close>: the single-line protocol \<^verbatim>\<open>perlp\<close>, the client
  side of HTTP, X11, FastCGI and the trivial plugin.
\<close>

section \<open>perlp\<close>

record pp_perlp_state =
  c2s_ctr :: int
  s2c_ctr :: int

definition pp_perlps_init :: "int \<Rightarrow> pp_perlp_state \<times> logcall list" where
  "pp_perlps_init s = (\<lparr> c2s_ctr = 0, s2c_ctr = 1 \<rparr>, [LOGBINiis (SYS ''PP_INIT'') 0 PP_PERLS_ID s ''perlps''])"

definition pp_perlps_shutdown :: "logcall list" where
  "pp_perlps_shutdown = [LOGBINi (SYS ''PP_SHUTDOWN'') 0 PP_PERLS_ID]"

text \<open>Both directions count with \<^verbatim>\<open>s2c_ctr\<close>.\<close>

definition pp_perlps_read :: "int \<Rightarrow> pp_perlp_state \<Rightarrow> string \<Rightarrow> nat \<Rightarrow> pp_perlp_state pp_answer" where
  "pp_perlps_read s state mem len =
     Inr (state\<lparr>s2c_ctr := s2c_ctr state + 1\<rparr>, int len,
          [LOGBINiiis (SYS ''PP_MSG_RECV'') 0 PP_PERLS_ID s (s2c_ctr state) ''perlps''])"

definition pp_perlps_write :: "int \<Rightarrow> pp_perlp_state \<Rightarrow> string \<Rightarrow> nat \<Rightarrow> pp_perlp_state pp_answer" where
  "pp_perlps_write s state mem len =
     Inr (state\<lparr>s2c_ctr := s2c_ctr state + 1\<rparr>, int len,
          [LOGBINiiis (SYS ''PP_MSG_SEND'') 0 PP_PERLS_ID s (s2c_ctr state) ''perlps''])"

definition pp_perlpc_read :: "unit \<Rightarrow> string \<Rightarrow> nat \<Rightarrow> unit pp_answer" where
  "pp_perlpc_read u mem len = Inr (u, int len + 1, [])"

definition pp_perlpc_write :: "unit \<Rightarrow> string \<Rightarrow> nat \<Rightarrow> unit pp_answer" where
  "pp_perlpc_write u mem len = Inr (u, int len + 1, [])"

section \<open>httpc and trivial\<close>

definition pp_httpc_read :: "unit \<Rightarrow> string \<Rightarrow> nat \<Rightarrow> unit pp_answer" where
  "pp_httpc_read u mem len = Inr (u, int len, [])"

definition pp_httpc_write :: "unit \<Rightarrow> string \<Rightarrow> nat \<Rightarrow> unit pp_answer" where
  "pp_httpc_write u mem len = Inr (u, int len, [])"

definition pp_trivial_read :: "unit \<Rightarrow> string \<Rightarrow> nat \<Rightarrow> unit pp_answer" where
  "pp_trivial_read u mem len = Inr (u, int len, [])"

definition pp_trivial_write :: "unit \<Rightarrow> string \<Rightarrow> nat \<Rightarrow> unit pp_answer" where
  "pp_trivial_write u mem len = Inr (u, int len, [])"

section \<open>X11\<close>

record pp_x_state =
  x_success :: bool
  x_setup :: int
  x_recvid :: int
  x_sendid :: int

text \<open>\<^verbatim>\<open>setup\<close> is not set until the first answer of the server has been read.\<close>

definition pp_xc_init :: "pp_junk \<Rightarrow> int \<Rightarrow> pp_x_state \<times> logcall list" where
  "pp_xc_init junk s =
     (\<lparr> x_success = False, x_setup = jk_int junk, x_recvid = 0, x_sendid = 0 \<rparr>,
      [LOGBINiis (SYS ''PP_INIT'') 0 PP_XC_ID s ''xc''])"

definition pp_xc_shutdown :: "logcall list" where
  "pp_xc_shutdown = [LOGBINs (SYS ''PP_SHUTDOWN'') 0 ''xc'']"

definition CARD16 :: "string \<Rightarrow> int" where
  "CARD16 c = int (of_char (c ! 1)) * 256 + int (of_char (c ! 0))"

definition pp_xc_read :: "int \<Rightarrow> pp_x_state \<Rightarrow> string \<Rightarrow> nat \<Rightarrow> pp_x_state pp_answer" where
  "pp_xc_read s state mem len =
     (if \<not> x_success state
      then if mem = [] then Inl OutOfBounds
           else if mem ! 0 \<noteq> CHR 0x01 then Inl AssertFail
           else if len < 8 then Inr (state, - 1, [])
           else let setup = 4 * CARD16 (drop 6 mem) in
             Inr (state\<lparr>x_success := True, x_setup := setup, x_recvid := x_recvid state + 1\<rparr>, 8,
                  [LOGBINs (SYS ''PP_REQ_BEGIN'') setup ''xc_read'',
                   LOGBINiiis (SYS ''PP_MSG_RECV'') 0 PP_XC_ID s (x_recvid state) ''xc''])
      else if 0 < x_setup state
      then if int len < x_setup state then Inr (state, - 1, [])
           else Inr (state\<lparr>x_setup := 0\<rparr>, x_setup state, [])
      else if len < 32 then Inr (state, - 1, [])
      else Inr (state, 32, []))"

definition pp_xc_write :: "pp_x_state \<Rightarrow> string \<Rightarrow> nat \<Rightarrow> pp_x_state pp_answer" where
  "pp_xc_write state mem len = Inr (state, int len, [])"

section \<open>FastCGI\<close>

definition FCGI_BEGIN_REQUEST :: nat where "FCGI_BEGIN_REQUEST = 1"
definition FCGI_END_REQUEST :: nat where "FCGI_END_REQUEST = 3"
definition FCGI_PARAMS :: nat where "FCGI_PARAMS = 4"
definition FCGI_STDOUT :: nat where "FCGI_STDOUT = 6"
definition FCGI_HEADER_LEN :: nat where "FCGI_HEADER_LEN = 8"

definition type_of_record :: "nat \<Rightarrow> string" where
  "type_of_record num =
     (if num = 1 then ''FCGI_BEGIN_REQUEST'' else if num = 2 then ''FCGI_ABORT_REQUEST''
      else if num = 3 then ''FCGI_END_REQUEST'' else if num = 4 then ''FCGI_PARAMS''
      else if num = 5 then ''FCGI_STDIN'' else if num = 6 then ''FCGI_STDOUT''
      else if num = 7 then ''FCGI_STDERR'' else if num = 8 then ''FCGI_DATA''
      else if num = 9 then ''FCGI_GET_VALUES'' else if num = 10 then ''FCGI_GET_VALUES_RESULT''
      else ''FCGI_UNKNOWN_TYPE'')"

record FCGI_REC =
  f_type :: nat
  f_requestId :: int
  f_contentLength :: int
  f_paddingLength :: int

definition fcgi_rec :: "string \<Rightarrow> FCGI_REC" where
  "fcgi_rec c =
     \<lparr> f_type = of_char (c ! 1), f_requestId = int (of_char (c ! 2)) * 256 + int (of_char (c ! 3)),
       f_contentLength = int (of_char (c ! 4)) * 256 + int (of_char (c ! 5)),
       f_paddingLength = int (of_char (c ! 6)) \<rparr>"

record pp_fcgi_state =
  fc_success :: bool
  fc_conlen :: int
  fc_padlen :: int
  fc_stream_type :: "string option"
  fc_reqId :: int
  fc_done :: bool

record pp_fcgi_state_wrap =
  fcgi_read :: pp_fcgi_state
  fcgi_write :: pp_fcgi_state

definition fcgi_side0 :: pp_fcgi_state where
  "fcgi_side0 = \<lparr> fc_success = False, fc_conlen = 0, fc_padlen = 0, fc_stream_type = None, fc_reqId = - 1, fc_done = False \<rparr>"

definition pp_fcgi_init_help :: pp_fcgi_state_wrap where
  "pp_fcgi_init_help = \<lparr> fcgi_read = fcgi_side0, fcgi_write = fcgi_side0 \<rparr>"

text \<open>
  The header branch: state and log calls for one record header.
\<close>

definition fcgi_header :: "int \<Rightarrow> int \<Rightarrow> pp_direction \<Rightarrow> pp_fcgi_state \<Rightarrow> string \<Rightarrow> pp_fcgi_state \<times> logcall list" where
  "fcgi_header s role d state cbuf =
     (let f = fcgi_rec cbuf;
          sarg = (if role = PP_FCGIS_ID then ''fcgis'' else ''fcgic'');
          st1 = state\<lparr>fc_reqId := f_requestId f, fc_conlen := f_contentLength f, fc_padlen := f_paddingLength f,
                      fc_success := (f_contentLength f + f_paddingLength f \<noteq> 0),
                      fc_stream_type := (if f_type f = FCGI_PARAMS then Some ''PARAMS:'' else fc_stream_type state)\<rparr>;
          msg = [LOGBINiiis (SYS (if d = PP_READ then ''PP_MSG_RECV'' else ''PP_MSG_SEND''))
                   (int (f_type f)) role s (f_requestId f) sarg]
      in (if f_type f = FCGI_STDOUT then st1\<lparr>fc_done := True\<rparr> else st1,
          LOGBINs (SYS ''PP_FCGI_HMM'') 0 (type_of_record (f_type f)) #
          (if f_type f = FCGI_BEGIN_REQUEST \<or> f_type f = FCGI_END_REQUEST \<or> f_type f = FCGI_STDOUT then msg else [])))"

text \<open>
  The copy of a parameter record into \<^verbatim>\<open>char tmp[1024]\<close> and its use as a string: a negative
  count or one above 1024 leaves the array, and nothing terminates the string but what the
  array held.
\<close>

definition fcgi_params :: "pp_junk \<Rightarrow> int \<Rightarrow> string \<Rightarrow> nat \<Rightarrow> string result" where
  "fcgi_params junk conlen cbuf len =
     (let l = conlen - 2; n = (if int len < l then int len else l) in
      if n < 0 \<or> 1024 < n then Inl OutOfBounds
      else rbind (strncpy (nat n) (drop 2 cbuf)) (\<lambda>t. c_string (poke (jk_stack junk) 0 t)))"

definition speak_fcgi ::
  "pp_junk \<Rightarrow> int \<Rightarrow> int \<Rightarrow> pp_direction \<Rightarrow> pp_fcgi_state \<Rightarrow> string \<Rightarrow> nat \<Rightarrow> pp_fcgi_state pp_answer" where
  "speak_fcgi junk s role d state cbuf len =
     (if fc_done state then Inr (state, int len, [])
      else if \<not> fc_success state
      then if len < FCGI_HEADER_LEN then Inr (state, - 1, [])
           else case fcgi_header s role d state cbuf of (st1, logs) \<Rightarrow> Inr (st1, int FCGI_HEADER_LEN, logs)
      else let toread = fc_conlen state + fc_padlen state in
        if \<not> 0 < toread then Inl AssertFail
        else if toread \<le> int len
        then rbind (case fc_stream_type state of
                      None \<Rightarrow> Inr []
                    | Some t \<Rightarrow> rbind (fcgi_params junk (fc_conlen state) cbuf len) (\<lambda>p. Inr [LOGBINss (SYS ''PP_PROP'') 0 t p]))
               (\<lambda>logs. Inr (state\<lparr>fc_stream_type := None, fc_success := False, fc_conlen := - 1, fc_padlen := - 1,
                                  fc_reqId := - 1\<rparr>, toread, logs))
        else Inr (state, int len, []))"

definition pp_fcgis_init :: "int \<Rightarrow> pp_fcgi_state_wrap \<times> logcall list" where
  "pp_fcgis_init s = (pp_fcgi_init_help, [LOGBINiis (SYS ''PP_INIT'') 0 PP_FCGIS_ID s ''fcgis''])"

definition pp_fcgis_shutdown :: "logcall list" where
  "pp_fcgis_shutdown = [LOGBINs (SYS ''PP_SHUTDOWN'') 0 ''fcgis'']"

definition pp_fcgis_read :: "pp_junk \<Rightarrow> int \<Rightarrow> pp_fcgi_state_wrap \<Rightarrow> string \<Rightarrow> nat \<Rightarrow> pp_fcgi_state_wrap pp_answer" where
  "pp_fcgis_read junk s st mem len =
     rbind (speak_fcgi junk s PP_FCGIS_ID PP_READ (fcgi_read st) mem len)
       (\<lambda>(side, r, logs). Inr (st\<lparr>fcgi_read := side\<rparr>, r, logs))"

definition pp_fcgis_write :: "pp_junk \<Rightarrow> int \<Rightarrow> pp_fcgi_state_wrap \<Rightarrow> string \<Rightarrow> nat \<Rightarrow> pp_fcgi_state_wrap pp_answer" where
  "pp_fcgis_write junk s st mem len =
     rbind (speak_fcgi junk s PP_FCGIS_ID PP_WRITE (fcgi_write st) mem len)
       (\<lambda>(side, r, logs). Inr (st\<lparr>fcgi_write := side\<rparr>, r, logs))"

definition pp_fcgic_init :: "int \<Rightarrow> pp_fcgi_state_wrap \<times> logcall list" where
  "pp_fcgic_init s = (pp_fcgi_init_help, [LOGBINiis (SYS ''PP_INIT'') 0 PP_FCGIC_ID s ''fcgic''])"

definition pp_fcgic_shutdown :: "logcall list" where
  "pp_fcgic_shutdown = [LOGBINs (SYS ''PP_SHUTDOWN'') 0 ''fcgic'']"

definition pp_fcgic_read :: "pp_junk \<Rightarrow> int \<Rightarrow> pp_fcgi_state_wrap \<Rightarrow> string \<Rightarrow> nat \<Rightarrow> pp_fcgi_state_wrap pp_answer" where
  "pp_fcgic_read junk s st mem len =
     rbind (speak_fcgi junk s PP_FCGIC_ID PP_READ (fcgi_read st) mem len)
       (\<lambda>(side, r, logs). Inr (st\<lparr>fcgi_read := side\<rparr>, r, logs))"

definition pp_fcgic_write :: "pp_junk \<Rightarrow> int \<Rightarrow> pp_fcgi_state_wrap \<Rightarrow> string \<Rightarrow> nat \<Rightarrow> pp_fcgi_state_wrap pp_answer" where
  "pp_fcgic_write junk s st mem len =
     rbind (speak_fcgi junk s PP_FCGIC_ID PP_WRITE (fcgi_write st) mem len)
       (\<lambda>(side, r, logs). Inr (st\<lparr>fcgi_write := side\<rparr>, r, logs))"

section \<open>They keep the contract\<close>

interpretation perlps_r: pp_contract "pp_perlps_read s" "\<lambda>_. True" for s
  by unfold_locales (auto simp: pp_perlps_read_def)

interpretation perlps_w: pp_contract "pp_perlps_write s" "\<lambda>_. True" for s
  by unfold_locales (auto simp: pp_perlps_write_def)

interpretation httpc_r: pp_contract pp_httpc_read "\<lambda>_. True"
  by unfold_locales (auto simp: pp_httpc_read_def)

interpretation httpc_w: pp_contract pp_httpc_write "\<lambda>_. True"
  by unfold_locales (auto simp: pp_httpc_write_def)

interpretation trivial_r: pp_contract pp_trivial_read "\<lambda>_. True"
  by unfold_locales (auto simp: pp_trivial_read_def)

interpretation trivial_w: pp_contract pp_trivial_write "\<lambda>_. True"
  by unfold_locales (auto simp: pp_trivial_write_def)

interpretation xc_w: pp_contract pp_xc_write "\<lambda>_. True"
  by unfold_locales (auto simp: pp_xc_write_def)

interpretation xc_r: pp_contract "pp_xc_read s" "\<lambda>_. True" for s
proof (unfold_locales, goal_cases)
  case (2 st len mem st' r logs)
  then show ?case by (auto simp: pp_xc_read_def Let_def split: if_splits)
next
  case (3 st len mem st' logs)
  then show ?case by (auto simp: pp_xc_read_def Let_def split: if_splits)
next
  case (4 st len mem st' logs len2 mem2 st2 r logs2)
  then show ?case by (auto simp: pp_xc_read_def Let_def split: if_splits)
qed simp

text \<open>A FastCGI side that has read a header has a body to read.\<close>

definition fcgi_wf :: "pp_fcgi_state \<Rightarrow> bool" where
  "fcgi_wf st \<longleftrightarrow> (fc_success st \<longrightarrow> 0 < fc_conlen st + fc_padlen st)"

lemma fcgi_header_wf: "fcgi_header s role d st mem = (st', logs) \<Longrightarrow> fcgi_wf st'"
  by (auto simp: fcgi_header_def fcgi_wf_def fcgi_rec_def Let_def split: if_splits)

interpretation fcgi: pp_contract "speak_fcgi junk s role d" fcgi_wf for junk s role d
proof (unfold_locales, goal_cases)
  case (1 st len mem st' r logs)
  then show ?case
    by (auto simp: speak_fcgi_def Let_def fcgi_wf_def [of "_ \<lparr>fc_success := False\<rparr>"] elim!: rbind_InrE
        split: if_splits prod.splits dest: fcgi_header_wf) (auto simp: fcgi_wf_def)
next
  case (2 st len mem st' r logs)
  then show ?case
    by (auto simp: speak_fcgi_def Let_def FCGI_HEADER_LEN_def elim!: rbind_InrE split: if_splits prod.splits)
next
  case (3 st len mem st' logs)
  then show ?case
    by (auto simp: speak_fcgi_def Let_def FCGI_HEADER_LEN_def elim!: rbind_InrE split: if_splits prod.splits)
next
  case (4 st len mem st' logs len2 mem2 st2 r logs2)
  then show ?case
    by (auto simp: speak_fcgi_def Let_def FCGI_HEADER_LEN_def elim!: rbind_InrE split: if_splits prod.splits)
qed

definition junk0 :: pp_junk where
  "junk0 = \<lparr> jk_heap = NUL, jk_stack = replicate 1024 NUL, jk_int = 0 \<rparr>"

section \<open>Properties\<close>

text \<open>
  A FastCGI body that arrives in pieces throws the plugin off.  The bytes of a
  piece are subtracted from a local variable only: after \<open>k\<close> bytes of a body of \<open>n\<close> the plugin is
  in the state it was in before, so it takes another \<open>n\<close> bytes for the body, \<open>k\<close> of which
  belong to the records behind it.
\<close>
lemma fcgi_split_body_overruns:
  assumes "fc_success st" and "\<not> fc_done st" and "fc_stream_type st = None"
    and "n = fc_conlen st + fc_padlen st" and "0 < k" and "int k < n" and "n \<le> int len"
  shows "\<exists>st'. speak_fcgi junk s role d st mem k = Inr (st, int k, []) \<and>
     speak_fcgi junk s role d st mem2 len = Inr (st', n, []) \<and> \<not> fc_success st'"
  using assms by (simp add: speak_fcgi_def)

end
