(* ===== verification/Pp_Http.thy ===== *)
theory Pp_Http
  imports Pp_Base
begin

text \<open>
  The server side of HTTP in \<^verbatim>\<open>src/trace/protocol.c\<close>: requests are recognised by the blank line
  that ends their head and described by method, URL and version; responses by their status and
  the length of their body.
\<close>

section \<open>State\<close>

record pp_http_state_read =
  hr_done :: bool
  hr_awaitHeader :: bool
  hr_awaitCL :: bool
  hr_version :: int
  hr_seqno :: int
  hr_toread :: int

record pp_http_state_write =
  hw_done :: bool
  hw_awaitStatus :: bool
  hw_toread :: int
  hw_seqno :: int

record pp_http_state =
  http_read :: pp_http_state_read
  http_write :: pp_http_state_write

definition http_read0 :: pp_http_state_read where
  "http_read0 = \<lparr> hr_done = False, hr_awaitHeader = True, hr_awaitCL = False, hr_version = - 1, hr_seqno = 0, hr_toread = 0 \<rparr>"

definition http_write0 :: pp_http_state_write where
  "http_write0 = \<lparr> hw_done = False, hw_awaitStatus = True, hw_toread = 0, hw_seqno = 0 \<rparr>"

definition pp_https_init :: "int \<Rightarrow> pp_http_state \<times> logcall list" where
  "pp_https_init s = (\<lparr> http_read = http_read0, http_write = http_write0 \<rparr>,
                      [LOGBINiis (SYS ''PP_INIT'') 0 PP_HTTPS_ID s ''https''])"

definition pp_https_shutdown :: "logcall list" where
  "pp_https_shutdown = [LOGBINis (SYS ''PP_SHUTDOWN'') 0 PP_HTTPS_ID ''https'']"

abbreviation blank_line :: string where
  "blank_line \<equiv> [CR, LF, CR, LF]"

definition null_str :: "string option \<Rightarrow> string" where
  "null_str t = (case t of None \<Rightarrow> ''null'' | Some s \<Rightarrow> s)"

text \<open>\<^verbatim>\<open>strtok(NULL, delims)\<close> on what the last call left; \<open>None\<close> when there was no token already.\<close>

definition strtok_next :: "string \<Rightarrow> string option \<Rightarrow> string option \<times> string option" where
  "strtok_next delims rest =
     (case rest of None \<Rightarrow> (None, None)
      | Some s \<Rightarrow> (case strtok delims s of None \<Rightarrow> (None, Some []) | Some (tok, s') \<Rightarrow> (Some tok, Some s')))"

section \<open>Requests\<close>

text \<open>
  The method, URL and version tokens of a head and their log calls.
\<close>

definition https_props :: "string \<Rightarrow> string option \<times> logcall list" where
  "https_props head =
     (let (meth, r1) = strtok_next [CHR '' '', CR] (Some head);
          (url, r2) = strtok_next [CHR '' '', CR] r1;
          (version, r3) = strtok_next [CHR '' '', CR] r2
      in (version,
          [LOGBINss (SYS ''PP_PROP'') 0 ''METHOD'' (null_str meth),
           LOGBINss (SYS ''PP_PROP'') 0 ''URL'' (null_str url),
           LOGBINss (SYS ''PP_PROP'') 0 ''VERSION'' (null_str version)]))"

definition pp_https_read_side ::
  "pp_junk \<Rightarrow> int \<Rightarrow> pp_http_state_read \<Rightarrow> string \<Rightarrow> nat \<Rightarrow> pp_http_state_read pp_answer" where
  "pp_https_read_side junk s state mem len =
     (if hr_done state then Inr (state, int len, [])
      else if hr_awaitHeader state
      then rbind (mem_strstr blank_line mem) (\<lambda>end_ofs.
        case end_ofs of
          None \<Rightarrow> Inr (state, - 1, [])
        | Some e \<Rightarrow>
            rbind (strncpy len mem) (\<lambda>copy.
            rbind (c_string (copy @ [jk_heap junk])) (\<lambda>tmp.
              let st1 = state\<lparr>hr_awaitHeader := False, hr_seqno := hr_seqno state + 1\<rparr>;
                  (version, props) = https_props tmp;
                  logs = [LOGBINiiis (SYS ''PP_MSG_RECV'') 0 PP_HTTPS_ID s (hr_seqno state) ''https'',
                          LOGBINs (SYS ''HTTPS_READ'') (int len) tmp] @ props
              in case version of
                   None \<Rightarrow> Inl NullDeref
                 | Some v \<Rightarrow>
                     if strstr ''HTTP/1.0'' v \<noteq> None
                     then Inr (st1\<lparr>hr_version := 0, hr_done := True\<rparr>, int e + 4, logs)
                     else if strstr ''HTTP/1.1'' v \<noteq> None
                     then Inr (st1\<lparr>hr_version := 1, hr_awaitHeader := True\<rparr>, int e + 4, logs)
                     else Inl AssertFail)))
      else if 0 < hr_toread state then Inr (state, - 1, [])
      else Inl AssertFail)"

definition pp_https_read :: "pp_junk \<Rightarrow> int \<Rightarrow> pp_http_state \<Rightarrow> string \<Rightarrow> nat \<Rightarrow> pp_http_state pp_answer" where
  "pp_https_read junk s st mem len =
     rbind (pp_https_read_side junk s (http_read st) mem len)
       (\<lambda>(side, r, logs). Inr (st\<lparr>http_read := side\<rparr>, r, logs))"

section \<open>Responses\<close>

text \<open>
  \<^verbatim>\<open>strtok\<close> on the local array \<^verbatim>\<open>tmp[1024]\<close>, which \<^verbatim>\<open>strncpy\<close> need not terminate: the token, if
  any, and the memory at which the next call goes on.  It leaves the array when it meets neither
  a delimiter nor a NUL.
\<close>

definition mem_strtok :: "string \<Rightarrow> string \<Rightarrow> (string option \<times> string) result" where
  "mem_strtok delims mem =
     (let m = dropWhile (\<lambda>c. c \<in> set delims) mem in
      if m = [] then Inl OutOfBounds
      else if hd m = NUL then Inr (None, m)
      else let tok = takeWhile (\<lambda>c. c \<notin> set delims \<and> c \<noteq> NUL) m; rest = drop (length tok) m in
        if rest = [] then Inl OutOfBounds
        else if hd rest = NUL then Inr (Some tok, rest)
        else Inr (Some tok, tl rest))"

lemma mem_strtok_shorter: "NUL \<notin> set delims \<Longrightarrow> mem_strtok delims mem = Inr (Some tok, rest) \<Longrightarrow> length rest < length mem"
proof -
  assume nd: "NUL \<notin> set delims" and a: "mem_strtok delims mem = Inr (Some tok, rest)"
  define m where "m = dropWhile (\<lambda>c. c \<in> set delims) mem"
  from a have m: "m \<noteq> []" "hd m \<noteq> NUL" "tok = takeWhile (\<lambda>c. c \<notin> set delims \<and> c \<noteq> NUL) m"
    and r: "rest = drop (length tok) m \<or> rest = tl (drop (length tok) m)"
    by (auto simp: mem_strtok_def m_def [symmetric] Let_def split: if_splits)
  have "hd m \<notin> set delims" using m(1) hd_dropWhile [of "\<lambda>c. c \<in> set delims" mem] by (simp add: m_def)
  then have "tok \<noteq> []" using m by (cases m) auto
  then have "length rest < length m" using r m(1) by (cases tok) (auto simp: less_Suc_eq_le)
  also have "\<dots> \<le> length mem" by (simp add: m_def length_dropWhile_le)
  finally show ?thesis .
qed

text \<open>
  The loop over the header lines: it stops at a \<^verbatim>\<open>Content-Length\<close>, whose value is read from
  \<^verbatim>\<open>&line[17]\<close> on, or at \<^verbatim>\<open>Connection: close\<close>.  A line of only sixteen characters has its
  terminator at 16, and the value is what follows it in the array.
\<close>

definition line_from_17 :: "string \<Rightarrow> string \<Rightarrow> string result" where
  "line_from_17 line rest =
     (if 17 \<le> length line then Inr (drop 17 line)
      else c_string (if rest \<noteq> [] \<and> hd rest = NUL then tl rest else rest))"

function https_lines :: "string \<Rightarrow> pp_http_state_write \<Rightarrow> (pp_http_state_write \<times> logcall list) result" where
  "https_lines mem state =
     (case mem_strtok [CR] mem of
        Inl e \<Rightarrow> Inl e
      | Inr (None, rest) \<Rightarrow> Inr (state, [])
      | Inr (Some line, rest) \<Rightarrow>
          if strstr ''Content-Length: '' line \<noteq> None
          then rbind (line_from_17 line rest) (\<lambda>v.
                 Inr (state\<lparr>hw_toread := atoi v\<rparr>, [LOGBINss (SYS ''PP_PROP'') 0 ''CLEN'' v]))
          else if strstr ''Connection: close'' line \<noteq> None then Inr (state\<lparr>hw_done := True\<rparr>, [])
          else https_lines rest state)"
  by pat_completeness auto
termination
  by (relation "measure (\<lambda>(mem, state). length mem)") (auto dest: mem_strtok_shorter [rotated])

declare https_lines.simps [simp del]

definition pp_https_write_side ::
  "int \<Rightarrow> pp_http_state_write \<Rightarrow> string \<Rightarrow> nat \<Rightarrow> pp_http_state_write pp_answer" where
  "pp_https_write_side s state mem len =
     (if hw_done state then Inr (state, int len, [])
      else if hw_toread state \<noteq> 0
      then let consumed = (if hw_toread state < int len then hw_toread state else int len);
               toread = hw_toread state - consumed
           in Inr (state\<lparr>hw_toread := toread, hw_awaitStatus := (hw_awaitStatus state \<or> toread = 0)\<rparr>, consumed, [])
      else if hw_awaitStatus state
      then rbind (mem_strstr blank_line mem) (\<lambda>end_ofs.
        case end_ofs of
          None \<Rightarrow> Inr (state, - 1, [])
        | Some e \<Rightarrow>
            rbind (strncpy 1024 mem) (\<lambda>tmp.
            rbind (mem_strtok [CHR '' '', CR] tmp) (\<lambda>(version, r1).
            rbind (mem_strtok [CHR '' '', CR] r1) (\<lambda>(status, r2).
            rbind (https_lines r2 (state\<lparr>hw_awaitStatus := False\<rparr>)) (\<lambda>(st1, lines).
              Inr (st1\<lparr>hw_seqno := hw_seqno st1 + 1\<rparr>, int e + 4,
                   [LOGBINss (SYS ''PP_PROP'') 0 ''VERSION'' (null_str version),
                    LOGBINss (SYS ''PP_PROP'') 0 ''STATUS'' (null_str status)] @ lines @
                   [LOGBINiiis (SYS ''PP_MSG_SEND'') 0 PP_HTTPS_ID s (hw_seqno st1) ''https'']))))))
      else Inr (state, int len, []))"

definition pp_https_write :: "int \<Rightarrow> pp_http_state \<Rightarrow> string \<Rightarrow> nat \<Rightarrow> pp_http_state pp_answer" where
  "pp_https_write s st mem len =
     rbind (pp_https_write_side s (http_write st) mem len)
       (\<lambda>(side, r, logs). Inr (st\<lparr>http_write := side\<rparr>, r, logs))"

section \<open>The tokens of a request\<close>

definition token :: "string \<Rightarrow> bool" where
  "token t \<longleftrightarrow> t \<noteq> [] \<and> CHR '' '' \<notin> set t \<and> CR \<notin> set t \<and> NUL \<notin> set t"

lemma takeWhile_token:
  "P c \<Longrightarrow> (\<And>x. x \<in> set t \<Longrightarrow> \<not> P x) \<Longrightarrow> takeWhile (\<lambda>x. \<not> P x) (t @ c # rest) = t"
  by (induction t) auto

lemma strtok_token:
  assumes "t \<noteq> []" and "set t \<inter> set delims = {}" and "c \<in> set delims"
  shows "strtok delims (t @ c # rest) = Some (t, rest)"
proof -
  have d: "dropWhile (\<lambda>x. x \<in> set delims) (t @ c # rest) = t @ c # rest"
    using assms by (cases t) auto
  have "takeWhile (\<lambda>x. x \<notin> set delims) (t @ c # rest) = t" "dropWhile (\<lambda>x. x \<notin> set delims) (t @ c # rest) = c # rest"
    using assms by (auto simp: takeWhile_append dropWhile_append)
  then show ?thesis using d by (simp add: strtok_def Let_def)
qed

lemma https_props_request:
  assumes "token m" and "token u" and "token v"
  shows "https_props (m @ '' '' @ u @ '' '' @ v @ CR # rest)
     = (Some v, [LOGBINss (SYS ''PP_PROP'') 0 ''METHOD'' m, LOGBINss (SYS ''PP_PROP'') 0 ''URL'' u,
                 LOGBINss (SYS ''PP_PROP'') 0 ''VERSION'' v])"
proof -
  have t: "strtok [CHR '' '', CR] (m @ CHR '' '' # x) = Some (m, x)"
    "strtok [CHR '' '', CR] (u @ CHR '' '' # x) = Some (u, x)"
    "strtok [CHR '' '', CR] (v @ CR # x) = Some (v, x)" for x
    using assms by (auto intro!: strtok_token simp: token_def)
  show ?thesis by (simp add: https_props_def strtok_next_def t null_str_def)
qed

lemma takeWhile_not_NUL: "NUL \<notin> set a \<Longrightarrow> takeWhile (\<lambda>c. c \<noteq> NUL) (a @ b) = a @ takeWhile (\<lambda>c. c \<noteq> NUL) b"
  by (induction a) auto

lemma takeWhile_all_NUL: "NUL \<notin> set a \<Longrightarrow> takeWhile (\<lambda>c. c \<noteq> NUL) a = a"
  using takeWhile_not_NUL [of a "[]"] by simp

lemma strncpy_exact: "NUL \<notin> set a \<Longrightarrow> strncpy (length a) (a @ b) = Inr a"
  by (simp add: strncpy_def takeWhile_all_NUL Let_def)

lemma length_takeWhile_NUL: "NUL \<in> set b \<Longrightarrow> length (takeWhile (\<lambda>c. c \<noteq> NUL) (take k b)) < length b"
proof (induction b arbitrary: k)
  case (Cons c b)
  then show ?case by (cases k) auto
qed simp

lemma strncpy_longer:
  assumes "NUL \<notin> set h" and "length h \<le> n" and "NUL \<in> set b"
  shows "\<exists>x. strncpy n (h @ b) = Inr (h @ x)"
proof -
  let ?t = "takeWhile (\<lambda>c. c \<noteq> NUL) (take (n - length h) b)"
  have t: "takeWhile (\<lambda>c. c \<noteq> NUL) (take n (h @ b)) = h @ ?t"
    using assms(1,2) by (simp add: takeWhile_not_NUL)
  have "length ?t < length b"
    by (rule length_takeWhile_NUL [OF assms(3)])
  then show ?thesis unfolding strncpy_def t Let_def by simp
qed

lemma strstr_append: "strstr needle h = Some i \<Longrightarrow> strstr needle (h @ x) = Some i"
proof (induction h arbitrary: i)
  case Nil
  then show ?case by (cases x) (auto split: if_splits)
next
  case (Cons c h)
  show ?case
  proof (cases "take (length needle) (c # h) = needle")
    case True
    then have "length needle \<le> length (c # h)" by (metis length_take min.cobounded1)
    then have "take (length needle) ((c # h) @ x) = needle" using True by (simp only: take_append) simp
    then show ?thesis using Cons.prems True by simp
  next
    case False
    then obtain j where j: "strstr needle h = Some j" "i = Suc j" using Cons.prems by auto
    have "j + length needle \<le> length h" using strstr_SomeD [OF j(1)] by simp
    then have "length needle \<le> length (c # h)" by simp
    then have "take (length needle) ((c # h) @ x) \<noteq> needle" using False by (simp only: take_append) simp
    then show ?thesis using Cons.IH [OF j(1)] j(2) by simp
  qed
qed

lemma mem_strstr_head:
  assumes "NUL \<notin> set h" and "strstr needle h = Some i"
  shows "mem_strstr needle (h @ b) = Inr (Some i)"
  using assms strstr_append [OF assms(2)] by (simp add: mem_strstr_def takeWhile_not_NUL)

lemma mem_strtok_token:
  assumes "t \<noteq> []" and "set t \<inter> set delims = {}" and "NUL \<notin> set t" and "c \<in> set delims" and "c \<noteq> NUL"
  shows "mem_strtok delims (t @ c # rest) = Inr (Some t, rest)"
proof -
  have d: "dropWhile (\<lambda>x. x \<in> set delims) (t @ c # rest) = t @ c # rest"
    using assms by (cases t) auto
  have tw: "takeWhile (\<lambda>x. x \<notin> set delims \<and> x \<noteq> NUL) (t @ c # rest) = t"
  proof -
    have "\<forall>x \<in> set t. x \<notin> set delims \<and> x \<noteq> NUL" using assms(2,3) by auto
    then show ?thesis using assms(4) by (simp add: takeWhile_append2)
  qed
  have "hd (t @ c # rest) \<noteq> NUL" using assms(1,3) by (cases t) auto
  then show ?thesis using assms(5) by (simp add: mem_strtok_def d tw Let_def)
qed

lemma https_lines_content_length:
  assumes "reason \<noteq> []" and "CR \<notin> set reason" and "NUL \<notin> set reason"
    and "strstr ''Content-Length: '' reason = None" and "strstr ''Connection: close'' reason = None"
    and "n < 2 ^ 31"
  shows "https_lines (reason @ CR # LF # ''Content-Length: '' @ show_nat n @ CR # rest) st
     = Inr (st\<lparr>hw_toread := int n\<rparr>, [LOGBINss (SYS ''PP_PROP'') 0 ''CLEN'' (show_nat n)])"
proof -
  let ?line = "LF # ''Content-Length: '' @ show_nat n"
  have digits: "CR \<notin> set (show_nat n)" "NUL \<notin> set (show_nat n)"
    using show_nat_digits [of CR n] show_nat_digits [of NUL n] by (auto simp: is_digit_def)
  have t1: "mem_strtok [CR] (reason @ CR # ?line @ CR # rest) = Inr (Some reason, ?line @ CR # rest)"
    by (rule mem_strtok_token) (use assms in auto)
  have t2: "mem_strtok [CR] (?line @ CR # rest) = Inr (Some ?line, rest)"
    by (rule mem_strtok_token) (use digits in auto)
  have cl: "strstr ''Content-Length: '' ?line \<noteq> None"
    using strstr_least [of "''Content-Length: ''" 1 ?line] by auto
  have v: "line_from_17 ?line rest = Inr (show_nat n)" by (simp add: line_from_17_def)
  have "https_lines (?line @ CR # rest) st
      = Inr (st\<lparr>hw_toread := atoi (show_nat n)\<rparr>, [LOGBINss (SYS ''PP_PROP'') 0 ''CLEN'' (show_nat n)])"
    by (subst https_lines.simps) (simp add: t2 [simplified] cl [simplified] v [simplified])
  moreover have "https_lines (reason @ CR # ?line @ CR # rest) st = https_lines (?line @ CR # rest) st"
    by (subst https_lines.simps) (simp add: t1 [simplified] assms(4,5))
  ultimately show ?thesis using assms(6) by (simp add: atoi_show_nat)
qed

definition response_head :: "string \<Rightarrow> string \<Rightarrow> string \<Rightarrow> nat \<Rightarrow> string \<Rightarrow> string" where
  "response_head v c reason n rest =
     v @ '' '' @ c @ '' '' @ reason @ CR # LF # ''Content-Length: '' @ show_nat n @ CR # rest"

definition plain_reason :: "string \<Rightarrow> bool" where
  "plain_reason r \<longleftrightarrow> r \<noteq> [] \<and> CR \<notin> set r \<and> NUL \<notin> set r \<and>
     strstr ''Content-Length: '' r = None \<and> strstr ''Connection: close'' r = None"

definition response_logs :: "int \<Rightarrow> int \<Rightarrow> string \<Rightarrow> string \<Rightarrow> nat \<Rightarrow> logcall list" where
  "response_logs s seqno v c n =
     [LOGBINss (SYS ''PP_PROP'') 0 ''VERSION'' v, LOGBINss (SYS ''PP_PROP'') 0 ''STATUS'' c,
      LOGBINss (SYS ''PP_PROP'') 0 ''CLEN'' (show_nat n),
      LOGBINiiis (SYS ''PP_MSG_SEND'') 0 PP_HTTPS_ID s seqno ''https'']"

lemma response_head_answer:
  assumes "\<not> hw_done st" and "hw_toread st = 0" and "hw_awaitStatus st"
    and "token v" and "token c" and "plain_reason reason" and "n < 2 ^ 31"
    and "h = response_head v c reason n rest" and "NUL \<notin> set h" and "length h \<le> 1024"
    and "strstr blank_line h = Some e" and "NUL \<in> set b"
  shows "pp_https_write_side s st (h @ b) len
     = Inr (st\<lparr>hw_awaitStatus := False, hw_toread := int n, hw_seqno := hw_seqno st + 1\<rparr>, int e + 4,
            response_logs s (hw_seqno st) v c n)"
proof -
  from strncpy_longer [OF assms(9,10,12)] obtain x where x: "strncpy 1024 (h @ b) = Inr (h @ x)" by blast
  let ?l = "reason @ CR # LF # ''Content-Length: '' @ show_nat n @ CR # rest @ x"
  have hx: "h @ x = v @ CHR '' '' # c @ CHR '' '' # ?l" by (simp add: assms(8) response_head_def)
  have t: "mem_strtok [CHR '' '', CR] (v @ CHR '' '' # y) = Inr (Some v, y)"
    "mem_strtok [CHR '' '', CR] (c @ CHR '' '' # y) = Inr (Some c, y)" for y
    by (rule mem_strtok_token; use assms(4,5) in \<open>auto simp: token_def\<close>)+
  have l: "https_lines ?l (st\<lparr>hw_awaitStatus := False\<rparr>)
      = Inr (st\<lparr>hw_awaitStatus := False, hw_toread := int n\<rparr>, [LOGBINss (SYS ''PP_PROP'') 0 ''CLEN'' (show_nat n)])"
    using https_lines_content_length [of reason n "rest @ x"] assms(6,7) by (simp add: plain_reason_def)
  show ?thesis
    using assms(1-3) mem_strstr_head [OF assms(9,11), of b]
    unfolding pp_https_write_side_def
    by (simp add: x hx t l del: append_Cons) (simp add: response_logs_def null_str_def)
qed

section \<open>Properties\<close>

text \<open>
  The heap copy of a request is not terminated.  \<^verbatim>\<open>strncpy(tmp, cbuf, len)\<close> into
  \<^verbatim>\<open>len + 1\<close> bytes stores no NUL behind \<open>len\<close> bytes of text: unless the last byte of the
  allocation happens to be zero, logging the copy reads past its end.
\<close>
lemma https_copy_unterminated:
  assumes "\<not> hr_done st" and "hr_awaitHeader st" and "mem_strstr blank_line mem = Inr (Some e)"
    and "len \<le> length mem" and "NUL \<notin> set (take len mem)" and "jk_heap junk \<noteq> NUL"
  shows "pp_https_read_side junk s st mem len = Inl OutOfBounds"
proof -
  have "strncpy len mem = Inr (take len mem)"
    using strncpy_exact [OF assms(5), of "drop len mem"] assms(4) by simp
  moreover have "c_string (take len mem @ [jk_heap junk]) = Inl OutOfBounds"
    using assms(5,6) by (simp add: c_string_def cstr_def)
  ultimately show ?thesis using assms(1-3) by (simp add: pp_https_read_side_def)
qed

text \<open>
  C24: an HTTP/1.1 request head is recognised and described, by luck.  With the head in the buffer and a NUL behind it there,
  the server side takes the bytes up to
  and including the blank line, waits for the next head, and logs the message with its
  sequence number, the data, and the method, URL and version of the request line, exactly if the byte of the heap behind the
  copy it makes is zero: \<^verbatim>\<open>strncpy\<close> into the memory that \<^verbatim>\<open>malloc\<close> gave does not terminate the copy, and with any other byte there logging it reads past the
  end of the allocation.
\<close>
theorem https_request_described:
  assumes "\<not> hr_done st" and "hr_awaitHeader st" and "token m" and "token u"
    and "req = m @ '' '' @ u @ '' '' @ ''HTTP/1.1'' @ CR # rest" and "NUL \<notin> set req"
    and "strstr blank_line req = Some e"
  shows "pp_https_read_side junk s st (req @ NUL # t) (length req)
     = (if jk_heap junk = NUL
        then Inr (st\<lparr>hr_seqno := hr_seqno st + 1, hr_version := 1\<rparr>, int e + 4,
            [LOGBINiiis (SYS ''PP_MSG_RECV'') 0 PP_HTTPS_ID s (hr_seqno st) ''https'',
             LOGBINs (SYS ''HTTPS_READ'') (int (length req)) req,
             LOGBINss (SYS ''PP_PROP'') 0 ''METHOD'' m, LOGBINss (SYS ''PP_PROP'') 0 ''URL'' u,
             LOGBINss (SYS ''PP_PROP'') 0 ''VERSION'' ''HTTP/1.1''])
        else Inl OutOfBounds)"
proof (cases "jk_heap junk = NUL")
  case True
  have "token ''HTTP/1.1''" by (simp add: token_def)
  from https_props_request [OF assms(3,4) this] have p: "https_props req
      = (Some ''HTTP/1.1'', [LOGBINss (SYS ''PP_PROP'') 0 ''METHOD'' m, LOGBINss (SYS ''PP_PROP'') 0 ''URL'' u,
                 LOGBINss (SYS ''PP_PROP'') 0 ''VERSION'' ''HTTP/1.1''])" by (simp add: assms(5))
  have c: "c_string (req @ [jk_heap junk]) = Inr req" using assms(6) True by (simp add: c_string_def)
  show ?thesis
    using assms(1,2) True mem_strstr_head [OF assms(6,7)] strncpy_exact [OF assms(6)] c p
    by (simp add: pp_https_read_side_def)
next
  case False
  have "pp_https_read_side junk s st (req @ NUL # t) (length req) = Inl OutOfBounds"
    by (rule https_copy_unterminated [OF assms(1,2) mem_strstr_head [OF assms(6,7)] _ _ False]) (use assms(6) in simp_all)
  with False show ?thesis by simp
qed

definition sample_request :: string where
  "sample_request = ''GET'' @ '' '' @ ''/a'' @ '' '' @ ''HTTP/1.1'' @ CR # [LF, CR, LF]"

theorem https_request_described_witness:
  "pp_https_read_side \<lparr> jk_heap = NUL, jk_stack = [], jk_int = 0 \<rparr> 5 http_read0 (sample_request @ [NUL]) 19
     = Inr (http_read0\<lparr>hr_seqno := 1, hr_version := 1\<rparr>, 19,
            [LOGBINiiis (SYS ''PP_MSG_RECV'') 0 PP_HTTPS_ID 5 0 ''https'',
             LOGBINs (SYS ''HTTPS_READ'') 19 sample_request,
             LOGBINss (SYS ''PP_PROP'') 0 ''METHOD'' ''GET'', LOGBINss (SYS ''PP_PROP'') 0 ''URL'' ''/a'',
             LOGBINss (SYS ''PP_PROP'') 0 ''VERSION'' ''HTTP/1.1''])"
proof -
  let ?j = "\<lparr> jk_heap = NUL, jk_stack = [], jk_int = 0 \<rparr>"
  have l: "length sample_request = 19" by (simp add: sample_request_def)
  have "strstr blank_line sample_request = Some 15" "NUL \<notin> set sample_request"
    by (simp_all add: sample_request_def)
  from https_request_described [OF _ _ _ _ sample_request_def this(2,1), of http_read0 ?j 5 "[]"]
  show ?thesis unfolding l by (simp add: http_read0_def token_def)
qed

text \<open>
  C25: a response is followed through its body.  Writing a response whose head fits the
  1024 bytes of the plugin's copy, with a \<^verbatim>\<open>Content-Length\<close> as its first header, and then its
  body, the plugin takes head and body, logs version, status and length and one send event, and
  is ready for the next response.
\<close>
theorem https_response_followed:
  assumes "\<not> hw_done st" and "hw_toread st = 0" and "hw_awaitStatus st"
    and "token v" and "token c" and "plain_reason reason"
    and "n = length body" and "0 < n" and "n < 2 ^ 31"
    and "h = response_head v c reason n rest" and "NUL \<notin> set h" and "length h \<le> 1024"
    and "strstr blank_line h = Some (length h - 4)"
  shows "pp_consume (pp_https_write_side s) st (h @ body @ NUL # t) (length h + n)
     = Inr (st\<lparr>hw_seqno := hw_seqno st + 1\<rparr>, NUL # t, 0, response_logs s (hw_seqno st) v c n)"
proof -
  let ?st1 = "st\<lparr>hw_awaitStatus := False, hw_toread := int n, hw_seqno := hw_seqno st + 1\<rparr>"
  have h4: "4 \<le> length h" using strstr_SomeD [OF assms(13)] by simp
  have a: "pp_https_write_side s st (h @ body @ NUL # t) (length h + n)
      = Inr (?st1, int (length h), response_logs s (hw_seqno st) v c n)"
    using response_head_answer [OF assms(1-6,9-13), of "body @ NUL # t" s "length h + n"] h4 by simp
  have b: "pp_https_write_side s ?st1 (body @ NUL # t) n = Inr (st\<lparr>hw_seqno := hw_seqno st + 1\<rparr>, int n, [])"
    using assms(1-3,8) by (simp add: pp_https_write_side_def)
  have "pp_consume (pp_https_write_side s) ?st1 (body @ NUL # t) n = Inr (st\<lparr>hw_seqno := hw_seqno st + 1\<rparr>, NUL # t, 0, [])"
    using assms(7,8) b by (subst pp_consume.simps) (simp add: pp_consume.simps [of _ _ "NUL # t"])
  moreover have "0 < length h" using h4 by linarith
  ultimately show ?thesis using a by (subst pp_consume.simps) simp
qed

definition sample_head :: string where
  "sample_head = response_head ''HTTP/1.1'' ''200'' ''OK'' 3 [LF, CR, LF]"

lemma show_nat_digit: "n < 10 \<Longrightarrow> show_nat n = [digit n]"
  by (simp add: show_nat.simps)

lemma digits_0_3: "digit 0 = CHR ''0''" "digit 3 = CHR ''3''"
  by code_simp+

theorem https_response_followed_witness:
  "pp_consume (pp_https_write_side 5) http_write0 (sample_head @ ''abc'' @ [NUL]) 41
     = Inr (http_write0\<lparr>hw_seqno := 1\<rparr>, [NUL], 0, response_logs 5 0 ''HTTP/1.1'' ''200'' 3)"
proof -
  have s: "sample_head = ''HTTP/1.1 200 OK'' @ [CR, LF] @ ''Content-Length: 3'' @ blank_line"
    by (simp add: sample_head_def response_head_def show_nat_digit digits_0_3)
  have "length sample_head = 38" "strstr blank_line sample_head = Some (length sample_head - 4)" "NUL \<notin> set sample_head"
    unfolding s by simp_all
  then show ?thesis
    using https_response_followed [of http_write0 "''HTTP/1.1''" "''200''" "''OK''" 3 "''abc''" sample_head "[LF, CR, LF]" 5 "[]"]
    by (simp add: http_write0_def token_def plain_reason_def sample_head_def)
qed

text \<open>
  After a response with an empty body the plugin follows no further response.
  With \<^verbatim>\<open>Content-Length: 0\<close> nothing is left to read, but only the end of a body makes the plugin
  await the next status line: every later write on the connection is passed over unseen.
\<close>
lemma https_empty_body_stops:
  assumes "\<not> hw_done st" and "hw_toread st = 0" and "hw_awaitStatus st"
    and "token v" and "token c" and "plain_reason reason"
    and "h = response_head v c reason 0 rest" and "NUL \<notin> set h" and "length h \<le> 1024"
    and "strstr blank_line h = Some (length h - 4)"
  shows "\<exists>st'. pp_https_write_side s st (h @ NUL # t) (length h)
           = Inr (st', int (length h), response_logs s (hw_seqno st) v c 0) \<and>
     (\<forall>mem len. pp_https_write_side s st' mem len = Inr (st', int len, []))"
proof -
  have "4 \<le> length h" using strstr_SomeD [OF assms(10)] by simp
  then show ?thesis
    using response_head_answer [OF assms(1-6) _ assms(7-10), of "NUL # t" s "length h"] assms(1)
    by (simp add: pp_https_write_side_def [of s "st\<lparr>hw_awaitStatus := False, hw_toread := 0, hw_seqno := hw_seqno st + 1\<rparr>"])
qed

end
