(* ===== verification/Getservice.thy ===== *)
theory Getservice
  imports Bp_Prelude
begin

text \<open>
  The reader of services files, \<^verbatim>\<open>src/trace/getservice.c\<close>: the parser of one line, the scan
  for a name or a port, and \<^verbatim>\<open>getportbyname\<close>, which the protocol plugins are chosen by.  A file is
  the text it holds, \<open>files path\<close>; the static variables of the C file (the open stream, the entry
  \<^verbatim>\<open>serv\<close> every lookup stores into, the cached name of the user's file) are the state.
\<close>

section \<open>State\<close>

record servent =
  s_name :: string
  s_aliases :: "string list"
  s_port :: nat          \<comment> \<open>in host order\<close>
  s_proto :: string

text \<open>\<open>servf\<close> is the text of the open file and what is left to read of it.\<close>

record getserv =
  servf :: "(string \<times> string) option"
  serv :: servent
  serv_stayopen :: bool
  user_file :: "string option option"

type_synonym files = "string \<Rightarrow> string option"

definition MAXALIASES :: nat where "MAXALIASES = 35"
definition BUFSIZ :: nat where "BUFSIZ = 8192"
definition SBUFSIZE :: nat where "SBUFSIZE = BUFSIZ + 1 + 8 * MAXALIASES"

abbreviation path_services :: string where
  "path_services \<equiv> ''/etc/services''"

section \<open>Lines\<close>

text \<open>\<^verbatim>\<open>strpbrk\<close>: what is in front of and behind the first character of the set.\<close>

definition strpbrk :: "string \<Rightarrow> string \<Rightarrow> (string \<times> string) option" where
  "strpbrk s accept =
     (case dropWhile (\<lambda>c. c \<notin> set accept) s of
        [] \<Rightarrow> None
      | c # rest \<Rightarrow> Some (takeWhile (\<lambda>c. c \<notin> set accept) s, rest))"

text \<open>\<^verbatim>\<open>fgets(line, n, f)\<close>: up to \<open>n - 1\<close> characters, to the end of the line.\<close>

definition fgets :: "nat \<Rightarrow> string \<Rightarrow> (string \<times> string) option" where
  "fgets n content =
     (if content = [] then None
      else let chunk = take (n - 1) content;
               line = takeWhile (\<lambda>c. c \<noteq> LF) chunk @ take 1 (dropWhile (\<lambda>c. c \<noteq> LF) chunk)
           in Some (line, drop (length line) content))"

lemma fgets_shorter:
  assumes "fgets n content = Some (line, rest)" and "1 < n"
  shows "length rest < length content"
proof -
  let ?c = "take (n - 1) content"
  have ne: "content \<noteq> []" and r: "rest = drop (length line) content"
    and l: "line = takeWhile (\<lambda>c. c \<noteq> LF) ?c @ take 1 (dropWhile (\<lambda>c. c \<noteq> LF) ?c)"
    using assms(1) by (auto simp: fgets_def Let_def split: if_splits)
  obtain k where n: "n = Suc (Suc k)" using assms(2) by (cases n; cases "n - 1") auto
  obtain c cs where "content = c # cs" using ne by (cases content) auto
  then have "line \<noteq> []" by (simp add: l n)
  then show ?thesis using r ne by (simp add: r)
qed

function split_aliases :: "string \<Rightarrow> string list" where
  "split_aliases s =
     (case strtok [CHR '' '', TAB] s of None \<Rightarrow> [] | Some (a, rest) \<Rightarrow> a # split_aliases rest)"
  by pat_completeness auto
termination
  by (relation "measure length") (auto dest: strtok_rest_shorter)

declare split_aliases.simps [simp del]

definition is_blank :: "char \<Rightarrow> bool" where
  "is_blank c \<longleftrightarrow> c = CHR '' '' \<or> c = TAB"

text \<open>
  One line, \<open>None\<close> where the code jumps to \<^verbatim>\<open>again\<close>: a comment, no end of line, no blank behind the
  name, no separator behind the port.
\<close>

definition parse_service :: "string \<Rightarrow> servent option" where
  "parse_service p =
     (if p \<noteq> [] \<and> hd p = CHR ''#'' then None
      else case strpbrk p [CHR ''#'', LF] of
        None \<Rightarrow> None
      | Some (body, _) \<Rightarrow>
         (case strpbrk body [CHR '' '', TAB] of
            None \<Rightarrow> None
          | Some (name, p1) \<Rightarrow>
             (case strpbrk (dropWhile is_blank p1) [CHR '','', CHR ''/''] of
                None \<Rightarrow> None
              | Some (port, cp) \<Rightarrow>
                  let mk = (\<lambda>proto aliases.
                        \<lparr> s_name = name, s_aliases = take (MAXALIASES - 1) aliases,
                          s_port = nat (atoi port mod 65536), s_proto = proto \<rparr>)
                  in case strpbrk cp [CHR '' '', TAB] of
                       None \<Rightarrow> Some (mk cp [])
                     | Some (proto, rest) \<Rightarrow> Some (mk proto (split_aliases rest)))))"

section \<open>The scan\<close>

definition bpsetservent :: "files \<Rightarrow> bool \<Rightarrow> string option \<Rightarrow> getserv \<Rightarrow> getserv" where
  "bpsetservent files f services_file st =
     (let path = (case services_file of None \<Rightarrow> path_services | Some p \<Rightarrow> p);
          st1 = (case servf st of
                   None \<Rightarrow> st\<lparr>servf := map_option (\<lambda>t. (t, t)) (files path)\<rparr>
                 | Some (t, _) \<Rightarrow> st\<lparr>servf := Some (t, t)\<rparr>)
      in if f then st1\<lparr>serv_stayopen := True\<rparr> else st1)"

definition bpendservent :: "getserv \<Rightarrow> getserv" where
  "bpendservent st = st\<lparr>servf := None, serv_stayopen := False\<rparr>"

text \<open>The lines up to the next entry: the entry, if any, and what is left to read.\<close>

function next_service :: "string \<Rightarrow> servent option \<times> string" where
  "next_service content =
     (case fgets BUFSIZ content of
        None \<Rightarrow> (None, [])
      | Some (line, rest) \<Rightarrow>
         (case parse_service (takeWhile (\<lambda>c. c \<noteq> NUL) line) of
            None \<Rightarrow> next_service rest
          | Some e \<Rightarrow> (Some e, rest)))"
  by pat_completeness auto
termination
  by (relation "measure length") (auto dest: fgets_shorter simp: BUFSIZ_def)

declare next_service.simps [simp del]

definition EIO :: int where "EIO = 5"
definition ERANGE :: int where "ERANGE = 34"

text \<open>The error number and whether \<^verbatim>\<open>*result\<close> is set; the entry is stored into \<^verbatim>\<open>serv\<close>.\<close>

definition bpgetservent_r :: "files \<Rightarrow> nat \<Rightarrow> string option \<Rightarrow> getserv \<Rightarrow> int \<times> bool \<times> getserv" where
  "bpgetservent_r files buflen services_file st =
     (if buflen < 8 * MAXALIASES then (ERANGE, False, st)
      else if buflen - 8 * MAXALIASES < BUFSIZ + 1 then (ERANGE, False, st)
      else let path = (case services_file of None \<Rightarrow> path_services | Some p \<Rightarrow> p);
               st1 = (if servf st = None then st\<lparr>servf := map_option (\<lambda>t. (t, t)) (files path)\<rparr> else st)
           in case servf st1 of
                None \<Rightarrow> (EIO, False, st1)
              | Some (t, rest) \<Rightarrow>
                 (case next_service rest of
                    (None, r) \<Rightarrow> (EIO, False, st1\<lparr>servf := Some (t, r)\<rparr>)
                  | (Some e, r) \<Rightarrow> (0, True, st1\<lparr>servf := Some (t, r), serv := e\<rparr>)))"

lemma next_service_shorter: "next_service content = (Some e, rest) \<Longrightarrow> length rest < length content"
proof (induction content rule: next_service.induct)
  case (1 content)
  from "1.prems" obtain line r where f: "fgets BUFSIZ content = Some (line, r)"
    by (subst (asm) next_service.simps) (auto split: option.splits)
  have lt: "length r < length content" by (rule fgets_shorter [OF f]) (simp add: BUFSIZ_def)
  show ?case
  proof (cases "parse_service (takeWhile (\<lambda>c. c \<noteq> NUL) line)")
    case None
    with "1.prems" f have "next_service r = (Some e, rest)" by (subst (asm) next_service.simps) simp
    from "1.IH" [OF f refl None this] lt show ?thesis by simp
  next
    case (Some e')
    with "1.prems" f lt show ?thesis by (subst (asm) next_service.simps) simp
  qed
qed

definition unread_text :: "files \<Rightarrow> string option \<Rightarrow> getserv \<Rightarrow> nat" where
  "unread_text files services_file st =
     (case servf st of
        Some (t, r) \<Rightarrow> length r
      | None \<Rightarrow> (case files (case services_file of None \<Rightarrow> path_services | Some p \<Rightarrow> p) of None \<Rightarrow> 0 | Some t \<Rightarrow> length t))"

lemma bpgetservent_r_shorter:
  "bpgetservent_r files buflen sf st = (0, ok, st') \<Longrightarrow> unread_text files sf st' < unread_text files sf st"
  by (auto simp: bpgetservent_r_def unread_text_def EIO_def ERANGE_def Let_def
      split: if_splits option.splits prod.splits dest!: next_service_shorter)

definition matches_name :: "string \<Rightarrow> string option \<Rightarrow> servent \<Rightarrow> bool" where
  "matches_name name proto e \<longleftrightarrow>
     (name = s_name e \<or> name \<in> set (s_aliases e)) \<and> (case proto of None \<Rightarrow> True | Some p \<Rightarrow> s_proto e = p)"

definition matches_port :: "int \<Rightarrow> string option \<Rightarrow> servent \<Rightarrow> bool" where
  "matches_port port proto e \<longleftrightarrow>
     int (s_port e) = port \<and> (case proto of None \<Rightarrow> True | Some p \<Rightarrow> s_proto e = p)"

text \<open>The loop both lookups share: on to the first entry that matches.\<close>

function scan_services ::
  "(servent \<Rightarrow> bool) \<Rightarrow> files \<Rightarrow> nat \<Rightarrow> string option \<Rightarrow> getserv \<Rightarrow> int \<times> bool \<times> getserv" where
  "scan_services P files buflen sf st =
     (case bpgetservent_r files buflen sf st of
        (ret, ok, st') \<Rightarrow>
          if ret \<noteq> 0 then (ret, ok, st')
          else if P (serv st') then (ret, ok, st')
          else scan_services P files buflen sf st')"
  by pat_completeness auto
termination
  by (relation "measure (\<lambda>(P, files, buflen, sf, st). unread_text files sf st)")
     (auto dest: bpgetservent_r_shorter [OF sym])

declare scan_services.simps [simp del]

definition lookup :: "(servent \<Rightarrow> bool) \<Rightarrow> files \<Rightarrow> nat \<Rightarrow> string option \<Rightarrow> getserv \<Rightarrow> int \<times> bool \<times> getserv" where
  "lookup P files buflen sf st =
     (case scan_services P files buflen sf (bpsetservent files (serv_stayopen st) sf st) of
        (ret, ok, st') \<Rightarrow> (if ok then 0 else ret, ok, if serv_stayopen st' then st' else bpendservent st'))"

definition bpgetservbyname_r :: "string \<Rightarrow> string option \<Rightarrow> files \<Rightarrow> nat \<Rightarrow> string option \<Rightarrow> getserv \<Rightarrow> int \<times> bool \<times> getserv" where
  "bpgetservbyname_r name proto = lookup (matches_name name proto)"

definition bpgetservbyport_r :: "int \<Rightarrow> string option \<Rightarrow> files \<Rightarrow> nat \<Rightarrow> string option \<Rightarrow> getserv \<Rightarrow> int \<times> bool \<times> getserv" where
  "bpgetservbyport_r port proto = lookup (matches_port port proto)"

text \<open>The versions on the static buffer: whether the result is a null pointer; it points at \<^verbatim>\<open>serv\<close>.\<close>

definition bpgetservbyname :: "string \<Rightarrow> string option \<Rightarrow> files \<Rightarrow> string option \<Rightarrow> getserv \<Rightarrow> bool \<times> getserv" where
  "bpgetservbyname name proto files sf st =
     (case bpgetservbyname_r name proto files SBUFSIZE sf st of (ret, ok, st') \<Rightarrow> (ok, st'))"

definition bpgetservbyport :: "int \<Rightarrow> string option \<Rightarrow> files \<Rightarrow> string option \<Rightarrow> getserv \<Rightarrow> bool \<times> getserv" where
  "bpgetservbyport port proto files sf st =
     (case bpgetservbyport_r port proto files SBUFSIZE sf st of (ret, ok, st') \<Rightarrow> (ok, st'))"

definition bpgetservent :: "files \<Rightarrow> string option \<Rightarrow> getserv \<Rightarrow> bool \<times> getserv" where
  "bpgetservent files sf st = (case bpgetservent_r files SBUFSIZE sf st of (ret, ok, st') \<Rightarrow> (ok, st'))"

text \<open>\<open>env\<close> is the value of \<^verbatim>\<open>LIBBTRACE_SERVICES\<close>, read by the first call only.\<close>

definition getportbyname :: "files \<Rightarrow> string option \<Rightarrow> string \<Rightarrow> getserv \<Rightarrow> int \<times> getserv" where
  "getportbyname files env name st =
     (let st0 = (if user_file st = None then st\<lparr>user_file := Some env\<rparr> else st);
          (found, st1) = bpgetservbyname name None files None st0
      in case user_file st0 of
           Some (Some services_file) \<Rightarrow>
             (case bpgetservbyname name None files (Some services_file) st1 of
                (user_found, st2) \<Rightarrow>
                  (if user_found \<or> found then int (s_port (serv st2)) else - 1, st2))
         | _ \<Rightarrow> (if found then int (s_port (serv st1)) else - 1, st1))"

section \<open>The scan finds the first match\<close>

text \<open>All entries of a file, in order.\<close>

function services :: "string \<Rightarrow> servent list" where
  "services content =
     (case next_service content of (None, r) \<Rightarrow> [] | (Some e, r) \<Rightarrow> e # services r)"
  by pat_completeness auto
termination
  by (relation "measure length") (auto dest: next_service_shorter [OF sym])

declare services.simps [simp del]

lemma find_Cons_split: "find P (x # xs) = (if P x then Some x else find P xs)"
  by simp

lemma bpgetservent_r_open:
  assumes "servf st = Some (t, r)"
  shows "bpgetservent_r files SBUFSIZE sf st =
     (case next_service r of
        (None, r') \<Rightarrow> (EIO, False, st\<lparr>servf := Some (t, r')\<rparr>)
      | (Some e, r') \<Rightarrow> (0, True, st\<lparr>servf := Some (t, r'), serv := e\<rparr>))"
  using assms by (simp add: bpgetservent_r_def SBUFSIZE_def)

lemma scan_services_open:
  assumes "servf st = Some (t, r)"
  shows "\<exists>r'. scan_services P files SBUFSIZE sf st =
     (case find P (services r) of
        Some e \<Rightarrow> (0, True, st\<lparr>servf := Some (t, r'), serv := e\<rparr>)
      | None \<Rightarrow> (EIO, False, st\<lparr>servf := Some (t, r'), serv := last (serv st # services r)\<rparr>))"
  using assms
proof (induction r arbitrary: st rule: services.induct)
  case (1 r)
  show ?case
  proof (cases "next_service r")
    case (Pair eo r')
    show ?thesis
    proof (cases eo)
      case None
      have "services r = []" by (subst services.simps) (simp add: Pair None)
      then show ?thesis
        by (subst scan_services.simps)
           (simp add: bpgetservent_r_open [OF "1.prems"] Pair None EIO_def exI [of _ r'])
    next
      case (Some e)
      have sv: "services r = e # services r'" by (subst services.simps) (simp add: Pair Some)
      let ?st = "st\<lparr>servf := Some (t, r'), serv := e\<rparr>"
      have step: "scan_services P files SBUFSIZE sf st = (if P e then (0, True, ?st) else scan_services P files SBUFSIZE sf ?st)"
        by (subst scan_services.simps) (simp add: bpgetservent_r_open [OF "1.prems"] Pair Some)
      show ?thesis
      proof (cases "P e")
        case True
        then show ?thesis using step by (auto simp: sv)
      next
        case False
        from "1.IH" [OF Pair [symmetric] Some, of ?st]
        show ?thesis using step False by (auto simp: sv split: option.splits)
      qed
    qed
  qed
qed

definition gs_idle :: "getserv \<Rightarrow> bool" where
  "gs_idle st \<longleftrightarrow> servf st = None \<and> \<not> serv_stayopen st"

lemma lookup_file:
  assumes "gs_idle st" and "files (case sf of None \<Rightarrow> path_services | Some p \<Rightarrow> p) = Some t"
  shows "lookup P files SBUFSIZE sf st =
     (case find P (services t) of
        Some e \<Rightarrow> (0, True, st\<lparr>serv := e\<rparr>)
      | None \<Rightarrow> (EIO, False, st\<lparr>serv := last (serv st # services t)\<rparr>))"
proof -

  have b: "bpsetservent files False sf st = st\<lparr>servf := Some (t, t)\<rparr>"
    using assms by (simp add: bpsetservent_def gs_idle_def)
  have "\<exists>r'. scan_services P files SBUFSIZE sf (st\<lparr>servf := Some (t, t)\<rparr>) =
       (case find P (services t) of
          Some e \<Rightarrow> (0, True, st\<lparr>servf := Some (t, r'), serv := e\<rparr>)
        | None \<Rightarrow> (EIO, False, st\<lparr>servf := Some (t, r'), serv := last (serv st # services t)\<rparr>))"
    using scan_services_open [of "st\<lparr>servf := Some (t, t)\<rparr>" t t P files sf] by (simp cong: option.case_cong)
  then show ?thesis
    using assms(1) by (auto simp: lookup_def b bpendservent_def gs_idle_def split: option.splits)
qed

lemma bpgetservbyname_file:
  assumes "gs_idle st" and "files (case sf of None \<Rightarrow> path_services | Some p \<Rightarrow> p) = Some t"
  shows "bpgetservbyname name proto files sf st =
     (case find (matches_name name proto) (services t) of
        Some e \<Rightarrow> (True, st\<lparr>serv := e\<rparr>)
      | None \<Rightarrow> (False, st\<lparr>serv := last (serv st # services t)\<rparr>))"
  using lookup_file [where P = "matches_name name proto" and sf = sf, OF assms(1), of files t] assms(2) by (auto simp: bpgetservbyname_def bpgetservbyname_r_def split: option.splits)

section \<open>A line survives\<close>

definition word_ok :: "string \<Rightarrow> bool" where
  "word_ok w \<longleftrightarrow> w \<noteq> [] \<and> (\<forall>c \<in> set w. c \<noteq> CHR '' '' \<and> c \<noteq> TAB \<and> c \<noteq> LF \<and> c \<noteq> CHR ''#'')"

definition service_ok :: "servent \<Rightarrow> bool" where
  "service_ok e \<longleftrightarrow> word_ok (s_name e) \<and> s_port e < 65536 \<and> word_ok (s_proto e) \<and>
     list_all word_ok (s_aliases e) \<and> length (s_aliases e) < MAXALIASES"

definition print_service :: "servent \<Rightarrow> string" where
  "print_service e =
     s_name e @ TAB # show_nat (s_port e) @ ''/'' @ s_proto e @
     (if s_aliases e = [] then [] else CHR '' '' # concat (map (\<lambda>a. a @ '' '') (s_aliases e))) @ [LF]"

lemma strpbrk_first:
  assumes "\<forall>c \<in> set a. c \<notin> set accept" and "c \<in> set accept"
  shows "strpbrk (a @ c # b) accept = Some (a, b)"
  using assms by (simp add: strpbrk_def dropWhile_append3 takeWhile_append2)

lemma strpbrk_none: "\<forall>c \<in> set a. c \<notin> set accept \<Longrightarrow> strpbrk a accept = None"
  by (simp add: strpbrk_def dropWhile_eq_Nil_conv [THEN iffD2])

lemma strtok_word: "word_ok a \<Longrightarrow> strtok [CHR '' '', TAB] (a @ CHR '' '' # rest) = Some (a, rest)"
proof -
  assume a: "word_ok a"
  have "dropWhile (\<lambda>c. c \<in> set [CHR '' '', TAB]) (a @ CHR '' '' # rest) = a @ CHR '' '' # rest"
    using a by (cases a) (auto simp: word_ok_def)
  moreover have "\<forall>c \<in> set a. c \<notin> set [CHR '' '', TAB]" using a by (auto simp: word_ok_def)
  ultimately show ?thesis by (simp add: strtok_def takeWhile_append2 dropWhile_append3)
qed

lemma split_aliases_print: "list_all word_ok as \<Longrightarrow> split_aliases (concat (map (\<lambda>a. a @ '' '') as)) = as"
proof (induction as)
  case Nil
  show ?case by (subst split_aliases.simps) (simp add: strtok_def)
next
  case (Cons a as)
  then show ?case by (subst split_aliases.simps) (simp add: strtok_word)
qed

lemma parse_print:
  assumes "service_ok e"
  shows "parse_service (print_service e) = Some e"
proof -
  let ?al = "if s_aliases e = [] then [] else CHR '' '' # concat (map (\<lambda>a. a @ '' '') (s_aliases e))"
  let ?tail = "show_nat (s_port e) @ ''/'' @ s_proto e @ ?al"
  have ok: "word_ok (s_name e)" "s_port e < 65536" "word_ok (s_proto e)" "list_all word_ok (s_aliases e)"
    "length (s_aliases e) \<le> MAXALIASES - 1" using assms by (auto simp: service_ok_def MAXALIASES_def)
  have dig: "c \<in> set (show_nat n) \<Longrightarrow> c \<notin> {CHR '' '', TAB, LF, CHR ''#'', CHR '','', CHR ''/''}" for c n
    using show_nat_digits [of c n] by (auto simp: is_digit_def)
  have al: "\<forall>c \<in> set ?al. c \<noteq> LF \<and> c \<noteq> CHR ''#''" using ok(4) by (auto simp: word_ok_def list_all_iff)
  have n: "\<forall>c \<in> set (s_name e). c \<noteq> CHR '' '' \<and> c \<noteq> TAB \<and> c \<noteq> LF \<and> c \<noteq> CHR ''#''" "s_name e \<noteq> []"
    using ok(1) by (auto simp: word_ok_def)
  have p: "\<forall>c \<in> set (s_proto e). c \<noteq> CHR '' '' \<and> c \<noteq> TAB \<and> c \<noteq> LF \<and> c \<noteq> CHR ''#''"
    using ok(3) by (auto simp: word_ok_def)
  have 0: "hd (print_service e) \<noteq> CHR ''#''" using n by (auto simp: print_service_def hd_append)
  have 1: "strpbrk (print_service e) [CHR ''#'', LF] = Some (s_name e @ TAB # ?tail, [])"
  proof -
    have eq: "print_service e = (s_name e @ TAB # ?tail) @ LF # []" by (simp add: print_service_def)
    have dg: "\<forall>c \<in> set (show_nat (s_port e)). c \<noteq> LF \<and> c \<noteq> CHR ''#''" using dig by blast
    have "\<forall>c \<in> set (s_name e @ TAB # ?tail). c \<notin> set [CHR ''#'', LF]"
      unfolding set_append set_simps ball_Un ball_simps using n(1) p al dg by simp
    then show ?thesis unfolding eq by (rule strpbrk_first) simp
  qed
  have 2: "strpbrk (s_name e @ TAB # ?tail) [CHR '' '', TAB] = Some (s_name e, ?tail)"
    by (rule strpbrk_first) (use n in auto)
  have 3: "dropWhile is_blank ?tail = ?tail"
    using dig [of "hd (show_nat (s_port e))" "s_port e"] by (cases "show_nat (s_port e)") (auto simp: is_blank_def)
  have 4: "strpbrk ?tail [CHR '','', CHR ''/''] = Some (show_nat (s_port e), s_proto e @ ?al)"
  proof -
    have "\<forall>c \<in> set (show_nat (s_port e)). c \<notin> set [CHR '','', CHR ''/'']" using dig by auto
    from strpbrk_first [OF this, of "CHR ''/''"] show ?thesis by simp
  qed
  have 5: "nat (atoi (show_nat (s_port e)) mod 65536) = s_port e"
    using ok(2) atoi_show_nat [of "s_port e"] by simp
  have 6: "strpbrk (s_proto e @ ?al) [CHR '' '', TAB]
      = (if s_aliases e = [] then None else Some (s_proto e, concat (map (\<lambda>a. a @ '' '') (s_aliases e))))"
  proof -
    have a: "\<forall>c \<in> set (s_proto e). c \<notin> set [CHR '' '', TAB]" using p by simp
    show ?thesis
      using strpbrk_none [OF a] strpbrk_first [OF a, of "CHR '' ''"] by (cases "s_aliases e = []") simp_all
  qed
  have 7: "parse_service (print_service e) = (case strpbrk (s_proto e @ ?al) [CHR '' '', TAB] of
      None \<Rightarrow> Some \<lparr> s_name = s_name e, s_aliases = take (MAXALIASES - 1) [], s_port = s_port e, s_proto = s_proto e @ ?al \<rparr>
    | Some (proto, rest) \<Rightarrow> Some \<lparr> s_name = s_name e, s_aliases = take (MAXALIASES - 1) (split_aliases rest),
        s_port = s_port e, s_proto = proto \<rparr>)"
    unfolding parse_service_def 1 option.case prod.case 2 3 4 Let_def 5 using 0 by (simp only: if_False simp_thms)
  show ?thesis
    using ok(5) split_aliases_print [OF ok(4)] unfolding 7 6 by (cases "s_aliases e = []") simp_all
qed

section \<open>Properties\<close>

text \<open>
  C26: a line of a services file is read as it was written.  Printing an entry (a name,
  a port below 65536, a protocol and up to 34 aliases, none with blanks, line ends or
  \<^verbatim>\<open>#\<close>) and parsing the line gives the entry back.
\<close>
theorem service_line_roundtrip:
  assumes "service_ok e"
  shows "parse_service (print_service e) = Some e"
  by (rule parse_print [OF assms])

definition sample_service :: servent where
  "sample_service = \<lparr> s_name = ''http'', s_aliases = [''www'', ''web''], s_port = 80, s_proto = ''tcp'' \<rparr>"

lemma sample_service_ok: "service_ok sample_service"
  by (simp add: service_ok_def sample_service_def word_ok_def MAXALIASES_def)

theorem service_line_roundtrip_witness: "parse_service (print_service sample_service) = Some sample_service"
  by (rule service_line_roundtrip [OF sample_service_ok])

text \<open>
  C27: the port of a protocol.  Without a user's services file, \<^verbatim>\<open>getportbyname\<close> returns the
  port of the first entry of \<^verbatim>\<open>/etc/services\<close> that has the name or the alias, and -1 when there
  is none; with one that has the name, the port of the first entry there.
\<close>
theorem getportbyname_first_match:
  assumes "gs_idle st" and "user_file st = None" and "files path_services = Some t"
    and "env = None \<or> env = Some u \<and> files u = Some t2 \<and> find (matches_name name None) (services t2) \<noteq> None"
  shows "fst (getportbyname files env name st) =
     (case find (matches_name name None) (services (if env = None then t else t2)) of
        None \<Rightarrow> - 1 | Some e \<Rightarrow> int (s_port e))"
proof -
  let ?st = "st\<lparr>user_file := Some env\<rparr>"
  have i: "gs_idle ?st" using assms(1) by (simp add: gs_idle_def)
  have sys: "bpgetservbyname name None files None ?st =
     (case find (matches_name name None) (services t) of
        Some e \<Rightarrow> (True, ?st\<lparr>serv := e\<rparr>) | None \<Rightarrow> (False, ?st\<lparr>serv := last (serv ?st # services t)\<rparr>))"
    by (rule bpgetservbyname_file [OF i]) (use assms(3) in simp)
  show ?thesis
  proof (cases env)
    case None
    then show ?thesis
      using sys assms(2) by (simp add: getportbyname_def split: option.splits)
  next
    case (Some u')
    then obtain e where u: "u' = u" "files u = Some t2" "find (matches_name name None) (services t2) = Some e"
      using assms(4) by auto
    have "gs_idle st' \<Longrightarrow> bpgetservbyname name None files (Some u) st' = (True, st'\<lparr>serv := e\<rparr>)" for st'
      using bpgetservbyname_file [where sf = "Some u" and files = files and t = t2] u by simp
    then show ?thesis
      using sys assms(2) Some u(1,3) i
      by (auto simp: getportbyname_def gs_idle_def split: option.splits)
  qed
qed

definition sample_files :: files where
  "sample_files p = (if p = path_services then Some (print_service sample_service) else None)"

definition gs0 :: getserv where
  "gs0 = \<lparr> servf = None, serv = \<lparr> s_name = [], s_aliases = [], s_port = 0, s_proto = [] \<rparr>,
           serv_stayopen = False, user_file = None \<rparr>"

lemma fgets_line:
  assumes "LF \<notin> set a" and "length a < BUFSIZ - 1"
  shows "fgets BUFSIZ (a @ LF # rest) = Some (a @ [LF], rest)"
proof -
  have t: "take (BUFSIZ - 1) (a @ LF # rest) = a @ LF # take (BUFSIZ - 2 - length a) rest"
  proof -
    obtain k where k: "BUFSIZ - 1 = length a + Suc k" using less_imp_Suc_add [OF assms(2)] by auto
    then have "BUFSIZ - 2 - length a = k" by simp
    then show ?thesis unfolding k by simp
  qed
  have "takeWhile (\<lambda>c. c \<noteq> LF) (a @ LF # x) = a" "dropWhile (\<lambda>c. c \<noteq> LF) (a @ LF # x) = LF # x" for x
    using assms(1) by (induction a) auto
  then show ?thesis unfolding fgets_def Let_def t by simp
qed

lemma services_one:
  assumes "service_ok e" and "print_service e = a @ [LF]" and "LF \<notin> set a" and "NUL \<notin> set a" and "length a < BUFSIZ - 1"
  shows "services (print_service e) = [e]"
proof -
  have f: "fgets BUFSIZ (print_service e) = Some (print_service e, [])"
    using fgets_line [OF assms(3,5), of "[]"] assms(2) by simp
  have tw: "takeWhile (\<lambda>c. c \<noteq> NUL) (print_service e) = print_service e"
    unfolding assms(2) using assms(4) by (subst takeWhile_eq_all_conv) auto
  have n: "next_service (print_service e) = (Some e, [])"
    by (subst next_service.simps) (simp add: f tw parse_print [OF assms(1)])
  have "next_service [] = (None, [])" by (subst next_service.simps) (simp add: fgets_def)
  then have "services [] = []" by (subst services.simps) simp
  then show ?thesis by (subst services.simps) (simp add: n)
qed

lemma show_nat_80: "show_nat 80 = ''80''"
  by code_simp

lemma services_sample: "services (print_service sample_service) = [sample_service]"
proof -
  have p: "print_service sample_service = (''http'' @ TAB # ''80/tcp www web '') @ [LF]"
    by (simp add: print_service_def sample_service_def show_nat_80)
  show ?thesis by (rule services_one [OF sample_service_ok p]) (simp_all add: BUFSIZ_def)
qed

lemma gs0_idle: "gs_idle gs0" "user_file gs0 = None"
  by (simp_all add: gs0_def gs_idle_def)

theorem getportbyname_first_match_witness: "fst (getportbyname sample_files None ''www'' gs0) = 80"
proof -
  have "matches_name ''www'' None sample_service" "s_port sample_service = 80"
    by (simp_all add: matches_name_def sample_service_def)
  then show ?thesis
    using getportbyname_first_match [OF gs0_idle, of sample_files "print_service sample_service" None _ _ "''www''"]
    by (simp add: sample_files_def services_sample)
qed

text \<open>
  Both lookups of \<^verbatim>\<open>getportbyname\<close> share one static entry.  When the user's file does
  not have the name but has any entry at all, the port that is returned for a name of
  \<^verbatim>\<open>/etc/services\<close> is the port of the last entry of the user's file.
\<close>
lemma getportbyname_clobbered:
  assumes "gs_idle st" and "user_file st = None" and "files path_services = Some t" and "files u = Some t2"
    and "find (matches_name name None) (services t) = Some e"
    and "find (matches_name name None) (services t2) = None" and "services t2 \<noteq> []"
  shows "fst (getportbyname files (Some u) name st) = int (s_port (last (services t2)))"
proof -
  let ?st = "st\<lparr>user_file := Some (Some u)\<rparr>"
  have "bpgetservbyname name None files None ?st = (True, ?st\<lparr>serv := e\<rparr>)"
    using bpgetservbyname_file [where sf = None and files = files and t = t and st = ?st] assms(1,3,5)
    by (simp add: gs_idle_def)
  moreover have "bpgetservbyname name None files (Some u) (?st\<lparr>serv := e\<rparr>)
      = (False, ?st\<lparr>serv := last (services t2)\<rparr>)"
    using bpgetservbyname_file [where sf = "Some u" and files = files and t = t2 and st = "?st\<lparr>serv := e\<rparr>"] assms(1,4,6,7)
    by (simp add: gs_idle_def)
  ultimately show ?thesis using assms(2) by (simp add: getportbyname_def)
qed

definition fcgi_service :: servent where
  "fcgi_service = \<lparr> s_name = ''fcgi'', s_aliases = [], s_port = 8, s_proto = ''tcp'' \<rparr>"

lemma services_fcgi: "services (print_service fcgi_service) = [fcgi_service]"
proof -
  have s: "show_nat 8 = ''8''" by code_simp
  have p: "print_service fcgi_service = (''fcgi'' @ TAB # ''8/tcp'') @ [LF]"
    by (simp add: print_service_def fcgi_service_def s)
  have "service_ok fcgi_service" by (simp add: service_ok_def fcgi_service_def word_ok_def MAXALIASES_def)
  from services_one [OF this p] show ?thesis by (simp add: BUFSIZ_def)
qed

end
