(* ===== verification/Protocol.thy ===== *)
theory Protocol
  imports Pp_Sql Pp_Misc Pp_Http Getservice
begin

text \<open>
  The plugin table of \<^verbatim>\<open>src/trace/protocol.c\<close> and the choice of a plugin for a descriptor.  A
  dispatcher of the C code is a constant structure of function pointers; here it is a name, and
  the four operations are functions of it.  The plugin's private data, a \<^verbatim>\<open>void *\<close> in C, is a
  tagged union of the plugins' states.
\<close>

section \<open>The dispatchers\<close>

datatype pp_dispatcher =
  Perlpc | Perlps | Httpc | Https | Xc | Psqlc | Psqls | Mysqlc | Mysqls | Fcgis | Fcgic | Trivial

fun pp_name :: "pp_dispatcher \<Rightarrow> string" where
  "pp_name Perlpc = ''perlp''"
| "pp_name Perlps = ''perlp''"
| "pp_name Httpc = ''http''"
| "pp_name Https = ''http''"
| "pp_name Xc = ''x11''"
| "pp_name Psqlc = ''postgresql''"
| "pp_name Psqls = ''postgresql''"
| "pp_name Mysqlc = ''mysql''"
| "pp_name Mysqls = ''mysql''"
| "pp_name Fcgis = ''fcgi''"
| "pp_name Fcgic = ''fcgi''"
| "pp_name Trivial = ''trivial''"

datatype pp_data =
    DNull
  | DPerlp pp_perlp_state
  | DHttp pp_http_state
  | DPsql pp_psql_state
  | DMysql pp_mysql_state
  | DX pp_x_state
  | DFcgi pp_fcgi_state_wrap

text \<open>A plugin that keeps no state leaves the pointer alone; the trivial one clears it.\<close>

fun pp_init :: "pp_dispatcher \<Rightarrow> pp_junk \<Rightarrow> int \<Rightarrow> pp_data \<Rightarrow> pp_data \<times> logcall list" where
  "pp_init Perlpc junk s data = (data, [])"
| "pp_init Perlps junk s data = map_prod DPerlp id (pp_perlps_init s)"
| "pp_init Httpc junk s data = (data, [])"
| "pp_init Https junk s data = map_prod DHttp id (pp_https_init s)"
| "pp_init Xc junk s data = map_prod DX id (pp_xc_init junk s)"
| "pp_init Psqlc junk s data = map_prod DPsql id (pp_psqlc_init s)"
| "pp_init Psqls junk s data = map_prod DPsql id (pp_psqls_init s)"
| "pp_init Mysqlc junk s data = map_prod DMysql id (pp_mysqlc_init s)"
| "pp_init Mysqls junk s data = map_prod DMysql id (pp_mysqls_init s)"
| "pp_init Fcgis junk s data = map_prod DFcgi id (pp_fcgis_init s)"
| "pp_init Fcgic junk s data = map_prod DFcgi id (pp_fcgic_init s)"
| "pp_init Trivial junk s data = (DNull, [])"

fun pp_shutdown :: "pp_dispatcher \<Rightarrow> pp_data \<Rightarrow> pp_data \<times> logcall list" where
  "pp_shutdown Perlpc data = (data, [])"
| "pp_shutdown Perlps data = (DNull, pp_perlps_shutdown)"
| "pp_shutdown Httpc data = (data, [])"
| "pp_shutdown Https data = (DNull, pp_https_shutdown)"
| "pp_shutdown Xc data = (DNull, pp_xc_shutdown)"
| "pp_shutdown Psqlc data = (DNull, pp_psqlc_shutdown)"
| "pp_shutdown Psqls data = (DNull, pp_psqls_shutdown)"
| "pp_shutdown Mysqlc data = (DNull, pp_mysqlc_shutdown)"
| "pp_shutdown Mysqls data = (DNull, pp_mysqls_shutdown)"
| "pp_shutdown Fcgis data = (DNull, pp_fcgis_shutdown)"
| "pp_shutdown Fcgic data = (DNull, pp_fcgic_shutdown)"
| "pp_shutdown Trivial data = (DNull, [])"

text \<open>
  The casts of \<^verbatim>\<open>void *data\<close>: a null pointer is dereferenced, and the state of another plugin is
  read as something it is not, for which the model has the out-of-bounds result.
\<close>

definition as_state :: "('st \<Rightarrow> pp_data) \<Rightarrow> 'st option \<Rightarrow> ('st \<Rightarrow> 'st pp_answer) \<Rightarrow> pp_data \<Rightarrow> pp_data pp_answer" where
  "as_state mk found call data =
     (if data = DNull then Inl NullDeref
      else case found of
        None \<Rightarrow> Inl OutOfBounds
      | Some st \<Rightarrow> rbind (call st) (\<lambda>(st', r, logs). Inr (mk st', r, logs)))"

fun perlp_of :: "pp_data \<Rightarrow> pp_perlp_state option" where
  "perlp_of (DPerlp st) = Some st"
| "perlp_of _ = None"

fun http_of :: "pp_data \<Rightarrow> pp_http_state option" where
  "http_of (DHttp st) = Some st"
| "http_of _ = None"

fun psql_of :: "pp_data \<Rightarrow> pp_psql_state option" where
  "psql_of (DPsql st) = Some st"
| "psql_of _ = None"

fun mysql_of :: "pp_data \<Rightarrow> pp_mysql_state option" where
  "mysql_of (DMysql st) = Some st"
| "mysql_of _ = None"

fun x_of :: "pp_data \<Rightarrow> pp_x_state option" where
  "x_of (DX st) = Some st"
| "x_of _ = None"

fun fcgi_of :: "pp_data \<Rightarrow> pp_fcgi_state_wrap option" where
  "fcgi_of (DFcgi st) = Some st"
| "fcgi_of _ = None"

fun pp_read :: "pp_dispatcher \<Rightarrow> pp_junk \<Rightarrow> int \<Rightarrow> pp_data \<Rightarrow> string \<Rightarrow> nat \<Rightarrow> pp_data pp_answer" where
  "pp_read Perlpc junk s data mem len = rbind (pp_perlpc_read () mem len) (\<lambda>(u, r, logs). Inr (data, r, logs))"
| "pp_read Perlps junk s data mem len = as_state DPerlp (perlp_of data) (\<lambda>st. pp_perlps_read s st mem len) data"
| "pp_read Httpc junk s data mem len = rbind (pp_httpc_read () mem len) (\<lambda>(u, r, logs). Inr (data, r, logs))"
| "pp_read Https junk s data mem len = as_state DHttp (http_of data) (\<lambda>st. pp_https_read junk s st mem len) data"
| "pp_read Xc junk s data mem len = as_state DX (x_of data) (\<lambda>st. pp_xc_read s st mem len) data"
| "pp_read Psqlc junk s data mem len = as_state DPsql (psql_of data) (\<lambda>st. pp_psqlc_read s st mem len) data"
| "pp_read Psqls junk s data mem len = as_state DPsql (psql_of data) (\<lambda>st. pp_psqls_read s st mem len) data"
| "pp_read Mysqlc junk s data mem len = as_state DMysql (mysql_of data) (\<lambda>st. pp_mysqlc_read s st mem len) data"
| "pp_read Mysqls junk s data mem len = as_state DMysql (mysql_of data) (\<lambda>st. pp_mysqls_read s st mem len) data"
| "pp_read Fcgis junk s data mem len = as_state DFcgi (fcgi_of data) (\<lambda>st. pp_fcgis_read junk s st mem len) data"
| "pp_read Fcgic junk s data mem len = as_state DFcgi (fcgi_of data) (\<lambda>st. pp_fcgic_read junk s st mem len) data"
| "pp_read Trivial junk s data mem len = rbind (pp_trivial_read () mem len) (\<lambda>(u, r, logs). Inr (data, r, logs))"

text \<open>\<^verbatim>\<open>pp_xc_write\<close> returns its length without looking at the data.\<close>

fun pp_write :: "pp_dispatcher \<Rightarrow> pp_junk \<Rightarrow> int \<Rightarrow> pp_data \<Rightarrow> string \<Rightarrow> nat \<Rightarrow> pp_data pp_answer" where
  "pp_write Perlpc junk s data mem len = rbind (pp_perlpc_write () mem len) (\<lambda>(u, r, logs). Inr (data, r, logs))"
| "pp_write Perlps junk s data mem len = as_state DPerlp (perlp_of data) (\<lambda>st. pp_perlps_write s st mem len) data"
| "pp_write Httpc junk s data mem len = rbind (pp_httpc_write () mem len) (\<lambda>(u, r, logs). Inr (data, r, logs))"
| "pp_write Https junk s data mem len = as_state DHttp (http_of data) (\<lambda>st. pp_https_write s st mem len) data"
| "pp_write Xc junk s data mem len = Inr (data, int len, [])"
| "pp_write Psqlc junk s data mem len = as_state DPsql (psql_of data) (\<lambda>st. pp_psqlc_write s st mem len) data"
| "pp_write Psqls junk s data mem len = as_state DPsql (psql_of data) (\<lambda>st. pp_psqls_write s st mem len) data"
| "pp_write Mysqlc junk s data mem len = as_state DMysql (mysql_of data) (\<lambda>st. pp_mysqlc_write s st mem len) data"
| "pp_write Mysqls junk s data mem len = as_state DMysql (mysql_of data) (\<lambda>st. pp_mysqls_write s st mem len) data"
| "pp_write Fcgis junk s data mem len = as_state DFcgi (fcgi_of data) (\<lambda>st. pp_fcgis_write junk s st mem len) data"
| "pp_write Fcgic junk s data mem len = as_state DFcgi (fcgi_of data) (\<lambda>st. pp_fcgic_write junk s st mem len) data"
| "pp_write Trivial junk s data mem len = rbind (pp_trivial_write () mem len) (\<lambda>(u, r, logs). Inr (data, r, logs))"

section \<open>Plugins that keep the contract\<close>

text \<open>
  The line client answers with one byte too many and the HTTP server looks at bytes behind
  the data; all the others keep the contract.
\<close>

definition framed :: "pp_dispatcher \<Rightarrow> bool" where
  "framed d \<longleftrightarrow> d \<noteq> Perlpc \<and> d \<noteq> Https"

fun data_ok :: "pp_dispatcher \<Rightarrow> pp_data \<Rightarrow> bool" where
  "data_ok Perlps data \<longleftrightarrow> perlp_of data \<noteq> None"
| "data_ok Https data \<longleftrightarrow> http_of data \<noteq> None"
| "data_ok Xc data \<longleftrightarrow> x_of data \<noteq> None"
| "data_ok Psqlc data \<longleftrightarrow> psql_of data \<noteq> None"
| "data_ok Psqls data \<longleftrightarrow> psql_of data \<noteq> None"
| "data_ok Mysqlc data \<longleftrightarrow> mysql_of data \<noteq> None"
| "data_ok Mysqls data \<longleftrightarrow> mysql_of data \<noteq> None"
| "data_ok Fcgis data \<longleftrightarrow> (case fcgi_of data of None \<Rightarrow> False | Some w \<Rightarrow> fcgi_wf (fcgi_read w) \<and> fcgi_wf (fcgi_write w))"
| "data_ok Fcgic data \<longleftrightarrow> (case fcgi_of data of None \<Rightarrow> False | Some w \<Rightarrow> fcgi_wf (fcgi_read w) \<and> fcgi_wf (fcgi_write w))"
| "data_ok _ data \<longleftrightarrow> True"

lemma pp_init_ok: "data_ok d (fst (pp_init d junk s data))"
  by (cases d) (simp_all add: pp_perlps_init_def pp_https_init_def pp_xc_init_def pp_psqlc_init_def pp_psqls_init_def
      pp_mysqlc_init_def pp_mysqls_init_def pp_fcgis_init_def pp_fcgic_init_def pp_fcgi_init_help_def fcgi_side0_def fcgi_wf_def)

text \<open>The cast in front of a plugin keeps its contract.\<close>

lemma as_state_contract:
  assumes "pp_contract speak ok" and of_mk: "\<And>x. of_data (mk x) = Some x" "\<And>x. mk x \<noteq> DNull"
    and of_Some: "\<And>d x. of_data d = Some x \<Longrightarrow> d = mk x"
  shows "pp_contract (\<lambda>d mem len. as_state mk (of_data d) (\<lambda>st. speak st mem len) d)
                     (\<lambda>d. case of_data d of None \<Rightarrow> False | Some x \<Rightarrow> ok x)"
proof (rule pp_contract.contract_variant [OF assms(1), of _ mk], goal_cases)
  case (1 x mem len)
  then show ?case by (simp add: as_state_def of_mk)
next
  case (2 d)
  then show ?case using of_mk(1) of_Some by (auto split: option.splits)
qed

lemma all_contract:
  "pp_contract speak (\<lambda>_. True) \<Longrightarrow>
     pp_contract (\<lambda>(d :: pp_data) mem len. rbind (speak () mem len) (\<lambda>(u, r, logs). Inr (d, r, logs))) (\<lambda>_. True)"
  using pp_contract.contract_part [of speak "\<lambda>_. True" "\<lambda>_ :: pp_data. ()" "\<lambda>_ d. d"] by simp

lemma fcgi_side_contract:
  "pp_contract (\<lambda>w mem len. rbind (speak_fcgi junk s role d (fcgi_read w) mem len)
       (\<lambda>(x, r, logs). Inr (w\<lparr>fcgi_read := x\<rparr>, r, logs))) (\<lambda>w. fcgi_wf (fcgi_read w) \<and> fcgi_wf (fcgi_write w))"
  "pp_contract (\<lambda>w mem len. rbind (speak_fcgi junk s role d (fcgi_write w) mem len)
       (\<lambda>(x, r, logs). Inr (w\<lparr>fcgi_write := x\<rparr>, r, logs))) (\<lambda>w. fcgi_wf (fcgi_read w) \<and> fcgi_wf (fcgi_write w))"
proof -
  have "pp_contract (\<lambda>w mem len. rbind (speak_fcgi junk s role d (fcgi_read w) mem len)
       (\<lambda>(x, r, logs). Inr (w\<lparr>fcgi_read := x\<rparr>, r, logs))) (\<lambda>w. fcgi_wf (fcgi_read w))"
    by (rule fcgi.contract_part [where put = "\<lambda>x w. w\<lparr>fcgi_read := x\<rparr>"]) simp_all
  then show "pp_contract (\<lambda>w mem len. rbind (speak_fcgi junk s role d (fcgi_read w) mem len)
       (\<lambda>(x, r, logs). Inr (w\<lparr>fcgi_read := x\<rparr>, r, logs))) (\<lambda>w. fcgi_wf (fcgi_read w) \<and> fcgi_wf (fcgi_write w))"
    by (rule pp_contract.contract_more) (auto elim!: rbind_InrE)
  have "pp_contract (\<lambda>w mem len. rbind (speak_fcgi junk s role d (fcgi_write w) mem len)
       (\<lambda>(x, r, logs). Inr (w\<lparr>fcgi_write := x\<rparr>, r, logs))) (\<lambda>w. fcgi_wf (fcgi_write w))"
    by (rule fcgi.contract_part [where put = "\<lambda>x w. w\<lparr>fcgi_write := x\<rparr>"]) simp_all
  then have "pp_contract (\<lambda>w mem len. rbind (speak_fcgi junk s role d (fcgi_write w) mem len)
       (\<lambda>(x, r, logs). Inr (w\<lparr>fcgi_write := x\<rparr>, r, logs))) (\<lambda>w. fcgi_wf (fcgi_write w) \<and> fcgi_wf (fcgi_read w))"
    by (rule pp_contract.contract_more) (auto elim!: rbind_InrE)
  then show "pp_contract (\<lambda>w mem len. rbind (speak_fcgi junk s role d (fcgi_write w) mem len)
       (\<lambda>(x, r, logs). Inr (w\<lparr>fcgi_write := x\<rparr>, r, logs))) (\<lambda>w. fcgi_wf (fcgi_read w) \<and> fcgi_wf (fcgi_write w))"
    by (simp add: conj_commute)
qed

lemma sql_side_contract:
  "pp_contract (\<lambda>w mem len. rbind (speak_psql s role d (psql_read w) mem len)
       (\<lambda>(x, r, logs). Inr (w\<lparr>psql_read := x\<rparr>, r, logs))) (\<lambda>_. True)"
  "pp_contract (\<lambda>w mem len. rbind (speak_psql s role d (psql_write w) mem len)
       (\<lambda>(x, r, logs). Inr (w\<lparr>psql_write := x\<rparr>, r, logs))) (\<lambda>_. True)"
  "pp_contract (\<lambda>w mem len. rbind (speak_mysql s role d (mysql_read w) mem len)
       (\<lambda>(x, r, logs). Inr (w\<lparr>mysql_read := x\<rparr>, r, logs))) (\<lambda>_. True)"
  "pp_contract (\<lambda>w mem len. rbind (speak_mysql s role d (mysql_write w) mem len)
       (\<lambda>(x, r, logs). Inr (w\<lparr>mysql_write := x\<rparr>, r, logs))) (\<lambda>_. True)"
proof -
  show "pp_contract (\<lambda>w mem len. rbind (speak_psql s role d (psql_read w) mem len)
       (\<lambda>(x, r, logs). Inr (w\<lparr>psql_read := x\<rparr>, r, logs))) (\<lambda>_. True)"
    by (rule psql.contract_part [where put = "\<lambda>x w. w\<lparr>psql_read := x\<rparr>"]) simp_all
  show "pp_contract (\<lambda>w mem len. rbind (speak_psql s role d (psql_write w) mem len)
       (\<lambda>(x, r, logs). Inr (w\<lparr>psql_write := x\<rparr>, r, logs))) (\<lambda>_. True)"
    by (rule psql.contract_part [where put = "\<lambda>x w. w\<lparr>psql_write := x\<rparr>"]) simp_all
  show "pp_contract (\<lambda>w mem len. rbind (speak_mysql s role d (mysql_read w) mem len)
       (\<lambda>(x, r, logs). Inr (w\<lparr>mysql_read := x\<rparr>, r, logs))) (\<lambda>_. True)"
    by (rule mysql.contract_part [where put = "\<lambda>x w. w\<lparr>mysql_read := x\<rparr>"]) simp_all
  show "pp_contract (\<lambda>w mem len. rbind (speak_mysql s role d (mysql_write w) mem len)
       (\<lambda>(x, r, logs). Inr (w\<lparr>mysql_write := x\<rparr>, r, logs))) (\<lambda>_. True)"
    by (rule mysql.contract_part [where put = "\<lambda>x w. w\<lparr>mysql_write := x\<rparr>"]) simp_all
qed

lemma of_data_inverse:
  "perlp_of d = Some p \<longleftrightarrow> d = DPerlp p" "psql_of d = Some q \<longleftrightarrow> d = DPsql q" "mysql_of d = Some m \<longleftrightarrow> d = DMysql m"
  "x_of d = Some x \<longleftrightarrow> d = DX x" "fcgi_of d = Some f \<longleftrightarrow> d = DFcgi f"
  by (cases d; simp)+

lemma read_side_contracts:
  "pp_contract (pp_perlps_read s) (\<lambda>_. True)" "pp_contract (pp_xc_read s) (\<lambda>_. True)"
  "pp_contract (pp_psqlc_read s) (\<lambda>_. True)" "pp_contract (pp_psqls_read s) (\<lambda>_. True)"
  "pp_contract (pp_mysqlc_read s) (\<lambda>_. True)" "pp_contract (pp_mysqls_read s) (\<lambda>_. True)"
  "pp_contract (pp_fcgis_read junk s) (\<lambda>w. fcgi_wf (fcgi_read w) \<and> fcgi_wf (fcgi_write w))"
  "pp_contract (pp_fcgic_read junk s) (\<lambda>w. fcgi_wf (fcgi_read w) \<and> fcgi_wf (fcgi_write w))"
  unfolding pp_psqlc_read_def pp_psqls_read_def pp_mysqlc_read_def pp_mysqls_read_def pp_fcgis_read_def pp_fcgic_read_def
  by (rule perlps_r.pp_contract_axioms xc_r.pp_contract_axioms sql_side_contract fcgi_side_contract)+

lemma write_side_contracts:
  "pp_contract (pp_perlps_write s) (\<lambda>_. True)"
  "pp_contract (pp_psqlc_write s) (\<lambda>_. True)" "pp_contract (pp_psqls_write s) (\<lambda>_. True)"
  "pp_contract (pp_mysqlc_write s) (\<lambda>_. True)" "pp_contract (pp_mysqls_write s) (\<lambda>_. True)"
  "pp_contract (pp_fcgis_write junk s) (\<lambda>w. fcgi_wf (fcgi_read w) \<and> fcgi_wf (fcgi_write w))"
  "pp_contract (pp_fcgic_write junk s) (\<lambda>w. fcgi_wf (fcgi_read w) \<and> fcgi_wf (fcgi_write w))"
  unfolding pp_psqlc_write_def pp_psqls_write_def pp_mysqlc_write_def pp_mysqls_write_def pp_fcgis_write_def pp_fcgic_write_def
  by (rule perlps_w.pp_contract_axioms sql_side_contract fcgi_side_contract)+

lemma cast_contract:
  assumes "pp_contract speak (\<lambda>_. True)" and "\<And>x. of_data (mk x) = Some x" and "\<And>x. mk x \<noteq> DNull"
    and "\<And>d x. of_data d = Some x \<Longrightarrow> d = mk x"
  shows "pp_contract (\<lambda>d mem len. as_state mk (of_data d) (\<lambda>st. speak st mem len) d) (\<lambda>d. of_data d \<noteq> None)"
proof -
  have "(\<lambda>d. case of_data d of None \<Rightarrow> False | Some x \<Rightarrow> True) = (\<lambda>d. of_data d \<noteq> None)"
    by (auto simp: fun_eq_iff split: option.splits)
  with as_state_contract [OF assms] show ?thesis by metis
qed

text \<open>The contract behind each of the casts.\<close>

lemma cast_contracts:
  "pp_contract speak1 (\<lambda>_. True) \<Longrightarrow>
     pp_contract (\<lambda>d mem len. as_state DPerlp (perlp_of d) (\<lambda>st. speak1 st mem len) d) (\<lambda>d. perlp_of d \<noteq> None)"
  "pp_contract speak2 (\<lambda>_. True) \<Longrightarrow>
     pp_contract (\<lambda>d mem len. as_state DX (x_of d) (\<lambda>st. speak2 st mem len) d) (\<lambda>d. x_of d \<noteq> None)"
  "pp_contract speak3 (\<lambda>_. True) \<Longrightarrow>
     pp_contract (\<lambda>d mem len. as_state DPsql (psql_of d) (\<lambda>st. speak3 st mem len) d) (\<lambda>d. psql_of d \<noteq> None)"
  "pp_contract speak4 (\<lambda>_. True) \<Longrightarrow>
     pp_contract (\<lambda>d mem len. as_state DMysql (mysql_of d) (\<lambda>st. speak4 st mem len) d) (\<lambda>d. mysql_of d \<noteq> None)"
  "pp_contract speak5 ok \<Longrightarrow>
     pp_contract (\<lambda>d mem len. as_state DFcgi (fcgi_of d) (\<lambda>st. speak5 st mem len) d)
       (\<lambda>d. case fcgi_of d of None \<Rightarrow> False | Some w \<Rightarrow> ok w)"
  subgoal by (rule cast_contract) (auto simp: of_data_inverse)
  subgoal by (rule cast_contract) (auto simp: of_data_inverse)
  subgoal by (rule cast_contract) (auto simp: of_data_inverse)
  subgoal by (rule cast_contract) (auto simp: of_data_inverse)
  subgoal by (rule as_state_contract) (auto simp: of_data_inverse)
  done

lemma pp_read_casts:
  "pp_read Perlps junk s = (\<lambda>data mem len. as_state DPerlp (perlp_of data) (\<lambda>st. pp_perlps_read s st mem len) data)"
  "pp_read Xc junk s = (\<lambda>data mem len. as_state DX (x_of data) (\<lambda>st. pp_xc_read s st mem len) data)"
  "pp_read Psqlc junk s = (\<lambda>data mem len. as_state DPsql (psql_of data) (\<lambda>st. pp_psqlc_read s st mem len) data)"
  "pp_read Psqls junk s = (\<lambda>data mem len. as_state DPsql (psql_of data) (\<lambda>st. pp_psqls_read s st mem len) data)"
  "pp_read Mysqlc junk s = (\<lambda>data mem len. as_state DMysql (mysql_of data) (\<lambda>st. pp_mysqlc_read s st mem len) data)"
  "pp_read Mysqls junk s = (\<lambda>data mem len. as_state DMysql (mysql_of data) (\<lambda>st. pp_mysqls_read s st mem len) data)"
  "pp_read Fcgis junk s = (\<lambda>data mem len. as_state DFcgi (fcgi_of data) (\<lambda>st. pp_fcgis_read junk s st mem len) data)"
  "pp_read Fcgic junk s = (\<lambda>data mem len. as_state DFcgi (fcgi_of data) (\<lambda>st. pp_fcgic_read junk s st mem len) data)"
  "pp_read Httpc junk s = (\<lambda>data mem len. rbind (pp_httpc_read () mem len) (\<lambda>(u, r, logs). Inr (data, r, logs)))"
  "pp_read Trivial junk s = (\<lambda>data mem len. rbind (pp_trivial_read () mem len) (\<lambda>(u, r, logs). Inr (data, r, logs)))"
  by (simp_all add: fun_eq_iff)

lemma pp_write_casts:
  "pp_write Perlps junk s = (\<lambda>data mem len. as_state DPerlp (perlp_of data) (\<lambda>st. pp_perlps_write s st mem len) data)"
  "pp_write Psqlc junk s = (\<lambda>data mem len. as_state DPsql (psql_of data) (\<lambda>st. pp_psqlc_write s st mem len) data)"
  "pp_write Psqls junk s = (\<lambda>data mem len. as_state DPsql (psql_of data) (\<lambda>st. pp_psqls_write s st mem len) data)"
  "pp_write Mysqlc junk s = (\<lambda>data mem len. as_state DMysql (mysql_of data) (\<lambda>st. pp_mysqlc_write s st mem len) data)"
  "pp_write Mysqls junk s = (\<lambda>data mem len. as_state DMysql (mysql_of data) (\<lambda>st. pp_mysqls_write s st mem len) data)"
  "pp_write Fcgis junk s = (\<lambda>data mem len. as_state DFcgi (fcgi_of data) (\<lambda>st. pp_fcgis_write junk s st mem len) data)"
  "pp_write Fcgic junk s = (\<lambda>data mem len. as_state DFcgi (fcgi_of data) (\<lambda>st. pp_fcgic_write junk s st mem len) data)"
  "pp_write Xc junk s = (\<lambda>data mem len. rbind (pp_trivial_write () mem len) (\<lambda>(u, r, logs). Inr (data, r, logs)))"
  "pp_write Httpc junk s = (\<lambda>data mem len. rbind (pp_httpc_write () mem len) (\<lambda>(u, r, logs). Inr (data, r, logs)))"
  "pp_write Trivial junk s = (\<lambda>data mem len. rbind (pp_trivial_write () mem len) (\<lambda>(u, r, logs). Inr (data, r, logs)))"
  by (simp_all add: fun_eq_iff pp_trivial_write_def)

lemma data_ok_funs:
  "data_ok Perlps = (\<lambda>data. perlp_of data \<noteq> None)" "data_ok Xc = (\<lambda>data. x_of data \<noteq> None)"
  "data_ok Psqlc = (\<lambda>data. psql_of data \<noteq> None)" "data_ok Psqls = (\<lambda>data. psql_of data \<noteq> None)"
  "data_ok Mysqlc = (\<lambda>data. mysql_of data \<noteq> None)" "data_ok Mysqls = (\<lambda>data. mysql_of data \<noteq> None)"
  "data_ok Fcgis = (\<lambda>data. case fcgi_of data of None \<Rightarrow> False | Some w \<Rightarrow> fcgi_wf (fcgi_read w) \<and> fcgi_wf (fcgi_write w))"
  "data_ok Fcgic = (\<lambda>data. case fcgi_of data of None \<Rightarrow> False | Some w \<Rightarrow> fcgi_wf (fcgi_read w) \<and> fcgi_wf (fcgi_write w))"
  "data_ok Httpc = (\<lambda>_. True)" "data_ok Trivial = (\<lambda>_. True)"
  by (simp_all add: fun_eq_iff)

lemma framed_read_contract: "framed d \<Longrightarrow> pp_contract (pp_read d junk s) (data_ok d)"
  by (cases d; simp only: framed_def pp_read_casts data_ok_funs pp_dispatcher.distinct simp_thms)
     (rule cast_contracts read_side_contracts all_contract httpc_r.pp_contract_axioms trivial_r.pp_contract_axioms)+

lemma xc_write_contract: "pp_contract (pp_write Xc junk s) (data_ok Xc)"
proof -
  have "pp_contract (pp_write Xc junk s) (\<lambda>data. True \<and> x_of data \<noteq> None)"
    unfolding pp_write_casts
    by (rule pp_contract.contract_more [OF all_contract [OF trivial_w.pp_contract_axioms]])
       (auto simp: pp_trivial_write_def)
  then show ?thesis by (simp only: data_ok_funs simp_thms)
qed

lemma framed_write_contract:
  assumes "framed d"
  shows "pp_contract (pp_write d junk s) (data_ok d)"
proof (cases "d = Xc")
  case True
  then show ?thesis by (simp only: xc_write_contract)
next
  case False
  with assms show ?thesis
    by (cases d; simp only: framed_def pp_write_casts data_ok_funs pp_dispatcher.distinct simp_thms)
       (rule cast_contracts write_side_contracts all_contract httpc_w.pp_contract_axioms trivial_w.pp_contract_axioms)+
qed

section \<open>Identification\<close>

text \<open>
  A socket address as the code looks at it.  For IPv6 the code still reads the fields of
  \<^verbatim>\<open>sockaddr_in\<close>: the port is in the same place, the address is the flow label, and \<open>sin6_text\<close> is
  what \<^verbatim>\<open>inet_ntop\<close> prints for the sixteen bytes from there.  For a Unix socket \<open>sun_path\<close> is what the
  pointer to the path can reach and \<open>splen\<close> the length of the path that the address length gives.
\<close>

datatype sockaddr =
    AF_INET (sin_addr: "32 word") (sin_port: nat)
  | AF_INET6 (sin6_flowinfo: "32 word") (sin6_text: string) (sin6_port: nat)
  | AF_FILE (sun_path: string) (splen: int)
  | AF_OTHER

text \<open>The services files and the value of \<^verbatim>\<open>LIBBTRACE_SERVICES\<close>.\<close>

type_synonym serv_env = "files \<times> string option"

definition is_protocol_port :: "serv_env \<Rightarrow> string \<Rightarrow> int \<Rightarrow> getserv \<Rightarrow> bool \<times> getserv" where
  "is_protocol_port fe protocol_name port st =
     (let (protocol_port, st') = getportbyname (fst fe) (snd fe) protocol_name st
      in (if 0 < protocol_port then port = protocol_port else False, st'))"

text \<open>The chain of tests on a port: every plugin's port is looked up until one matches.\<close>

fun id_by_port :: "serv_env \<Rightarrow> int \<Rightarrow> (pp_dispatcher \<times> string) list \<Rightarrow> getserv \<Rightarrow> (pp_dispatcher \<times> string) option \<times> getserv" where
  "id_by_port fe port [] st = (None, st)"
| "id_by_port fe port ((d, tag) # rest) st =
     (case is_protocol_port fe (pp_name d) port st of
        (hit, st') \<Rightarrow> if hit then (Some (d, tag), st') else id_by_port fe port rest st')"

text \<open>The chain of tests on a path.\<close>

fun id_by_path :: "string \<Rightarrow> (string \<times> pp_dispatcher \<times> string) list \<Rightarrow> (pp_dispatcher \<times> string) option result" where
  "id_by_path path [] = Inr None"
| "id_by_path path ((part, d, tag) # rest) =
     rbind (mem_strstr part path) (\<lambda>i. if i \<noteq> None then Inr (Some (d, tag)) else id_by_path path rest)"

definition bind_ports :: "(pp_dispatcher \<times> string) list" where
  "bind_ports = [(Https, ''https''), (Psqls, ''psqls''), (Mysqls, ''mysqls''), (Perlps, ''perlps''), (Fcgis, ''fcgis'')]"

definition bind_paths :: "(string \<times> pp_dispatcher \<times> string) list" where
  "bind_paths = [(''/var/run/postgl'', Psqls, ''psqls''), (''/var/run/mysql'', Mysqls, ''mysqls'')]"

definition connect_ports :: "(pp_dispatcher \<times> string) list" where
  "connect_ports = [(Httpc, ''httpc''), (Psqlc, ''psqlc''), (Mysqlc, ''mysqlc''), (Fcgic, ''fcgic'')]"

definition connect_paths :: "(string \<times> pp_dispatcher \<times> string) list" where
  "connect_paths = [(''/var/run/postgl'', Psqlc, ''psqlc''), (''/var/run/mysql'', Mysqlc, ''mysqlc''),
                    (''/usr/local/ze'', Fcgic, ''fcgic'')]"

text \<open>What was found, with the log call that says so.\<close>

definition pp_found :: "(pp_dispatcher \<times> string) option \<Rightarrow> getserv \<Rightarrow> pp_dispatcher option \<times> logcall list \<times> getserv" where
  "pp_found hit st =
     (case hit of None \<Rightarrow> (None, [], st) | Some (d, tag) \<Rightarrow> (Some d, [LOGBINs (SYS ''PP_ID'') 0 tag], st))"

definition pp_id_bind :: "bool \<Rightarrow> serv_env \<Rightarrow> sockaddr \<Rightarrow> getserv \<Rightarrow> (pp_dispatcher option \<times> logcall list \<times> getserv) result" where
  "pp_id_bind disabled fe addr st =
     (if disabled then Inr (None, [], st)
      else case addr of
        AF_INET a port \<Rightarrow> Inr (case_prod pp_found (id_by_port fe (int port) bind_ports st))
      | AF_INET6 f t port \<Rightarrow> Inr (case_prod pp_found (id_by_port fe (int port) bind_ports st))
      | AF_FILE path n \<Rightarrow> rbind (id_by_path path bind_paths) (\<lambda>hit. Inr (pp_found hit st))
      | AF_OTHER \<Rightarrow> Inr (None, [], st))"

text \<open>\<^verbatim>\<open>strncmp("/tmp/.X11-unix", path, 14)\<close> stops at the first difference.\<close>

definition is_x11_path :: "string \<Rightarrow> bool result" where
  "is_x11_path path =
     (let n = length (takeWhile (\<lambda>(a, b). a = b) (zip ''/tmp/.X11-unix'' path)) in
      if n = 14 then Inr True else if n < length path then Inr False else Inl OutOfBounds)"

definition pp_id_connect :: "bool \<Rightarrow> serv_env \<Rightarrow> sockaddr \<Rightarrow> getserv \<Rightarrow> (pp_dispatcher option \<times> logcall list \<times> getserv) result" where
  "pp_id_connect disabled fe addr st =
     (if disabled then Inr (None, [], st)
      else case addr of
        AF_INET a port \<Rightarrow> Inr (case_prod pp_found (id_by_port fe (int port) connect_ports st))
      | AF_INET6 f t port \<Rightarrow> Inr (case_prod pp_found (id_by_port fe (int port) connect_ports st))
      | AF_FILE path n \<Rightarrow>
          rbind (id_by_path path connect_paths) (\<lambda>hit.
            if hit \<noteq> None then Inr (pp_found hit st)
            else rbind (is_x11_path path) (\<lambda>x. Inr (pp_found (if x then Some (Xc, ''xc'') else None) st)))
      | AF_OTHER \<Rightarrow> Inr (None, [], st))"

definition pp_id_exec :: "bool \<Rightarrow> string \<Rightarrow> getserv \<Rightarrow> pp_dispatcher option \<times> logcall list \<times> getserv" where
  "pp_id_exec disabled foo st =
     (if disabled then (None, [], st)
      else pp_found (if strstr ''.fcgi'' foo \<noteq> None then Some (Fcgis, ''fcgis'') else None) st)"

section \<open>What identification finds\<close>

text \<open>The port a services file gives to a name: that of the first entry with the name or alias.\<close>

definition service_port :: "string \<Rightarrow> string \<Rightarrow> nat option" where
  "service_port content name = map_option s_port (find (matches_name name None) (services content))"

definition gs_system :: "getserv \<Rightarrow> bool" where
  "gs_system st \<longleftrightarrow> gs_idle st \<and> (user_file st = None \<or> user_file st = Some None)"

lemma getportbyname_system:
  assumes "gs_system st" and "files path_services = Some t"
  obtains st' where "getportbyname files None name st = (case service_port t name of None \<Rightarrow> - 1 | Some p \<Rightarrow> int p, st')"
    and "gs_system st'"
proof -
  define st0 where "st0 = (if user_file st = None then st\<lparr>user_file := Some None\<rparr> else st)"
  have i: "gs_idle st0" "user_file st0 = Some None" using assms(1) by (auto simp: st0_def gs_system_def gs_idle_def)
  from bpgetservbyname_file [OF i(1), of files None t name None] assms(2)
  have "bpgetservbyname name None files None st0 =
     (case find (matches_name name None) (services t) of
        Some e \<Rightarrow> (True, st0\<lparr>serv := e\<rparr>) | None \<Rightarrow> (False, st0\<lparr>serv := last (serv st0 # services t)\<rparr>))"
    by simp
  then show thesis
    using i that by (cases "find (matches_name name None) (services t)")
      (auto simp: getportbyname_def st0_def [symmetric] service_port_def gs_system_def gs_idle_def)
qed

lemma id_by_port_system:
  assumes "gs_system st" and "files path_services = Some t"
  shows "\<exists>st'. id_by_port (files, None) (int port) cands st =
     (find (\<lambda>(d, tag). 0 < port \<and> service_port t (pp_name d) = Some port) cands, st')"
  using assms(1)
proof (induction cands arbitrary: st)
  case (Cons c cands)
  obtain d tag where c: "c = (d, tag)" by (cases c)
  from getportbyname_system [where files = files and t = t and name = "pp_name d", OF Cons.prems assms(2)] obtain st1 where
    g: "getportbyname files None (pp_name d) st = (case service_port t (pp_name d) of None \<Rightarrow> - 1 | Some p \<Rightarrow> int p, st1)"
    and st1: "gs_system st1" by blast
  have p: "is_protocol_port (files, None) (pp_name d) (int port) st = (0 < port \<and> service_port t (pp_name d) = Some port, st1)"
    by (auto simp: is_protocol_port_def g split: option.splits)
  show ?case using Cons.IH [OF st1] by (auto simp: c p)
qed simp

text \<open>
  C28: a socket is given the plugin of its port.  Without a user's services file, binding
  to an Internet address finds the first plugin of the server list whose service has the
  port in \<^verbatim>\<open>/etc/services\<close>, connecting the first of the client list, and none when no service has it;
  the choice is logged.
\<close>
theorem pp_id_chooses_by_port:
  assumes "gs_system st" and "files path_services = Some t"
  shows "\<exists>st'. pp_id_bind False (files, None) (AF_INET a port) st =
           Inr (pp_found (find (\<lambda>(d, tag). 0 < port \<and> service_port t (pp_name d) = Some port) bind_ports) st') \<and>
         (\<exists>st''. pp_id_connect False (files, None) (AF_INET a port) st =
           Inr (pp_found (find (\<lambda>(d, tag). 0 < port \<and> service_port t (pp_name d) = Some port) connect_ports) st''))"
proof -
  from id_by_port_system [where files = files and t = t and port = port and cands = bind_ports, OF assms] obtain st' where
    b: "id_by_port (files, None) (int port) bind_ports st =
      (find (\<lambda>(d, tag). 0 < port \<and> service_port t (pp_name d) = Some port) bind_ports, st')" ..
  from id_by_port_system [where files = files and t = t and port = port and cands = connect_ports, OF assms] obtain st'' where
    c: "id_by_port (files, None) (int port) connect_ports st =
      (find (\<lambda>(d, tag). 0 < port \<and> service_port t (pp_name d) = Some port) connect_ports, st'')" ..
  show ?thesis by (intro exI [of _ st'] exI [of _ st''] conjI) (simp_all add: pp_id_bind_def pp_id_connect_def b c)
qed

lemma sample_service_port: "service_port (print_service sample_service) ''http'' = Some 80"
  unfolding service_port_def services_sample by (simp add: matches_name_def sample_service_def)

lemma gs0_system: "gs_system gs0"
  by (simp add: gs_system_def gs0_idle)

theorem pp_id_chooses_by_port_witness:
  "\<exists>st'. pp_id_bind False (sample_files, None) (AF_INET 0 80) gs0 =
     Inr (Some Https, [LOGBINs (SYS ''PP_ID'') 0 ''https''], st')"
  using pp_id_chooses_by_port [OF gs0_system, of sample_files "print_service sample_service" 0 80]
  by (auto simp: sample_files_def bind_ports_def sample_service_port pp_found_def)

text \<open>The directory of PostgreSQL's socket does not contain \<^verbatim>\<open>/var/run/postgl\<close>.\<close>

lemma postgresql_socket_not_identified:
  "pp_id_connect False fe (AF_FILE (''/var/run/postgresql/.s.PGSQL.5432'' @ [NUL]) 33) st = Inr (None, [], st)"
proof -
  have "id_by_path (''/var/run/postgresql/.s.PGSQL.5432'' @ [NUL]) connect_paths = Inr None" by code_simp
  moreover have "is_x11_path (''/var/run/postgresql/.s.PGSQL.5432'' @ [NUL]) = Inr False" by code_simp
  ultimately show ?thesis by (simp add: pp_id_connect_def pp_found_def)
qed

end
