(* ===== verification/Vfd.thy ===== *)
theory Vfd
  imports Protocol Common
begin

text \<open>
  The virtual descriptors of \<^verbatim>\<open>src/trace/vfd.c\<close>: the state the tracing library keeps in a traced
  process, the read buffer that lets a plugin cut the input into messages, and the copy of written
  data that is shown to a plugin.

  All globals of the library are the fields of one record.  The log calls are collected in
  order, with the flushes; what they put into the log is the subject of the logging theories.
  Calls of the real library are answered by the kernel: the answer is an argument of the
  wrapper, and \<open>k_got\<close> remembers the bytes that reads have taken from a descriptor.
\<close>

section \<open>State\<close>

definition MAX_FDS :: int where "MAX_FDS = 1024"
definition MAX_SOCK_FN :: nat where "MAX_SOCK_FN = 256"
definition VBUFSIZE :: nat where "VBUFSIZE = 65536"
definition LOGD_FD :: int where "LOGD_FD = 79"

datatype vfd_types = VFD_NONE | VFD_SOCK | VFD_PIPE | VFD_DUP | VFD_FILE

datatype vfd_rwe = VFD_SEL_NONE | VFD_SEL_READ | VFD_SEL_WRITE | VFD_SEL_EXCEPT

record vfd =
  vf_type :: vfd_types
  rbuf :: string
  rbuflen :: int
  rbufofs :: int
  rlastlen :: int
  tosend :: int
  ppwantmore :: bool
  wbuf :: string
  wbuflen :: nat
  wbufofs :: nat
  in_prog :: bool
  vf_dispatcher :: "pp_dispatcher option"
  vf_data :: pp_data

text \<open>The cache of ready descriptors behind \<^verbatim>\<open>select\<close> and \<^verbatim>\<open>poll\<close>.\<close>

record vsel =
  vs_read :: "int set"
  vs_write :: "int set"
  vs_except :: "int set"

text \<open>
  What the library asks of the logging code, in order: a \<^verbatim>\<open>LOGBIN\<close> call, \<^verbatim>\<open>lb_flush\<close>, or a new thread
  context for a process and descriptor (\<^verbatim>\<open>alloc_ctx\<close>).
\<close>

datatype logact = Log logcall | Flush | Alloc int int

record proc =
  first_init :: bool
  tracked :: "int set"
  vfd_tab :: "int \<Rightarrow> vfd"
  vsel_data :: vsel
  debug_events :: bool
  bb_disable_pp :: bool
  bb_disable_log :: bool
  bb_disable_all :: bool
  px_serv :: getserv
  px_log :: "logact list"
  px_fe :: serv_env           \<comment> \<open>the services files the process sees\<close>
  px_junk :: pp_junk          \<comment> \<open>what uninitialised memory holds\<close>
  k_got :: "int \<Rightarrow> string"    \<comment> \<open>what reads have taken from the kernel\<close>

definition logs :: "logact list \<Rightarrow> proc \<Rightarrow> proc" where
  "logs l st = st\<lparr>px_log := px_log st @ l\<rparr>"

definition upd_vfd :: "int \<Rightarrow> (vfd \<Rightarrow> vfd) \<Rightarrow> proc \<Rightarrow> proc" where
  "upd_vfd s f st = st\<lparr>vfd_tab := (vfd_tab st)(s := f (vfd_tab st s))\<rparr>"

text \<open>A new entry of the table: the buffers keep their contents and the plugin's data its value.\<close>

definition vfd_tab_init_one :: "vfd \<Rightarrow> vfd" where
  "vfd_tab_init_one v =
     v\<lparr>vf_dispatcher := None, vf_type := VFD_NONE, rbuflen := 0, rbufofs := 0, rlastlen := 0, tosend := 0,
       ppwantmore := False, wbuflen := 0, wbufofs := 0, in_prog := False\<rparr>"

text \<open>The statically zeroed table entry and process state, once initialised.\<close>

definition vfd0 :: vfd where
  "vfd0 = \<lparr> vf_type = VFD_NONE, rbuf = replicate VBUFSIZE NUL, rbuflen = 0, rbufofs = 0, rlastlen = 0, tosend = 0,
            ppwantmore = False, wbuf = replicate VBUFSIZE NUL, wbuflen = 0, wbufofs = 0, in_prog = False,
            vf_dispatcher = None, vf_data = DNull \<rparr>"

definition vsel0 :: vsel where
  "vsel0 = \<lparr> vs_read = {}, vs_write = {}, vs_except = {} \<rparr>"

definition proc0 :: "serv_env \<Rightarrow> pp_junk \<Rightarrow> proc" where
  "proc0 fe junk =
     \<lparr> first_init = False, tracked = {}, vfd_tab = (\<lambda>_. vfd0), vsel_data = vsel0, debug_events = False,
       bb_disable_pp = False, bb_disable_log = False, bb_disable_all = False, px_serv = gs0, px_log = [],
       px_fe = fe, px_junk = junk, k_got = (\<lambda>_. []) \<rparr>"

section \<open>The cache\<close>

definition clear_readable_cache :: "int \<Rightarrow> proc \<Rightarrow> proc" where
  "clear_readable_cache s st = st\<lparr>vsel_data := (vsel_data st)\<lparr>vs_read := vs_read (vsel_data st) - {s}\<rparr>\<rparr>"

definition set_readable_cache :: "int \<Rightarrow> proc \<Rightarrow> proc" where
  "set_readable_cache s st = st\<lparr>vsel_data := (vsel_data st)\<lparr>vs_read := insert s (vs_read (vsel_data st))\<rparr>\<rparr>"

definition clear_writable_cache :: "int \<Rightarrow> proc \<Rightarrow> proc" where
  "clear_writable_cache s st = st\<lparr>vsel_data := (vsel_data st)\<lparr>vs_write := vs_write (vsel_data st) - {s}\<rparr>\<rparr>"

section \<open>The read buffer\<close>

text \<open>
  In \<open>rbuf\<close> the program has been given the bytes below \<open>rlastlen\<close> and may be given
  \<open>tosend\<close> more; the plugin has taken the bytes below \<open>rbufofs\<close>; \<open>rbuflen\<close> bytes hold data.
\<close>

definition show_buffer :: "string \<Rightarrow> int \<Rightarrow> proc \<Rightarrow> proc" where
  "show_buffer sc s st =
     (let v = vfd_tab st s in
      if \<not> debug_events st then st
      else logs [Log (LOGBINiiis (SYS sc) 0 (rbufofs v) (rbuflen v) (tosend v)
                        (if 0 < rbuflen v then ''<occu>'' else ''<empty>'')), Flush] st)"

definition buf_shift :: "int \<Rightarrow> proc \<Rightarrow> proc result" where
  "buf_shift s st =
     (let v = vfd_tab st s; start = (if rbufofs v < rlastlen v then rbufofs v else rlastlen v); tomove = rbuflen v - start in
      if start = 0 then Inr st
      else if start < 0 \<or> tomove < 0 \<or> int VBUFSIZE < rbuflen v then Inl OutOfBounds
      else Inr (show_buffer ''BUF_MOVED'' s
                 (upd_vfd s (\<lambda>v. v\<lparr>rbuf := poke (rbuf v) 0 (peek (rbuf v) (nat start) (nat tomove)),
                                  rbufofs := rbufofs v - start, rbuflen := rbuflen v - start,
                                  rlastlen := rlastlen v - start\<rparr>) st)))"

text \<open>What goes into the buffer of the program, and the state.\<close>

definition buf_ret :: "int \<Rightarrow> nat \<Rightarrow> proc \<Rightarrow> (string \<times> proc) result" where
  "buf_ret s out_requested st =
     (let v = vfd_tab st s in
      rbind (assert_c (tosend v \<noteq> 0)) (\<lambda>_.
      rbind (assert_c (rlastlen v < int VBUFSIZE)) (\<lambda>_.
        let out_cando = (if to_int32 (int out_requested) < tosend v then to_int32 (int out_requested) else tosend v) in
        if out_cando < 0 \<or> rlastlen v < 0 \<or> int VBUFSIZE < rlastlen v + out_cando then Inl OutOfBounds
        else let out = peek (rbuf v) (nat (rlastlen v)) (nat out_cando);
                 st1 = upd_vfd s (\<lambda>v. v\<lparr>rlastlen := rlastlen v + out_cando, tosend := tosend v - out_cando\<rparr>) st
             in rbind (assert_c (0 \<le> tosend (vfd_tab st1 s))) (\<lambda>_.
                  let st2 = (if rlastlen (vfd_tab st1 s) = rbuflen (vfd_tab st1 s)
                             then clear_readable_cache s st1 else set_readable_cache s st1)
                  in Inr (out, show_buffer ''BUF_RETURNED'' s st2)))))"

definition present_pp :: "int \<Rightarrow> proc \<Rightarrow> proc result" where
  "present_pp s st =
     (let v = vfd_tab st s; amt = rbuflen v - rbufofs v in
      if amt = 0 then Inr st
      else case vf_dispatcher v of
        None \<Rightarrow> Inl NullDeref
      | Some d \<Rightarrow>
          if amt < 0 \<or> rbufofs v < 0 then Inl OutOfBounds
          else rbind (pp_read d (px_junk st) s (vf_data v) (drop (nat (rbufofs v)) (rbuf v)) (nat amt))
            (\<lambda>(data, a, calls).
               let st1 = logs (map Log calls) (upd_vfd s (\<lambda>v. v\<lparr>ppwantmore := False, vf_data := data\<rparr>) st);
                   st2 = (if a < 0
                          then upd_vfd s (\<lambda>v. v\<lparr>tosend := rbuflen v - rlastlen v, ppwantmore := True\<rparr>) st1
                          else upd_vfd s (\<lambda>v. v\<lparr>rbufofs := rbufofs v + a, tosend := rbufofs v + a - rlastlen v\<rparr>)
                                 (if a < amt then logs [Log (LOGBINii (SYS ''PP_ISO_READ'') 0 a amt)] st1 else st1))
               in Inr (show_buffer ''BUF_PPOFS'' s st2)))"

text \<open>
  The kernel answers a read of \<open>count\<close> bytes with an error or with at most \<open>count\<close> of the
  bytes it has; none is the end of the stream.
\<close>

definition real_read :: "int \<Rightarrow> nat \<Rightarrow> rdret \<Rightarrow> proc \<Rightarrow> int \<times> string \<times> proc" where
  "real_read s count ans st =
     (case ans of
        RdErr \<Rightarrow> (- 1, [], st)
      | RdBytes b \<Rightarrow> (int (length (take count b)), take count b, st\<lparr>k_got := (k_got st)(s := k_got st s @ take count b)\<rparr>))"

text \<open>
  The common body of \<^verbatim>\<open>virtual_read\<close>, \<^verbatim>\<open>virtual_recv\<close> and \<^verbatim>\<open>virtual_recvfrom\<close>: the return value, what
  is stored in the program's buffer, and the state.  Only \<^verbatim>\<open>virtual_read\<close> has the last assertion.
\<close>

definition short_log :: "string \<Rightarrow> int \<Rightarrow> proc \<Rightarrow> proc" where
  "short_log sc s st =
     (if debug_events st
      then logs [Log (LOGBINiii (SYS sc) 0 (rbufofs (vfd_tab st s)) (rbuflen (vfd_tab st s)) (tosend (vfd_tab st s)))] st
      else st)"

definition give :: "int \<Rightarrow> nat \<Rightarrow> proc \<Rightarrow> (int \<times> string \<times> proc) result" where
  "give s len st = rbind (buf_ret s len st) (\<lambda>(out, st'). Inr (int (length out), out, st'))"

definition refill_and_give :: "bool \<Rightarrow> int \<Rightarrow> nat \<Rightarrow> rdret \<Rightarrow> proc \<Rightarrow> (int \<times> string \<times> proc) result" where
  "refill_and_give strict s len ans st =
     rbind (assert_c (tosend (vfd_tab st s) = 0)) (\<lambda>_.
     rbind (buf_shift s st) (\<lambda>st1.
       let v = vfd_tab st1 s in
       if int VBUFSIZE < rbuflen v \<or> rbuflen v < 0 then Inl OutOfBounds
       else case real_read s (VBUFSIZE - nat (rbuflen v)) ans st1 of
         (r, got, st2) \<Rightarrow>
           if r \<le> 0 then Inr (r, [], st2)
           else let st3 = show_buffer ''BUF_REFILLED'' s
                            (upd_vfd s (\<lambda>v. v\<lparr>rbuf := poke (rbuf v) (nat (rbuflen v)) got, rbuflen := rbuflen v + r\<rparr>) st2)
                in rbind (present_pp s st3) (\<lambda>st4.
                   rbind (assert_c (strict \<longrightarrow> tosend (vfd_tab st4 s) \<noteq> 0)) (\<lambda>_. give s len st4))))"

definition virtual_input :: "bool \<Rightarrow> int \<Rightarrow> nat \<Rightarrow> rdret \<Rightarrow> proc \<Rightarrow> (int \<times> string \<times> proc) result" where
  "virtual_input strict s len ans st0 =
     (let st = show_buffer ''BUF_PRE'' s st0; v = vfd_tab st s in
      if tosend v \<noteq> 0 then give s len (short_log ''BUF_SHORT1'' s st)
      else if rbufofs v < rbuflen v \<and> \<not> ppwantmore v
      then rbind (present_pp s st) (\<lambda>st1.
             if tosend (vfd_tab st1 s) \<noteq> 0 then give s len (short_log ''BUF_SHORT2'' s st1)
             else refill_and_give strict s len ans st1)
      else refill_and_give strict s len ans st)"

definition virtual_read :: "int \<Rightarrow> nat \<Rightarrow> rdret \<Rightarrow> proc \<Rightarrow> (int \<times> string \<times> proc) result" where
  "virtual_read = virtual_input True"

definition virtual_recvfrom :: "int \<Rightarrow> nat \<Rightarrow> rdret \<Rightarrow> proc \<Rightarrow> (int \<times> string \<times> proc) result" where
  "virtual_recvfrom = virtual_input False"

definition virtual_recv :: "int \<Rightarrow> nat \<Rightarrow> rdret \<Rightarrow> proc \<Rightarrow> (int \<times> string \<times> proc) result" where
  "virtual_recv = virtual_input False"

section \<open>The copy of written data\<close>

text \<open>
  \<open>buf\<close> is the program's buffer and \<open>len\<close> what the kernel took of it.
\<close>

definition vwrite_req :: "int \<Rightarrow> string \<Rightarrow> int \<Rightarrow> proc \<Rightarrow> proc result" where
  "vwrite_req s buf len st =
     (let v = vfd_tab st s in
      case vf_dispatcher v of
        None \<Rightarrow> Inr st
      | Some d \<Rightarrow>
          if len \<le> 0 then Inr st
          else if int (length buf) < len \<or> VBUFSIZE < wbuflen v + nat len then Inl OutOfBounds
          else let wb = poke (wbuf v) (wbuflen v) (take (nat len) buf); wl = wbuflen v + nat len in
            rbind (pp_consume (pp_write d (px_junk st) s) (vf_data v) (drop (wbufofs v) wb) (wl - wbufofs v))
              (\<lambda>(data, mem, vlen, calls).
                 Inr (logs (map Log calls)
                   (upd_vfd s (\<lambda>v. v\<lparr>wbuf := poke wb 0 (take vlen mem), wbuflen := vlen, wbufofs := 0, vf_data := data\<rparr>) st))))"

section \<open>Frames\<close>

lemma logs_same [simp]:
  "vfd_tab (logs l st) = vfd_tab st" "k_got (logs l st) = k_got st" "px_junk (logs l st) = px_junk st"
  "vsel_data (logs l st) = vsel_data st" "debug_events (logs l st) = debug_events st" "tracked (logs l st) = tracked st"
  "bb_disable_all (logs l st) = bb_disable_all st" "px_log (logs l st) = px_log st @ l"
  by (simp_all add: logs_def)

lemma show_buffer_same [simp]:
  "vfd_tab (show_buffer sc s st) = vfd_tab st" "k_got (show_buffer sc s st) = k_got st"
  "px_junk (show_buffer sc s st) = px_junk st" "vsel_data (show_buffer sc s st) = vsel_data st"
  "debug_events (show_buffer sc s st) = debug_events st" "bb_disable_all (show_buffer sc s st) = bb_disable_all st"
  by (simp_all add: show_buffer_def Let_def)

lemma short_log_same [simp]:
  "vfd_tab (short_log sc s st) = vfd_tab st" "k_got (short_log sc s st) = k_got st" "px_junk (short_log sc s st) = px_junk st"
  "vsel_data (short_log sc s st) = vsel_data st" "bb_disable_all (short_log sc s st) = bb_disable_all st"
  by (simp_all add: short_log_def)

lemma cache_same [simp]:
  "vfd_tab (clear_readable_cache s st) = vfd_tab st" "k_got (clear_readable_cache s st) = k_got st"
  "px_junk (clear_readable_cache s st) = px_junk st" "vfd_tab (set_readable_cache s st) = vfd_tab st"
  "k_got (set_readable_cache s st) = k_got st" "px_junk (set_readable_cache s st) = px_junk st"
  "vfd_tab (clear_writable_cache s st) = vfd_tab st" "k_got (clear_writable_cache s st) = k_got st"
  "px_junk (clear_writable_cache s st) = px_junk st" "bb_disable_all (clear_readable_cache s st) = bb_disable_all st"
  "bb_disable_all (set_readable_cache s st) = bb_disable_all st" "bb_disable_all (clear_writable_cache s st) = bb_disable_all st"
  by (simp_all add: clear_readable_cache_def set_readable_cache_def clear_writable_cache_def)

lemma upd_vfd_same [simp]:
  "vfd_tab (upd_vfd s f st) = (vfd_tab st)(s := f (vfd_tab st s))" "k_got (upd_vfd s f st) = k_got st"
  "px_junk (upd_vfd s f st) = px_junk st" "vsel_data (upd_vfd s f st) = vsel_data st"
  "debug_events (upd_vfd s f st) = debug_events st" "px_log (upd_vfd s f st) = px_log st"
  "bb_disable_all (upd_vfd s f st) = bb_disable_all st"
  by (simp_all add: upd_vfd_def)

text \<open>An operation on \<open>s\<close> leaves the other entries, the plugin of \<open>s\<close> and what is not initialised alone.\<close>

definition reads_only :: "int \<Rightarrow> proc \<Rightarrow> proc \<Rightarrow> bool" where
  "reads_only s st st' \<longleftrightarrow>
     px_junk st' = px_junk st \<and> bb_disable_all st' = bb_disable_all st \<and> vf_dispatcher (vfd_tab st' s) = vf_dispatcher (vfd_tab st s) \<and>
     wbuf (vfd_tab st' s) = wbuf (vfd_tab st s) \<and> wbuflen (vfd_tab st' s) = wbuflen (vfd_tab st s) \<and>
     wbufofs (vfd_tab st' s) = wbufofs (vfd_tab st s) \<and>
     (\<forall>x. x \<noteq> s \<longrightarrow> vfd_tab st' x = vfd_tab st x \<and> k_got st' x = k_got st x)"

lemma reads_only_refl: "reads_only s st st"
  by (simp add: reads_only_def)

lemma reads_only_trans: "reads_only s a b \<Longrightarrow> reads_only s b c \<Longrightarrow> reads_only s a c"
  by (auto simp: reads_only_def)

section \<open>The invariant of the read buffer\<close>

text \<open>
  Where the plugin waits for more it has asked for it on the data it has not taken, and the
  program may have all of it; otherwise the program may have what the plugin has taken.
\<close>

definition asked :: "pp_dispatcher \<Rightarrow> pp_junk \<Rightarrow> int \<Rightarrow> pp_data \<Rightarrow> int \<Rightarrow> bool" where
  "asked d junk s data n \<longleftrightarrow>
     (\<exists>mem calls. 0 < n \<and> nat n \<le> length mem \<and> pp_read d junk s data mem (nat n) = Inr (data, - 1, calls))"

definition rd_ok :: "pp_dispatcher \<Rightarrow> int \<Rightarrow> proc \<Rightarrow> bool" where
  "rd_ok d s st \<longleftrightarrow>
     (let v = vfd_tab st s in
      vf_dispatcher v = Some d \<and> data_ok d (vf_data v) \<and> length (rbuf v) = VBUFSIZE \<and>
      0 \<le> rbufofs v \<and> rbufofs v \<le> rbuflen v \<and> rbuflen v \<le> int VBUFSIZE \<and> 0 \<le> rlastlen v \<and> 0 \<le> tosend v \<and>
      (if ppwantmore v
       then rbufofs v \<le> rlastlen v \<and> rlastlen v + tosend v = rbuflen v \<and>
            asked d (px_junk st) s (vf_data v) (rbuflen v - rbufofs v)
       else rlastlen v + tosend v = rbufofs v))"

text \<open>The bytes that have been read from the kernel and not been given to the program.\<close>

definition held :: "int \<Rightarrow> proc \<Rightarrow> string" where
  "held s st = (let v = vfd_tab st s in peek (rbuf v) (nat (rlastlen v)) (nat (rbuflen v - rlastlen v)))"

lemma view_cong:
  "vfd_tab a s = vfd_tab b s \<Longrightarrow> px_junk a = px_junk b \<Longrightarrow> rd_ok d s a = rd_ok d s b"
  "vfd_tab a s = vfd_tab b s \<Longrightarrow> held s a = held s b"
  by (simp_all add: rd_ok_def held_def)

lemma held_give:
  assumes "0 \<le> rlastlen v" and "0 \<le> n" and "rlastlen v + n \<le> rbuflen v"
  shows "peek (rbuf v) (nat (rlastlen v)) (nat (rbuflen v - rlastlen v)) =
     peek (rbuf v) (nat (rlastlen v)) (nat n) @ peek (rbuf v) (nat (rlastlen v + n)) (nat (rbuflen v - (rlastlen v + n)))"
proof -
  have "nat (rbuflen v - rlastlen v) = nat n + nat (rbuflen v - (rlastlen v + n))" "nat (rlastlen v + n) = nat (rlastlen v) + nat n"
    using assms by linarith+
  then show ?thesis by (simp add: peek_add)
qed

lemma give_ok:
  assumes "rd_ok d s st" and "tosend (vfd_tab st s) \<noteq> 0" and "len < 2 ^ 31"
  obtains out st' where "give s len st = Inr (int (length out), out, st')" and "held s st = out @ held s st'"
    and "rd_ok d s st'" and "reads_only s st st'" and "k_got st' = k_got st"
    and "length out = min len (nat (tosend (vfd_tab st s)))"
proof -
  define v where "v = vfd_tab st s"
  define n where "n = min (int len) (tosend v)"
  have inv: "0 \<le> rbufofs v" "rbufofs v \<le> rbuflen v" "rbuflen v \<le> int VBUFSIZE" "0 \<le> rlastlen v" "0 \<le> tosend v"
    "length (rbuf v) = VBUFSIZE" and le: "rlastlen v + tosend v \<le> rbuflen v"
    using assms(1) by (auto simp: rd_ok_def v_def [symmetric] Let_def split: if_splits)
  have len: "to_int32 (int len) = int len" by (rule to_int32_id) (use assms(3) in simp_all)
  have n: "(if to_int32 (int len) < tosend v then to_int32 (int len) else tosend v) = n" "0 \<le> n" "n \<le> tosend v"
    using inv(5) by (auto simp: n_def len)
  have b: "rlastlen v < int VBUFSIZE" "\<not> (n < 0 \<or> rlastlen v < 0 \<or> int VBUFSIZE < rlastlen v + n)"
    using inv le n assms(2) by (auto simp: v_def [symmetric])
  define out where "out = peek (rbuf v) (nat (rlastlen v)) (nat n)"
  have lo: "length out = nat n" unfolding out_def by (rule length_peek) (use inv le n in linarith)
  define st1 where "st1 = upd_vfd s (\<lambda>v. v\<lparr>rlastlen := rlastlen v + n, tosend := tosend v - n\<rparr>) st"
  have "\<exists>st'. buf_ret s len st = Inr (out, st') \<and> vfd_tab st' = vfd_tab st1 \<and> k_got st' = k_got st \<and> px_junk st' = px_junk st \<and> bb_disable_all st' = bb_disable_all st"
    using b n assms(2) unfolding buf_ret_def v_def [symmetric] Let_def n(1) by (simp add: out_def st1_def v_def)
  then obtain st' where st': "buf_ret s len st = Inr (out, st')" "vfd_tab st' = vfd_tab st1" "k_got st' = k_got st" "px_junk st' = px_junk st" "bb_disable_all st' = bb_disable_all st"
    by blast
  show thesis
  proof (rule that)
    show "give s len st = Inr (int (length out), out, st')" by (simp add: give_def st')
    show "held s st = out @ held s st'"
      using held_give [of v n] inv le n by (simp add: held_def st' st1_def v_def [symmetric] Let_def out_def)
    show "rd_ok d s st'" using assms(1) n
      by (auto simp: rd_ok_def st' st1_def v_def [symmetric] Let_def split: if_splits)
    show "reads_only s st st'" by (simp add: reads_only_def st' st1_def)
    show "k_got st' = k_got st" by (rule st')
    show "length out = min len (nat (tosend (vfd_tab st s)))"
      using inv(5) by (auto simp: lo n_def v_def [symmetric] min_def)
  qed
qed

text \<open>
  When the plugin is shown the data, it has taken all the program was given, or it has asked
  for more on what the program was given and there is more now.
\<close>

definition unseen :: "pp_dispatcher \<Rightarrow> int \<Rightarrow> proc \<Rightarrow> bool" where
  "unseen d s st \<longleftrightarrow>
     (let v = vfd_tab st s in
      vf_dispatcher v = Some d \<and> data_ok d (vf_data v) \<and> length (rbuf v) = VBUFSIZE \<and>
      0 \<le> rbufofs v \<and> rbufofs v \<le> rlastlen v \<and> rlastlen v < rbuflen v \<and> rbuflen v \<le> int VBUFSIZE \<and>
      (rlastlen v = rbufofs v \<or> asked d (px_junk st) s (vf_data v) (rlastlen v - rbufofs v)))"

definition pp_fails :: "pp_dispatcher \<Rightarrow> proc \<Rightarrow> int \<Rightarrow> cerror \<Rightarrow> bool" where
  "pp_fails d st s e \<longleftrightarrow> (\<exists>data mem n. data_ok d data \<and> 0 < n \<and> n \<le> length mem \<and> pp_read d (px_junk st) s data mem n = Inl e)"

lemma present_answer:
  assumes "framed d" and "unseen d s st"
    and "pp_read d (px_junk st) s (vf_data v) (drop (nat (rbufofs v)) (rbuf v)) (nat (rbuflen v - rbufofs v)) = Inr (data, a, calls)"
    and v: "v = vfd_tab st s"
  shows "data_ok d data" and "a = - 1 \<or> rlastlen v - rbufofs v < a \<and> a \<le> rbuflen v - rbufofs v"
    and "a = - 1 \<Longrightarrow> data = vf_data v"
proof -
  note contract = framed_read_contract [OF assms(1), of "px_junk st" s]
  define n where "n = nat (rbuflen v - rbufofs v)"
  define mem where "mem = drop (nat (rbufofs v)) (rbuf v)"
  have u: "data_ok d (vf_data v)" "0 < n" "n \<le> length mem" "rbufofs v \<le> rlastlen v" "rlastlen v < rbuflen v"
    "rlastlen v = rbufofs v \<or> asked d (px_junk st) s (vf_data v) (rlastlen v - rbufofs v)"
    using assms(2) by (auto simp: unseen_def v [symmetric] Let_def n_def mem_def)
  note a = assms(3) [folded n_def mem_def]
  show "data_ok d data" by (rule pp_contract.speak_inv [OF contract u(1-3) a])
  show "a = - 1 \<Longrightarrow> data = vf_data v" using pp_contract.speak_waits [OF contract u(1-3)] a by simp
  have "a = - 1 \<or> 0 < a \<and> a \<le> int n" by (rule pp_contract.speak_takes [OF contract u(1-3) a])
  moreover have "a = - 1 \<or> rlastlen v - rbufofs v < a" if as: "asked d (px_junk st) s (vf_data v) (rlastlen v - rbufofs v)"
  proof -
    from as obtain mem0 calls0 where m0: "0 < nat (rlastlen v - rbufofs v)" "nat (rlastlen v - rbufofs v) \<le> length mem0"
      "pp_read d (px_junk st) s (vf_data v) mem0 (nat (rlastlen v - rbufofs v)) = Inr (vf_data v, - 1, calls0)"
      by (auto simp: asked_def)
    have "nat (rlastlen v - rbufofs v) < n" using u(4,5) by (simp add: n_def)
    from pp_contract.speak_fresh [OF contract u(1) m0 this u(3) a] show ?thesis using u(4) by simp
  qed
  ultimately show "a = - 1 \<or> rlastlen v - rbufofs v < a \<and> a \<le> rbuflen v - rbufofs v"
    using u(4-6) by (auto simp: n_def)
qed

lemma present_ok:
  assumes "framed d" and "unseen d s st"
  shows "case present_pp s st of
       Inl e \<Rightarrow> pp_fails d st s e
     | Inr st' \<Rightarrow> rd_ok d s st' \<and> 0 < tosend (vfd_tab st' s) \<and> held s st' = held s st \<and> reads_only s st st' \<and> k_got st' = k_got st"
proof -
  define v where "v = vfd_tab st s"
  have u: "vf_dispatcher v = Some d" "data_ok d (vf_data v)" "length (rbuf v) = VBUFSIZE" "0 \<le> rbufofs v" "rbufofs v \<le> rlastlen v"
    "rlastlen v < rbuflen v" "rbuflen v \<le> int VBUFSIZE"
    using assms(2) by (simp_all add: unseen_def v_def Let_def)
  define ans where "ans = pp_read d (px_junk st) s (vf_data v) (drop (nat (rbufofs v)) (rbuf v)) (nat (rbuflen v - rbufofs v))"
  have amt: "rbuflen v - rbufofs v \<noteq> 0" "\<not> (rbuflen v - rbufofs v < 0 \<or> rbufofs v < 0)" using u by linarith+
  note unf = present_pp_def [of s st, folded v_def, unfolded Let_def]
  show ?thesis
  proof (cases ans)
    case (Inl e)
    then have "pp_fails d st s e" unfolding pp_fails_def ans_def
      using u by (intro exI [of _ "vf_data v"] exI [of _ "drop (nat (rbufofs v)) (rbuf v)"] exI [of _ "nat (rbuflen v - rbufofs v)"]) auto
    then show ?thesis using amt by (simp add: unf u(1) Inl [unfolded ans_def])
  next
    case (Inr x)
    obtain data a calls where x: "x = (data, a, calls)" by (cases x)
    note pa = present_answer [OF assms Inr [unfolded ans_def x] v_def]
    show ?thesis
    proof (cases "a = - 1")
      case True
      note data = pa(3) [OF True]
      have "asked d (px_junk st) s (vf_data v) (rbuflen v - rbufofs v)"
        unfolding asked_def using Inr [unfolded ans_def x True data] u amt
        by (intro exI [of _ "drop (nat (rbufofs v)) (rbuf v)"] exI [of _ calls]) auto
      then show ?thesis
        using amt u pa(1) True data
        by (simp add: unf u(1) Inr [unfolded ans_def x] rd_ok_def held_def reads_only_def v_def [symmetric] Let_def)
    next
      case False
      with pa(2) have a: "rlastlen v - rbufofs v < a" "a \<le> rbuflen v - rbufofs v" "\<not> a < 0" using u(5) by auto
      then show ?thesis
        using amt u pa(1)
        by (simp add: unf u(1) Inr [unfolded ans_def x] rd_ok_def held_def reads_only_def v_def [symmetric] Let_def)
    qed
  qed
qed

text \<open>The buffer is moved down only when the program has been given everything.\<close>

definition given :: "pp_dispatcher \<Rightarrow> int \<Rightarrow> proc \<Rightarrow> bool" where
  "given d s st \<longleftrightarrow> rd_ok d s st \<and> tosend (vfd_tab st s) = 0 \<and> (ppwantmore (vfd_tab st s) \<or> rbufofs (vfd_tab st s) = rbuflen (vfd_tab st s))"

definition waiting :: "int \<Rightarrow> proc \<Rightarrow> int" where
  "waiting s st = rbuflen (vfd_tab st s) - rbufofs (vfd_tab st s)"

lemma shift_ok:
  assumes "given d s st"
  obtains st' where "buf_shift s st = Inr st'" and "given d s st'" and "rbufofs (vfd_tab st' s) = 0"
    and "rbuflen (vfd_tab st' s) = waiting s st" and "held s st' = []" and "held s st = []"
    and "reads_only s st st'" and "k_got st' = k_got st"
proof -
  define v where "v = vfd_tab st s"
  have g: "rlastlen v = rbuflen v" "0 \<le> rbufofs v" "rbufofs v \<le> rbuflen v" "rbuflen v \<le> int VBUFSIZE" "length (rbuf v) = VBUFSIZE"
    using assms by (auto simp: given_def rd_ok_def v_def Let_def split: if_splits)
  have start: "(if rbufofs v < rlastlen v then rbufofs v else rlastlen v) = rbufofs v" using g by simp
  have len: "length (poke (rbuf v) 0 (peek (rbuf v) (nat (rbufofs v)) (nat (rbuflen v - rbufofs v)))) = VBUFSIZE"
    using g by (subst length_poke) simp_all
  show thesis
  proof (cases "rbufofs v = 0")
    case True
    then have "buf_shift s st = Inr st" using g by (simp add: buf_shift_def v_def [symmetric] Let_def)
    then show thesis
      by (rule that) (use assms True g in \<open>simp_all add: reads_only_refl held_def waiting_def v_def [symmetric] Let_def\<close>)
  next
    case False
    let ?f = "\<lambda>v. v\<lparr>rbuf := poke (rbuf v) 0 (peek (rbuf v) (nat (rbufofs (vfd_tab st s))) (nat (rbuflen (vfd_tab st s) - rbufofs (vfd_tab st s)))),
        rbufofs := rbufofs v - rbufofs (vfd_tab st s), rbuflen := rbuflen v - rbufofs (vfd_tab st s),
        rlastlen := rlastlen v - rbufofs (vfd_tab st s)\<rparr>"
    let ?st' = "show_buffer ''BUF_MOVED'' s (upd_vfd s ?f st)"
    have s: "buf_shift s st = Inr ?st'"
      using False g by (simp add: buf_shift_def v_def [symmetric] Let_def start)
    show thesis
      by (rule that [OF s])
         (use assms g len in \<open>auto simp: given_def rd_ok_def held_def waiting_def reads_only_def v_def [symmetric] Let_def split: if_splits\<close>)
  qed
qed

text \<open>
  What one read does for a plugin that keeps the contract: the bytes the program gets are the
  next of those taken from the kernel, and an answer without bytes is the kernel's
  own, except when the buffer is full of data the plugin waits on.
\<close>

definition read_fair :: "int \<Rightarrow> nat \<Rightarrow> rdret \<Rightarrow> proc \<Rightarrow> int \<Rightarrow> string \<Rightarrow> proc \<Rightarrow> bool" where
  "read_fair s len ans st r out st' \<longleftrightarrow>
     (\<exists>new. k_got st' s = k_got st s @ new \<and> held s st @ new = out @ held s st' \<and> length out \<le> len \<and>
        (if r < 0 then r = - 1 \<and> ans = RdErr \<and> out = [] \<and> new = [] else r = int (length out)) \<and>
        (r = 0 \<and> 0 < len \<longrightarrow> held s st = [] \<and> new = [] \<and> (ans = RdBytes [] \<or> waiting s st = int VBUFSIZE)))"

lemma refill_appends:
  assumes "given d s st" and "rbufofs (vfd_tab st s) = 0" and "got \<noteq> []" and "rbuflen (vfd_tab st s) + int (length got) \<le> int VBUFSIZE"
    and "vfd_tab st' s = (vfd_tab st s)\<lparr>rbuf := poke (rbuf (vfd_tab st s)) (nat (rbuflen (vfd_tab st s))) got,
                                  rbuflen := rbuflen (vfd_tab st s) + int (length got)\<rparr>"
    and "px_junk st' = px_junk st"
  shows "unseen d s st'" and "held s st' = got"
proof -
  define v where "v = vfd_tab st s"
  have g: "vf_dispatcher v = Some d" "data_ok d (vf_data v)" "rlastlen v = rbuflen v" "0 \<le> rbuflen v" "length (rbuf v) = VBUFSIZE"
    "ppwantmore v \<and> asked d (px_junk st) s (vf_data v) (rbuflen v) \<or> rbuflen v = 0"
    using assms(1,2) by (auto simp: given_def rd_ok_def v_def Let_def split: if_splits)
  have l: "nat (rbuflen v) + length got \<le> length (rbuf v)" using assms(4) g by (simp add: v_def [symmetric])
  show "unseen d s st'"
    using g assms(2-4) l by (auto simp: unseen_def assms(5,6) v_def [symmetric] Let_def)
  show "held s st' = got"
    using g l by (simp add: held_def assms(5) v_def [symmetric] peek_poke_same)
qed

lemma present_give_ok:
  assumes "framed d" and "unseen d s st" and "len < 2 ^ 31"
    and f: "\<And>x. vfd_tab (f x) = vfd_tab x \<and> k_got (f x) = k_got x \<and> px_junk (f x) = px_junk x \<and> bb_disable_all (f x) = bb_disable_all x"
  shows "case present_pp s st of
       Inl e \<Rightarrow> pp_fails d st s e
     | Inr st1 \<Rightarrow> tosend (vfd_tab st1 s) \<noteq> 0 \<and>
         (\<exists>out st'. give s len (f st1) = Inr (int (length out), out, st') \<and> rd_ok d s st' \<and> reads_only s st st' \<and>
            k_got st' = k_got st \<and> held s st = out @ held s st' \<and> length out \<le> len \<and> (0 < len \<longrightarrow> out \<noteq> []))"
proof (cases "present_pp s st")
  case (Inl e)
  with present_ok [OF assms(1,2)] show ?thesis by simp
next
  case (Inr st1)
  with present_ok [OF assms(1,2)] have p: "rd_ok d s st1" "0 < tosend (vfd_tab st1 s)" "held s st1 = held s st"
    "reads_only s st st1" "k_got st1 = k_got st" by simp_all
  have ft: "vfd_tab (f st1) = vfd_tab st1" "k_got (f st1) = k_got st1" "px_junk (f st1) = px_junk st1" "bb_disable_all (f st1) = bb_disable_all st1" using f by blast+
  have pf: "rd_ok d s (f st1)" "held s (f st1) = held s st1" "reads_only s st (f st1)" "tosend (vfd_tab (f st1) s) \<noteq> 0"
    using p view_cong [of "f st1" s st1] by (simp_all add: reads_only_def ft)
  from give_ok [OF pf(1,4) assms(3)] obtain out st' where
    o: "give s len (f st1) = Inr (int (length out), out, st')" "held s (f st1) = out @ held s st'" "rd_ok d s st'"
      "reads_only s (f st1) st'" "k_got st' = k_got (f st1)" "length out = min len (nat (tosend (vfd_tab (f st1) s)))" by blast
  have "tosend (vfd_tab st1 s) \<noteq> 0" using p(2) by simp
  moreover have "reads_only s st st'" by (rule reads_only_trans [OF pf(3) o(4)])
  moreover have "length out \<le> len \<and> (0 < len \<longrightarrow> out \<noteq> [])" using o(6) p(2) by (auto simp: ft)
  ultimately show ?thesis using o p pf ft Inr by auto
qed

lemma refill_ok:
  assumes "framed d" and "given d s st" and "len < 2 ^ 31"
  shows "case refill_and_give strict s len ans st of
       Inl e \<Rightarrow> pp_fails d st s e
     | Inr (r, out, st') \<Rightarrow> rd_ok d s st' \<and> reads_only s st st' \<and> read_fair s len ans st r out st'"
proof -
  from shift_ok [OF assms(2)] obtain st1 where
    st1: "buf_shift s st = Inr st1" "given d s st1" "rbufofs (vfd_tab st1 s) = 0" "rbuflen (vfd_tab st1 s) = waiting s st"
      "held s st1 = []" "held s st = []" "reads_only s st st1" "k_got st1 = k_got st" by blast
  define w where "w = waiting s st"
  have w: "0 \<le> w" "w \<le> int VBUFSIZE" "rbuflen (vfd_tab st1 s) = w"
    using st1(2,4) by (auto simp: given_def rd_ok_def Let_def w_def)
  have t: "tosend (vfd_tab st s) = 0" and rd1: "rd_ok d s st1" using assms(2) st1(2) by (simp_all add: given_def)
  have unf: "refill_and_give strict s len ans st = (case real_read s (VBUFSIZE - nat w) ans st1 of
         (r, got, st2) \<Rightarrow>
           if r \<le> 0 then Inr (r, [], st2)
           else rbind (present_pp s (show_buffer ''BUF_REFILLED'' s
                  (upd_vfd s (\<lambda>v. v\<lparr>rbuf := poke (rbuf v) (nat (rbuflen v)) got, rbuflen := rbuflen v + r\<rparr>) st2))) (\<lambda>st4.
                   rbind (assert_c (strict \<longrightarrow> tosend (vfd_tab st4 s) \<noteq> 0)) (\<lambda>_. give s len st4)))"
    unfolding refill_and_give_def Let_def using w t by (simp add: st1(1))
  show ?thesis
  proof (cases ans)
    case RdErr
    then have "refill_and_give strict s len ans st = Inr (- 1, [], st1)" unfolding unf by (simp add: real_read_def)
    then show ?thesis using rd1 st1(5-8) RdErr by (simp add: read_fair_def)
  next
    case (RdBytes b)
    define got where "got = take (VBUFSIZE - nat w) b"
    define st2 where "st2 = st1\<lparr>k_got := (k_got st1)(s := k_got st1 s @ got)\<rparr>"
    have rr: "real_read s (VBUFSIZE - nat w) ans st1 = (int (length got), got, st2)"
      by (simp add: real_read_def RdBytes got_def st2_def)
    have ro2: "reads_only s st st2" using st1(7) by (auto simp: reads_only_def st2_def)
    show ?thesis
    proof (cases "got = []")
      case True
      then have "b = [] \<or> VBUFSIZE \<le> nat w" by (auto simp: got_def)
      moreover have "rd_ok d s st2" "held s st2 = []" "k_got st2 s = k_got st s"
        using rd1 st1(5,8) view_cong [of st2 s st1] by (simp_all add: st2_def True)
      moreover have "refill_and_give strict s len ans st = Inr (0, [], st2)" unfolding unf rr by (simp add: True)
      ultimately show ?thesis using ro2 w st1(6) RdBytes by (auto simp: read_fair_def w_def)
    next
      case False
      define st3 where "st3 = show_buffer ''BUF_REFILLED'' s
        (upd_vfd s (\<lambda>v. v\<lparr>rbuf := poke (rbuf v) (nat (rbuflen v)) got, rbuflen := rbuflen v + int (length got)\<rparr>) st2)"
      have fit: "rbuflen (vfd_tab st1 s) + int (length got) \<le> int VBUFSIZE" using w by (auto simp: got_def)
      note ap = refill_appends [OF st1(2,3) False fit, of st3]
      have us: "unseen d s st3" and h3: "held s st3 = got" using ap by (simp_all add: st3_def st2_def)
      have k3: "k_got st3 s = k_got st s @ got" and ro3: "reads_only s st st3"
        using ro2 st1(8) by (auto simp: st3_def st2_def reads_only_def)
      have j3: "px_junk st3 = px_junk st" using ro3 by (simp add: reads_only_def)
      have unf2: "refill_and_give strict s len ans st = rbind (present_pp s st3) (\<lambda>st4.
          rbind (assert_c (strict \<longrightarrow> tosend (vfd_tab st4 s) \<noteq> 0)) (\<lambda>_. give s len st4))"
        using False by (simp add: unf rr st3_def)
      show ?thesis
        using present_give_ok [OF assms(1) us assms(3), of "\<lambda>x. x"] reads_only_trans [OF ro3] h3 k3 st1(6) False
        by (cases "present_pp s st3") (auto simp: unf2 pp_fails_def j3 read_fair_def)
    qed
  qed
qed

lemma virtual_input_ok:
  assumes "framed d" and "rd_ok d s st" and "len < 2 ^ 31"
  shows "case virtual_input strict s len ans st of
       Inl e \<Rightarrow> pp_fails d st s e
     | Inr (r, out, st') \<Rightarrow> rd_ok d s st' \<and> reads_only s st st' \<and> read_fair s len ans st r out st'"
proof -
  define st0 where "st0 = show_buffer ''BUF_PRE'' s st"
  have s0: "vfd_tab st0 = vfd_tab st" "k_got st0 = k_got st" "px_junk st0 = px_junk st" "bb_disable_all st0 = bb_disable_all st" by (simp_all add: st0_def)
  have ok0: "rd_ok d s st0" using assms(2) view_cong(1) [of st0 s st] by (simp add: s0)
  have eq: "pp_fails d st0 s = pp_fails d st s" "reads_only s st0 = reads_only s st" "read_fair s len ans st0 = read_fair s len ans st"
    by (simp_all add: fun_eq_iff pp_fails_def reads_only_def read_fair_def held_def waiting_def s0)
  define v where "v = vfd_tab st s"
  note unf = virtual_input_def [of strict s len ans st, folded st0_def, unfolded Let_def s0, folded v_def]
  consider (short) "tosend v \<noteq> 0" | (unshown) "tosend v = 0" "rbufofs v < rbuflen v \<and> \<not> ppwantmore v"
    | (refill) "tosend v = 0" "\<not> (rbufofs v < rbuflen v \<and> \<not> ppwantmore v)" by blast
  then show ?thesis
  proof cases
    case short
    have f: "rd_ok d s (short_log ''BUF_SHORT1'' s st0)" "tosend (vfd_tab (short_log ''BUF_SHORT1'' s st0) s) \<noteq> 0"
      using ok0 short view_cong(1) [of "short_log ''BUF_SHORT1'' s st0" s st0] by (simp_all add: s0 v_def)
    from give_ok [OF f assms(3)] obtain out st' where o: "give s len (short_log ''BUF_SHORT1'' s st0) = Inr (int (length out), out, st')"
      "held s (short_log ''BUF_SHORT1'' s st0) = out @ held s st'" "rd_ok d s st'" "reads_only s (short_log ''BUF_SHORT1'' s st0) st'"
      "k_got st' = k_got (short_log ''BUF_SHORT1'' s st0)" "length out = min len (nat (tosend (vfd_tab (short_log ''BUF_SHORT1'' s st0) s)))" by blast
    moreover have "0 < tosend v" using short ok0 by (auto simp: rd_ok_def s0 v_def Let_def)
    ultimately show ?thesis
      using short by (auto simp: unf read_fair_def reads_only_def held_def s0 v_def [symmetric])
  next
    case unshown
    have "unseen d s st0" using ok0 unshown by (auto simp: rd_ok_def unseen_def s0 v_def [symmetric] Let_def)
    from present_give_ok [OF assms(1) this assms(3), of "short_log ''BUF_SHORT2'' s"] show ?thesis
      using unshown by (cases "present_pp s st0") (auto simp: unf eq read_fair_def held_def s0)
  next
    case refill
    have "given d s st0" using ok0 refill by (auto simp: given_def rd_ok_def s0 v_def [symmetric] Let_def)
    from refill_ok [OF assms(1) this assms(3), where strict = strict and ans = ans] show ?thesis
      using refill unf by (auto simp: eq split: sum.splits)
  qed
qed

end
