(* ===== verification/Vfd_Io.thy ===== *)
theory Vfd_Io
  imports Vfd
begin

text \<open>
  The wrappers of \<^verbatim>\<open>src/trace/vfd.c\<close> around reading and writing, and what a traced program and
  its plugins see through them.  Each wrapper returns what the C function returns, the bytes it stores
  in the program's buffer where it does, and the state.
\<close>

section \<open>Reading\<close>

definition untraced :: "int \<Rightarrow> proc \<Rightarrow> bool" where
  "untraced s st \<longleftrightarrow> bb_disable_all st \<or> s < 0 \<or> MAX_FDS \<le> s"

text \<open>
  The body the three wrappers share: log the begin, read through the plugin's buffer or directly,
  log the end.
\<close>

definition wrap_input ::
  "(int \<Rightarrow> nat \<Rightarrow> rdret \<Rightarrow> proc \<Rightarrow> (int \<times> string \<times> proc) result) \<Rightarrow> logcall \<Rightarrow> (int \<Rightarrow> logcall) \<Rightarrow>
     int \<Rightarrow> nat \<Rightarrow> rdret \<Rightarrow> proc \<Rightarrow> (int \<times> string \<times> proc) result" where
  "wrap_input virtual begin_call end_call s len ans st =
     (if untraced s st then Inr (real_read s len ans st)
      else let st1 = logs [Log begin_call] st in
        rbind (if vf_dispatcher (vfd_tab st1 s) \<noteq> None
               then rbind (virtual s len ans st1) (\<lambda>(r, out, st2).
                      rbind (assert_c (rbufofs (vfd_tab st2 s) \<le> rbuflen (vfd_tab st2 s))) (\<lambda>_. Inr (r, out, st2)))
               else case real_read s len ans st1 of (r, out, st2) \<Rightarrow> Inr (r, out, clear_readable_cache s st2))
          (\<lambda>(r, out, st3). Inr (r, out, logs [Log (end_call r)] st3)))"

definition wrap_read :: "int \<Rightarrow> nat \<Rightarrow> rdret \<Rightarrow> proc \<Rightarrow> (int \<times> string \<times> proc) result" where
  "wrap_read s len =
     wrap_input virtual_read (LOGBINii (SYS ''READ_BEGIN'') 0 s (int len)) (\<lambda>r. LOGBINii (SYS ''READ'') r s (int len)) s len"

definition wrap_recv :: "int \<Rightarrow> nat \<Rightarrow> int \<Rightarrow> rdret \<Rightarrow> proc \<Rightarrow> (int \<times> string \<times> proc) result" where
  "wrap_recv s len flags =
     wrap_input virtual_recv (LOGBINiii (SYS ''RECV_BEGIN'') 0 s (int len) flags)
       (\<lambda>r. LOGBINiii (SYS ''RECV'') r s (int len) flags) s len"

definition wrap_recvfrom :: "int \<Rightarrow> nat \<Rightarrow> int \<Rightarrow> rdret \<Rightarrow> proc \<Rightarrow> (int \<times> string \<times> proc) result" where
  "wrap_recvfrom s len flags =
     wrap_input virtual_recvfrom (LOGBINiii (SYS ''RECVFROM_BEGIN'') 0 s (int len) flags)
       (\<lambda>r. LOGBINiii (SYS ''RECVFROM'') r s (int len) flags) s len"

text \<open>The lengths of the vectors; a traced descriptor fills the first one only.\<close>

definition wrap_readv :: "int \<Rightarrow> nat list \<Rightarrow> rdret \<Rightarrow> proc \<Rightarrow> (int \<times> string \<times> proc) result" where
  "wrap_readv fd vector ans st =
     (if untraced fd st then Inr (real_read fd (sum_list vector) ans st)
      else case vector of [] \<Rightarrow> Inl OutOfBounds | n # _ \<Rightarrow> wrap_read fd n ans st)"

section \<open>Writing\<close>

text \<open>\<open>r\<close> is what the real call returned: the bytes it took, or -1.\<close>

definition wrap_output :: "logcall \<Rightarrow> logcall \<Rightarrow> int \<Rightarrow> string \<Rightarrow> int \<Rightarrow> proc \<Rightarrow> (int \<times> proc) result" where
  "wrap_output begin_call end_call s buf r st =
     (if untraced s st then Inr (r, st)
      else rbind (vwrite_req s buf (to_int32 r) (logs [Log begin_call] st)) (\<lambda>st1.
             Inr (r, logs [Log end_call] (clear_writable_cache s st1))))"

definition wrap_write :: "int \<Rightarrow> string \<Rightarrow> int \<Rightarrow> proc \<Rightarrow> (int \<times> proc) result" where
  "wrap_write s buf r =
     wrap_output (LOGBINii (SYS ''WRITE_BEGIN'') 0 s (int (length buf))) (LOGBINii (SYS ''WRITE'') r s (int (length buf))) s buf r"

definition wrap_send :: "int \<Rightarrow> string \<Rightarrow> int \<Rightarrow> int \<Rightarrow> proc \<Rightarrow> (int \<times> proc) result" where
  "wrap_send s buf flags r =
     wrap_output (LOGBINiii (SYS ''SEND_BEGIN'') 0 s (int (length buf)) flags)
       (LOGBINiii (SYS ''SEND'') r s (int (length buf)) flags) s buf r"

definition wrap_sendto :: "int \<Rightarrow> string \<Rightarrow> int \<Rightarrow> int \<Rightarrow> proc \<Rightarrow> (int \<times> proc) result" where
  "wrap_sendto s buf flags r =
     wrap_output (LOGBINiii (SYS ''SENDTO_BEGIN'') 0 s (int (length buf)) flags)
       (LOGBINiii (SYS ''SENDTO'') r s (int (length buf)) flags) s buf r"

text \<open>The loop of \<^verbatim>\<open>writev\<close>: of each vector what is left of the bytes the kernel took.\<close>

fun writev_loop :: "int \<Rightarrow> string list \<Rightarrow> int \<Rightarrow> proc \<Rightarrow> proc result" where
  "writev_loop s [] todo st = Inr st"
| "writev_loop s (b # vec) todo st =
     (let try = (if todo < int (length b) then todo else int (length b)) in
      rbind (vwrite_req s b try st) (\<lambda>st1.
        if todo - try = 0 then Inr st1 else writev_loop s vec (todo - try) st1))"

definition wrap_writev :: "int \<Rightarrow> string list \<Rightarrow> int \<Rightarrow> proc \<Rightarrow> (int \<times> proc) result" where
  "wrap_writev s vec ret st =
     (if untraced s st then Inr (ret, st)
      else let r = to_int32 ret; st1 = logs [Log (LOGBINii (SYS ''WRITEV_BEGIN'') 0 s (int (length vec)))] st in
        rbind (if r \<noteq> - 1 \<and> 0 < r \<and> vf_dispatcher (vfd_tab st1 s) \<noteq> None then writev_loop s vec r st1 else Inr st1)
          (\<lambda>st2. Inr (r, logs [Log (LOGBINii (SYS ''WRITEV'') r s (int (length vec)))] (clear_writable_cache s st2))))"

text \<open>What \<^verbatim>\<open>sendfile\<close> sends is not shown to the plugin.\<close>

definition wrap_unseen :: "string \<Rightarrow> int \<Rightarrow> int \<Rightarrow> int \<Rightarrow> int \<Rightarrow> proc \<Rightarrow> int \<times> proc" where
  "wrap_unseen name out_fd in_fd count r st =
     (if untraced out_fd st then (r, st)
      else (r, logs [Log (LOGBINiii (SYS name) r out_fd in_fd count)]
                 (clear_writable_cache out_fd (logs [Log (LOGBINiii (SYS (name @ ''_BEGIN'')) 0 out_fd in_fd count)] st))))"

definition wrap_sendfile :: "int \<Rightarrow> int \<Rightarrow> int \<Rightarrow> int \<Rightarrow> proc \<Rightarrow> int \<times> proc" where
  "wrap_sendfile = wrap_unseen ''SENDFILE''"

definition wrap_sendfile64 :: "int \<Rightarrow> int \<Rightarrow> int \<Rightarrow> int \<Rightarrow> proc \<Rightarrow> int \<times> proc" where
  "wrap_sendfile64 = wrap_unseen ''SENDFILE64''"

section \<open>What the program reads\<close>

text \<open>A run of reads on one descriptor: the lengths asked for and the kernel's answers.\<close>

fun run_reads :: "int \<Rightarrow> (nat \<times> rdret) list \<Rightarrow> proc \<Rightarrow> ((int \<times> string) list \<times> proc) result" where
  "run_reads s [] st = Inr ([], st)"
| "run_reads s ((len, ans) # calls) st =
     rbind (wrap_read s len ans st) (\<lambda>(r, out, st1).
       rbind (run_reads s calls st1) (\<lambda>(outs, st2). Inr ((r, out) # outs, st2)))"

lemma wrap_read_ok:
  assumes "framed d" and "rd_ok d s st" and "len < 2 ^ 31" and "\<not> untraced s st"
  shows "case wrap_read s len ans st of
       Inl e \<Rightarrow> pp_fails d st s e
     | Inr (r, out, st') \<Rightarrow> rd_ok d s st' \<and> reads_only s st st' \<and> read_fair s len ans st r out st' \<and> \<not> untraced s st'"
proof -
  let ?st1 = "logs [Log (LOGBINii (SYS ''READ_BEGIN'') 0 s (int len))] st"
  have ok: "rd_ok d s ?st1" using assms(2) view_cong(1) [of ?st1 s st] by simp
  have d: "vf_dispatcher (vfd_tab st s) \<noteq> None" using assms(2) by (auto simp: rd_ok_def Let_def)
  show ?thesis
  proof (cases "virtual_read s len ans ?st1")
    case (Inl e)
    with virtual_input_ok [OF assms(1) ok assms(3), where strict = True and ans = ans] show ?thesis
      using assms(4) d by (simp add: wrap_read_def wrap_input_def virtual_read_def pp_fails_def)
  next
    case (Inr x)
    obtain r out st2 where x: "x = (r, out, st2)" by (cases x)
    from virtual_input_ok [OF assms(1) ok assms(3), where strict = True and ans = ans] Inr x
    have v: "rd_ok d s st2" "reads_only s ?st1 st2" "read_fair s len ans ?st1 r out st2" by (simp_all add: virtual_read_def)
    have le: "rbufofs (vfd_tab st2 s) \<le> rbuflen (vfd_tab st2 s)" using v(1) by (simp add: rd_ok_def Let_def)
    let ?st3 = "logs [Log (LOGBINii (SYS ''READ'') r s (int len))] st2"
    have "rd_ok d s ?st3" using v(1) view_cong(1) [of ?st3 s st2] by simp
    moreover have "reads_only s st ?st3" using v(2) by (simp add: reads_only_def)
    moreover have "read_fair s len ans st r out ?st3" using v(3) by (simp add: read_fair_def held_def waiting_def)
    moreover have "\<not> untraced s ?st3" using assms(4) v(2) by (simp add: untraced_def reads_only_def)
    moreover have "wrap_read s len ans st = Inr (r, out, ?st3)"
      using assms(4) d Inr x le by (simp add: wrap_read_def wrap_input_def Let_def)
    ultimately show ?thesis by simp
  qed
qed

lemma run_reads_ok:
  assumes "framed d" and "rd_ok d s st" and "\<not> untraced s st" and "list_all (\<lambda>c. fst c < 2 ^ 31) calls"
  shows "case run_reads s calls st of
       Inl e \<Rightarrow> pp_fails d st s e
     | Inr (outs, st') \<Rightarrow> rd_ok d s st' \<and> reads_only s st st' \<and>
         (\<exists>new. k_got st' s = k_got st s @ new \<and> held s st @ new = concat (map snd outs) @ held s st')"
  using assms(2-4)
proof (induction calls arbitrary: st)
  case Nil
  then show ?case by (simp add: reads_only_refl)
next
  case (Cons c calls)
  obtain len ans where c: "c = (len, ans)" by (cases c)
  show ?case
  proof (cases "wrap_read s len ans st")
    case (Inl e)
    with wrap_read_ok [OF assms(1) Cons.prems(1) _ Cons.prems(2), of len ans] Cons.prems(3) show ?thesis by (simp add: c)
  next
    case (Inr x)
    obtain r out st1 where x: "x = (r, out, st1)" by (cases x)
    from wrap_read_ok [OF assms(1) Cons.prems(1) _ Cons.prems(2), of len ans] Cons.prems(3) Inr
    have w: "rd_ok d s st1" "reads_only s st st1" "read_fair s len ans st r out st1" "\<not> untraced s st1" by (simp_all add: c x)
    have j: "px_junk st1 = px_junk st" using w(2) by (simp add: reads_only_def)
    from w(3) obtain new where n: "k_got st1 s = k_got st s @ new" "held s st @ new = out @ held s st1" by (auto simp: read_fair_def)
    have IH: "case run_reads s calls st1 of
       Inl e \<Rightarrow> pp_fails d st1 s e
     | Inr (outs, st') \<Rightarrow> rd_ok d s st' \<and> reads_only s st1 st' \<and>
         (\<exists>new. k_got st' s = k_got st1 s @ new \<and> held s st1 @ new = concat (map snd outs) @ held s st')"
      using Cons.IH [OF w(1,4)] Cons.prems(3) by simp
    show ?thesis
    proof (cases "run_reads s calls st1")
      case (Inl e)
      with IH show ?thesis using \<open>wrap_read s len ans st = Inr x\<close> by (simp add: c x pp_fails_def j)
    next
      case (Inr y)
      obtain outs st2 where y: "y = (outs, st2)" by (cases y)
      from IH Inr y obtain new2 where m: "rd_ok d s st2" "reads_only s st1 st2" "k_got st2 s = k_got st1 s @ new2"
        "held s st1 @ new2 = concat (map snd outs) @ held s st2" by auto
      have "held s st @ new @ new2 = out @ concat (map snd outs) @ held s st2"
        using n(2) m(4) by (metis append.assoc)
      then show ?thesis
        using \<open>wrap_read s len ans st = Inr x\<close> Inr y m n reads_only_trans [OF w(2) m(2)] by (auto simp: c x)
    qed
  qed
qed

section \<open>What the plugin sees of writes\<close>

text \<open>
  The copy of written data holds the bytes the plugin has not taken yet, from its start.
\<close>

definition wr_ok :: "pp_dispatcher \<Rightarrow> int \<Rightarrow> proc \<Rightarrow> bool" where
  "wr_ok d s st \<longleftrightarrow>
     (let v = vfd_tab st s in
      vf_dispatcher v = Some d \<and> data_ok d (vf_data v) \<and> length (wbuf v) = VBUFSIZE \<and> wbufofs v = 0 \<and> wbuflen v \<le> VBUFSIZE)"

definition untaken :: "int \<Rightarrow> proc \<Rightarrow> string" where
  "untaken s st = take (wbuflen (vfd_tab st s)) (wbuf (vfd_tab st s))"

definition pp_write_fails :: "pp_dispatcher \<Rightarrow> proc \<Rightarrow> int \<Rightarrow> cerror \<Rightarrow> bool" where
  "pp_write_fails d st s e \<longleftrightarrow>
     (\<exists>data mem n. data_ok d data \<and> 0 < n \<and> n \<le> length mem \<and> pp_write d (px_junk st) s data mem n = Inl e)"

lemma vwrite_ok:
  assumes "framed d" and "wr_ok d s st" and "len \<le> int (length buf)" and "int (wbuflen (vfd_tab st s)) + len \<le> int VBUFSIZE"
  shows "case vwrite_req s buf len st of
       Inl e \<Rightarrow> pp_write_fails d st s e
     | Inr st' \<Rightarrow> wr_ok d s st' \<and> (\<exists>seen. untaken s st @ take (nat len) buf = seen @ untaken s st')"
proof (cases "len \<le> 0")
  case True
  then show ?thesis using assms(2) by (auto simp: vwrite_req_def wr_ok_def Let_def)
next
  case False
  define v where "v = vfd_tab st s"
  define wb where "wb = poke (wbuf v) (wbuflen v) (take (nat len) buf)"
  define wl where "wl = wbuflen v + nat len"
  have v: "vf_dispatcher v = Some d" "data_ok d (vf_data v)" "length (wbuf v) = VBUFSIZE" "wbufofs v = 0" "wbuflen v \<le> VBUFSIZE"
    using assms(2) by (simp_all add: wr_ok_def v_def Let_def)
  have fit: "wbuflen v + length (take (nat len) buf) \<le> length (wbuf v)" "wl \<le> VBUFSIZE" "length (take (nat len) buf) = nat len"
    using assms(3,4) v False by (simp_all add: v_def [symmetric] wl_def)
  have lwb: "length wb = VBUFSIZE" using fit(1) v(3) by (simp add: wb_def)
  have data: "take wl wb = untaken s st @ take (nat len) buf"
  proof -
    have "peek wb (wbuflen v) (nat len) = take (nat len) buf"
      unfolding wb_def by (rule peek_poke_same) (use fit v(3) in simp_all)
    moreover have "take (wbuflen v) wb = untaken s st"
      using v(3,5) by (simp add: wb_def take_poke untaken_def v_def [symmetric])
    ultimately show ?thesis by (simp add: wl_def take_add_peek)
  qed
  have unf: "vwrite_req s buf len st =
      rbind (pp_consume (pp_write d (px_junk st) s) (vf_data v) wb wl) (\<lambda>(data, mem, vlen, calls).
        Inr (logs (map Log calls)
          (upd_vfd s (\<lambda>v. v\<lparr>wbuf := poke wb 0 (take vlen mem), wbuflen := vlen, wbufofs := 0, vf_data := data\<rparr>) st)))"
    using False assms(3) fit(2) v by (simp add: vwrite_req_def Let_def v_def [symmetric] wb_def wl_def)
  note ok = pp_contract.pp_consume_ok [OF framed_write_contract [OF assms(1)] v(2), of wl wb "px_junk st" s]
  show ?thesis
  proof (cases "pp_consume (pp_write d (px_junk st) s) (vf_data v) wb wl")
    case (Inl e)
    with ok fit lwb show ?thesis by (auto simp: unf pp_write_fails_def)
  next
    case (Inr x)
    obtain data' mem vlen calls where x: "x = (data', mem, vlen, calls)" by (cases x)
    from ok fit lwb Inr x have c: "data_ok d data'" "vlen \<le> wl" "mem = drop (wl - vlen) wb" by simp_all
    have lm: "length (take vlen mem) = vlen" using c fit lwb by simp
    have "take wl wb = take (wl - vlen) wb @ take vlen mem"
      using c(2,3) take_add [of "wl - vlen" vlen wb] by simp
    moreover have "take vlen (poke wb 0 (take vlen mem)) = take vlen mem"
      using lm by (simp add: poke_def)
    moreover have "length (poke wb 0 (take vlen mem)) = VBUFSIZE" using lm c(2) fit(2) lwb by simp
    ultimately show ?thesis
      using v c(1,2) fit(2) data by (auto simp: unf Inr x wr_ok_def Let_def untaken_def v_def [symmetric])
  qed
qed

section \<open>MySQL through the wrappers\<close>

lemma speak_mysql_take:
  assumes "n \<le> length mem"
  shows "speak_mysql s role dir st mem n = speak_mysql s role dir st (take n mem) n"
proof (cases "n < 4")
  case False
  then have "take 3 (take n mem) = take 3 mem" "take n mem ! 3 = mem ! 3" by simp_all
  then show ?thesis using assms by (simp add: speak_mysql_def get_mysql_size_def Let_def)
qed (simp add: speak_mysql_def)

fun mysql_role :: "pp_dispatcher \<Rightarrow> int" where
  "mysql_role Mysqls = PP_MYSQLS_ID"
| "mysql_role _ = PP_MYSQLC_ID"

lemma mysql_write_consume:
  assumes "d = Mysqlc \<or> d = Mysqls" and "n \<le> length mem"
  shows "pp_consume (pp_write d junk s) (DMysql w) mem n =
     rbind (mysql_run s (mysql_role d) PP_WRITE (mysql_write w) (take n mem))
       (\<lambda>(x, m, k, calls). Inr (DMysql (w\<lparr>mysql_write := x\<rparr>), m @ drop n mem, k, calls))"
proof -
  let ?f = "\<lambda>x. DMysql (w\<lparr>mysql_write := x\<rparr>)" and ?sp = "speak_mysql s (mysql_role d) PP_WRITE"
  have "pp_write d junk s (?f x) m k = rbind (?sp x m k) (\<lambda>(x', r, calls). Inr (?f x', r, calls))" for x m k
    using assms(1) by (cases "?sp x m k") (auto simp: as_state_def pp_mysqlc_write_def pp_mysqls_write_def)
  from pp_consume_map [of "pp_write d junk s" ?f ?sp, OF this, of "mysql_write w" mem n]
  have "pp_consume (pp_write d junk s) (DMysql w) mem n =
      rbind (pp_consume ?sp (mysql_write w) mem n) (\<lambda>(x', m, k, calls). Inr (?f x', m, k, calls))" by simp
  also have "pp_consume ?sp (mysql_write w) mem n =
      rbind (mysql_run s (mysql_role d) PP_WRITE (mysql_write w) (take n mem)) (\<lambda>(x', m, k, calls). Inr (x', m @ drop n mem, k, calls))"
    using pp_consume_take [of ?sp, OF speak_mysql_take assms(2)] assms(2) by (simp add: mysql_run_def)
  finally show ?thesis by (cases "mysql_run s (mysql_role d) PP_WRITE (mysql_write w) (take n mem)") auto
qed

lemma mysql_run_total: "\<exists>x left calls. mysql_run s role dir st bs = Inr (x, left, length left, calls) \<and> length left \<le> length bs"
proof -
  have no: "speak_mysql s role dir x m n \<noteq> Inl e" for x m n e by (simp add: speak_mysql_def Let_def)
  from mysql.pp_consume_ok [where st = st and vlen = "length bs" and mem = bs and s = s and role = role and dir = dir] no show ?thesis
    by (cases "pp_consume (speak_mysql s role dir) st bs (length bs)") (auto simp: mysql_run_def)
qed

text \<open>A traced MySQL connection with plugin state \<open>w\<close> and untaken bytes \<open>p\<close>.\<close>

definition mysql_conn :: "pp_dispatcher \<Rightarrow> int \<Rightarrow> pp_mysql_state \<Rightarrow> string \<Rightarrow> proc \<Rightarrow> bool" where
  "mysql_conn d s w p st \<longleftrightarrow>
     (d = Mysqlc \<or> d = Mysqls) \<and> wr_ok d s st \<and> vf_data (vfd_tab st s) = DMysql w \<and> untaken s st = p \<and>
     wbuflen (vfd_tab st s) = length p"

lemma vwrite_mysql:
  assumes "mysql_conn d s w p st" and "0 < n" and "n \<le> length buf" and "length p + n \<le> VBUFSIZE"
    and "mysql_run s (mysql_role d) PP_WRITE (mysql_write w) (p @ take n buf) = Inr (x, left, length left, calls)"
    and "length left \<le> VBUFSIZE"
  shows "\<exists>st'. vwrite_req s buf (int n) st = Inr st' \<and> mysql_conn d s (w\<lparr>mysql_write := x\<rparr>) left st' \<and>
     px_log st' = px_log st @ map Log calls \<and> bb_disable_all st' = bb_disable_all st"
proof -
  define v where "v = vfd_tab st s"
  define wb where "wb = poke (wbuf v) (length p) (take n buf)"
  have c: "vf_dispatcher v = Some d" "length (wbuf v) = VBUFSIZE" "wbufofs v = 0" "wbuflen v = length p" "vf_data v = DMysql w"
      "take (length p) (wbuf v) = p" "d = Mysqlc \<or> d = Mysqls"
    using assms(1) by (auto simp: mysql_conn_def wr_ok_def untaken_def v_def Let_def)
  have lwb: "length wb = VBUFSIZE" using assms(3,4) c(2) by (simp add: wb_def)
  have t: "take (length p + n) wb = p @ take n buf"
    using take_add_peek [of "length p" n wb] assms(3,4) c(2,6) by (simp add: wb_def take_poke peek_poke_same)
  have eq: "pp_consume (pp_write d (px_junk st) s) (DMysql w) wb (length p + n) =
      Inr (DMysql (w\<lparr>mysql_write := x\<rparr>), left @ drop (length p + n) wb, length left, calls)"
    using mysql_write_consume [OF c(7), of "length p + n" wb "px_junk st" s w] assms(4,5) lwb by (simp add: t)
  let ?st' = "logs (map Log calls) (upd_vfd s (\<lambda>v. v\<lparr>wbuf := poke wb 0 left, wbuflen := length left, wbufofs := 0,
      vf_data := DMysql (w\<lparr>mysql_write := x\<rparr>)\<rparr>) st)"
  have "vwrite_req s buf (int n) st = Inr ?st'"
    using assms(2-4) c eq by (simp add: vwrite_req_def v_def [symmetric] Let_def wb_def [symmetric])
  moreover have "mysql_conn d s (w\<lparr>mysql_write := x\<rparr>) left ?st'"
    using c assms(6) lwb by (auto simp: mysql_conn_def wr_ok_def untaken_def v_def [symmetric] Let_def) (auto simp: poke_def)
  ultimately show ?thesis by auto
qed

lemma writev_mysql:
  assumes "mysql_conn d s w p st" and "0 < n" and "n \<le> length (concat vec)" and "length p + n \<le> VBUFSIZE"
    and "mysql_run s (mysql_role d) PP_WRITE (mysql_write w) (p @ take n (concat vec)) = Inr (x, left, length left, calls)"
  shows "\<exists>st'. writev_loop s vec (int n) st = Inr st' \<and> mysql_conn d s (w\<lparr>mysql_write := x\<rparr>) left st' \<and>
     px_log st' = px_log st @ map Log calls \<and> bb_disable_all st' = bb_disable_all st"
  using assms
proof (induction vec arbitrary: w p st n calls)
  case Nil
  then show ?case by simp
next
  case (Cons b vec)
  have total: "length l \<le> length bs" if "mysql_run s r PP_WRITE y bs = Inr (x, l, length l, cs)" for r y bs x l cs
    using mysql_run_total [of s r PP_WRITE y bs] that by auto
  consider (empty) "b = []" | (last) "b \<noteq> []" "n \<le> length b" | (more) "b \<noteq> []" "length b < n" by linarith
  then show ?case
  proof cases
    case empty
    with Cons.IH [OF Cons.prems(1,2) _ Cons.prems(4)] Cons.prems show ?thesis
      by (auto simp: Let_def vwrite_req_def split: option.splits)
  next
    case last
    have r: "mysql_run s (mysql_role d) PP_WRITE (mysql_write w) (p @ take n b) = Inr (x, left, length left, calls)"
      using Cons.prems(5) last by simp
    have "length left \<le> VBUFSIZE" using total [OF r] Cons.prems(4) last by simp
    from vwrite_mysql [OF Cons.prems(1,2) last(2) Cons.prems(4) r this] obtain st' where
      "vwrite_req s b (int n) st = Inr st'" "mysql_conn d s (w\<lparr>mysql_write := x\<rparr>) left st'"
      "px_log st' = px_log st @ map Log calls" "bb_disable_all st' = bb_disable_all st" by blast
    then show ?thesis using last by (auto simp: Let_def)
  next
    case more
    define m where "m = n - length b"
    have m: "0 < m" "m \<le> length (concat vec)" "int n - int (length b) = int m" "take n (concat (b # vec)) = b @ take m (concat vec)"
      using more Cons.prems(3) by (simp_all add: m_def)
    obtain x1 l1 c1 where r1: "mysql_run s (mysql_role d) PP_WRITE (mysql_write w) (p @ b) = Inr (x1, l1, length l1, c1)"
      and l1: "length l1 \<le> length (p @ b)" using mysql_run_total by blast
    from mysql_run_append [of s "mysql_role d" PP_WRITE "mysql_write w" "p @ b" "take m (concat vec)"] Cons.prems(5) r1 m(4)
    obtain c2 where r2: "mysql_run s (mysql_role d) PP_WRITE x1 (l1 @ take m (concat vec)) = Inr (x, left, length left, c2)"
      and cs: "calls = c1 @ c2"
      by (cases "mysql_run s (mysql_role d) PP_WRITE x1 (l1 @ take m (concat vec))") auto
    have fit: "length l1 + m \<le> VBUFSIZE" "length l1 \<le> VBUFSIZE" "length p + length b \<le> VBUFSIZE"
      using l1 Cons.prems(4) more by (simp_all add: m_def)
    have "0 < length b" "length b \<le> length b" using more(1) by simp_all
    from vwrite_mysql [OF Cons.prems(1) this fit(3) _ fit(2), of x1 c1] r1 obtain st1 where
      s1: "vwrite_req s b (int (length b)) st = Inr st1" "mysql_conn d s (w\<lparr>mysql_write := x1\<rparr>) l1 st1"
        "px_log st1 = px_log st @ map Log c1" "bb_disable_all st1 = bb_disable_all st" by auto
    have "mysql_run s (mysql_role d) PP_WRITE (mysql_write (w\<lparr>mysql_write := x1\<rparr>)) (l1 @ take m (concat vec)) =
        Inr (x, left, length left, c2)" using r2 by simp
    from Cons.IH [OF s1(2) m(1,2) fit(1) this] obtain st' where
      "writev_loop s vec (int m) st1 = Inr st'" "mysql_conn d s (w\<lparr>mysql_write := x1\<rparr>\<lparr>mysql_write := x\<rparr>) left st'"
      "px_log st' = px_log st1 @ map Log c2" "bb_disable_all st' = bb_disable_all st1" by blast
    then show ?thesis using s1 cs m(1,3) more by (simp add: Let_def)
  qed
qed

section \<open>Properties\<close>

text \<open>A descriptor that has just got its plugin.\<close>

definition fresh_conn :: "pp_dispatcher \<Rightarrow> int \<Rightarrow> proc \<Rightarrow> bool" where
  "fresh_conn d s st \<longleftrightarrow>
     \<not> untraced s st \<and> k_got st s = [] \<and>
     (let v = vfd_tab st s in
      vf_dispatcher v = Some d \<and> data_ok d (vf_data v) \<and> length (rbuf v) = VBUFSIZE \<and> rbuflen v = 0 \<and> rbufofs v = 0 \<and>
      rlastlen v = 0 \<and> tosend v = 0 \<and> \<not> ppwantmore v \<and> length (wbuf v) = VBUFSIZE \<and> wbuflen v = 0 \<and> wbufofs v = 0)"

lemma fresh_rd_ok: "fresh_conn d s st \<Longrightarrow> rd_ok d s st" "fresh_conn d s st \<Longrightarrow> held s st = []"
  by (auto simp: fresh_conn_def rd_ok_def held_def Let_def)

text \<open>
  C29: reading through a plugin loses, reorders and invents nothing.  On a fresh
  connection with any plugin but the HTTP server's, whatever lengths the program asks for
  and however the kernel cuts the stream, a run of \<^verbatim>\<open>read\<close> calls either stops where the plugin itself
  fails, or hands the program exactly the bytes taken from the kernel, in order, less those that are
  still in the buffer; no other descriptor is touched.
\<close>
theorem reads_lose_nothing:
  assumes "framed d" and "fresh_conn d s st" and "list_all (\<lambda>c. fst c < 2 ^ 31) calls"
  shows "case run_reads s calls st of
       Inl e \<Rightarrow> pp_fails d st s e
     | Inr (outs, st') \<Rightarrow> k_got st' s = concat (map snd outs) @ held s st' \<and>
         (\<forall>x. x \<noteq> s \<longrightarrow> vfd_tab st' x = vfd_tab st x \<and> k_got st' x = k_got st x)"
proof -
  have t: "\<not> untraced s st" "k_got st s = []" using assms(2) by (simp_all add: fresh_conn_def)
  from run_reads_ok [OF assms(1) fresh_rd_ok(1) [OF assms(2)] t(1) assms(3)] fresh_rd_ok(2) [OF assms(2)] t(2)
  show ?thesis by (cases "run_reads s calls st") (auto simp: reads_only_def)
qed

definition sample_proc :: proc where
  "sample_proc = (proc0 (sample_files, None) junk0)\<lparr>first_init := True,
     vfd_tab := (\<lambda>_. vfd0)(5 := vfd0\<lparr>vf_dispatcher := Some Mysqlc, vf_data := DMysql pp_mysql_common_init\<rparr>)\<rparr>"

lemma sample_fresh: "fresh_conn Mysqlc 5 sample_proc"
  by (simp add: fresh_conn_def untraced_def sample_proc_def proc0_def vfd0_def MAX_FDS_def)

theorem reads_lose_nothing_witness:
  "case run_reads 5 [(2, RdBytes ''abcdefg''), (9, RdErr)] sample_proc of
       Inl e \<Rightarrow> pp_fails Mysqlc sample_proc 5 e
     | Inr (outs, st') \<Rightarrow> k_got st' 5 = concat (map snd outs) @ held 5 st' \<and>
         (\<forall>x. x \<noteq> 5 \<longrightarrow> vfd_tab st' x = vfd_tab sample_proc x \<and> k_got st' x = k_got sample_proc x)"
  using reads_lose_nothing [OF _ sample_fresh, of "[(2, RdBytes ''abcdefg''), (9, RdErr)]"] by (simp add: framed_def)

text \<open>
  C30: a read through a plugin answers as the kernel would.  From every state such runs
  reach, a call returns an error only when the kernel did, returns at most the bytes asked
  for, and reports the end of the stream to a program that asked for some only when the kernel did or
  when the buffer is full of data the plugin waits on.
\<close>
theorem read_answers_as_kernel:
  assumes "framed d" and "rd_ok d s st" and "\<not> untraced s st" and "0 < len" and "len < 2 ^ 31"
    and "wrap_read s len ans st = Inr (r, out, st')"
  shows "rd_ok d s st' \<and> length out \<le> len \<and> (r < 0 \<longrightarrow> ans = RdErr) \<and> (0 \<le> r \<longrightarrow> r = int (length out)) \<and>
     (r = 0 \<longrightarrow> ans = RdBytes [] \<or> waiting s st = int VBUFSIZE)"
  using wrap_read_ok [OF assms(1,2,5,3), of ans] assms(4,6)
  by (auto simp: read_fair_def split: if_splits)

lemma mysqlc_never_fails: "\<not> pp_fails Mysqlc st s e"
  by (auto simp: pp_fails_def as_state_def of_data_inverse pp_mysqlc_read_def speak_mysql_def Let_def split: if_splits)

theorem read_answers_as_kernel_witness:
  "\<exists>r out st'. wrap_read 5 2 (RdBytes ''abcdefg'') sample_proc = Inr (r, out, st') \<and>
     rd_ok Mysqlc 5 st' \<and> length out \<le> 2 \<and> 0 < r"
proof -
  have h: "framed Mysqlc" "\<not> untraced 5 sample_proc" "0 < (2 :: nat)" "(2 :: nat) < 2 ^ 31" "rd_ok Mysqlc 5 sample_proc"
    using sample_fresh fresh_rd_ok(1) by (simp_all add: framed_def fresh_conn_def)
  obtain r out st' where "wrap_read 5 2 (RdBytes ''abcdefg'') sample_proc = Inr (r, out, st')"
    using wrap_read_ok [OF h(1,5,4,2), of "RdBytes ''abcdefg''"] mysqlc_never_fails
    by (cases "wrap_read 5 2 (RdBytes ''abcdefg'') sample_proc") auto
  moreover from read_answers_as_kernel [OF h(1,5,2-4) this]
  have "rd_ok Mysqlc 5 st' \<and> length out \<le> 2 \<and> 0 < r"
    by (auto simp: waiting_def sample_proc_def vfd0_def VBUFSIZE_def not_less le_less)
  ultimately show ?thesis by blast
qed

text \<open>
  A plugin that waits on a full buffer ends the stream.  When the 64 KiB of the buffer
  hold data on which the plugin has asked for more, and the program has been given all of it, the
  next \<^verbatim>\<open>read\<close> asks the kernel for no bytes at all and returns zero, the end of the stream,
  whatever data the kernel has.
\<close>
lemma full_buffer_reads_as_end:
  assumes "given d s st" and "waiting s st = int VBUFSIZE" and "\<not> untraced s st"
  shows "\<exists>st'. wrap_read s len (RdBytes b) st = Inr (0, [], st') \<and> k_got st' s = k_got st s"
proof -
  let ?st1 = "logs [Log (LOGBINii (SYS ''READ_BEGIN'') 0 s (int len))] st"
  let ?st0 = "show_buffer ''BUF_PRE'' s ?st1"
  have same: "vfd_tab ?st0 = vfd_tab st" "px_junk ?st0 = px_junk st" "k_got ?st0 = k_got st" by simp_all
  have g0: "given d s ?st0" using assms(1) view_cong(1) [of ?st0 s st] by (simp add: given_def)
  from shift_ok [OF g0] obtain st2 where
    s2: "buf_shift s ?st0 = Inr st2" "given d s st2" "rbufofs (vfd_tab st2 s) = 0" "rbuflen (vfd_tab st2 s) = waiting s ?st0"
      "k_got st2 = k_got ?st0" by blast
  have w: "waiting s ?st0 = int VBUFSIZE" using assms(2) by (simp add: waiting_def)
  have t: "tosend (vfd_tab st s) = 0" "ppwantmore (vfd_tab st s)" "vf_dispatcher (vfd_tab st s) = Some d"
    using assms(1,2) by (auto simp: given_def waiting_def rd_ok_def Let_def VBUFSIZE_def)
  let ?st3 = "st2\<lparr>k_got := (k_got st2)(s := k_got st2 s)\<rparr>"
  have "refill_and_give True s len (RdBytes b) ?st0 = Inr (0, [], ?st3)"
    using s2(1,4) w t by (simp add: refill_and_give_def Let_def real_read_def)
  then have v: "virtual_read s len (RdBytes b) ?st1 = Inr (0, [], ?st3)"
    using t by (simp add: virtual_read_def virtual_input_def Let_def)
  have "rbufofs (vfd_tab ?st3 s) \<le> rbuflen (vfd_tab ?st3 s)" using s2(3,4) w by simp
  then show ?thesis using assms(3) t v s2(5) by (simp add: wrap_read_def wrap_input_def Let_def)
qed

text \<open>A PostgreSQL server in the middle of a query of 70000 bytes.\<close>

definition long_query :: pp_psql_state where
  "long_query = pp_psql_common_init\<lparr>psql_read :=
     psql_side0\<lparr>ps_gotStartup := True, ps_type := CHR ''Q'', ps_gotHeader := True, ps_todo := 70000\<rparr>\<rparr>"

definition stuck_proc :: proc where
  "stuck_proc = (proc0 (sample_files, None) junk0)\<lparr>first_init := True,
     vfd_tab := (\<lambda>_. vfd0)(5 := vfd0\<lparr>rbuflen := int VBUFSIZE, rlastlen := int VBUFSIZE, ppwantmore := True,
                                     vf_dispatcher := Some Psqls, vf_data := DPsql long_query\<rparr>)\<rparr>"

lemma long_query_waits: "asked Psqls junk s (DPsql long_query) (int VBUFSIZE)"
  unfolding asked_def
  by (intro exI [of _ "replicate VBUFSIZE NUL"] exI [of _ "[]"])
     (simp add: as_state_def pp_psqls_read_def long_query_def speak_psql_def VBUFSIZE_def)

lemma stuck_given: "given Psqls 5 stuck_proc" "waiting 5 stuck_proc = int VBUFSIZE" "\<not> untraced 5 stuck_proc"
  using long_query_waits [of junk0 5]
  by (simp_all add: given_def rd_ok_def waiting_def untraced_def stuck_proc_def proc0_def vfd0_def MAX_FDS_def)

lemma stuck_reads_end:
  "\<exists>st'. wrap_read 5 1000 (RdBytes ''more of the query'') stuck_proc = Inr (0, [], st') \<and> k_got st' 5 = k_got stuck_proc 5"
  by (rule full_buffer_reads_as_end [OF stuck_given])

text \<open>
  C34: showing written data to a plugin stays inside its copy exactly as long as the data fits.
  With a plugin that keeps the contract, a write whose bytes fit behind those the plugin has not
  taken yet either fails as the plugin does or leaves the copy well formed, with a suffix of the data
  untaken; a write that does not fit runs over the end of the 64 KiB copy.
\<close>
theorem write_copy_bounds:
  assumes "framed d" and "wr_ok d s st" and "\<not> untraced s st" and "0 < n" and "n \<le> length buf" and "n < 2 ^ 31"
  shows "if length (untaken s st) + n \<le> VBUFSIZE
     then (case wrap_write s buf (int n) st of
             Inl e \<Rightarrow> pp_write_fails d st s e
           | Inr (r, st') \<Rightarrow> r = int n \<and> wr_ok d s st' \<and> (\<exists>seen. untaken s st @ take n buf = seen @ untaken s st'))
     else wrap_write s buf (int n) st = Inl OutOfBounds"
proof -
  let ?st1 = "logs [Log (LOGBINii (SYS ''WRITE_BEGIN'') 0 s (int (length buf)))] st"
  have n: "to_int32 (int n) = int n" by (rule to_int32_id) (use assms(6) in simp_all)
  have ok1: "wr_ok d s ?st1" "untaken s ?st1 = untaken s st" "pp_write_fails d ?st1 s = pp_write_fails d st s"
    using assms(2) by (simp_all add: wr_ok_def untaken_def pp_write_fails_def fun_eq_iff)
  have l: "length (untaken s st) = wbuflen (vfd_tab st s)" using assms(2) by (simp add: wr_ok_def untaken_def Let_def)
  have unf: "wrap_write s buf (int n) st = rbind (vwrite_req s buf (int n) ?st1) (\<lambda>st1.
      Inr (int n, logs [Log (LOGBINii (SYS ''WRITE'') (int n) s (int (length buf)))] (clear_writable_cache s st1)))"
    using assms(3) by (simp add: wrap_write_def wrap_output_def n)
  show ?thesis
  proof (cases "length (untaken s st) + n \<le> VBUFSIZE")
    case True
    then have "int (wbuflen (vfd_tab ?st1 s)) + int n \<le> int VBUFSIZE" using l by simp
    from vwrite_ok [OF assms(1) ok1(1) _ this, of buf] assms(5) True ok1(2,3) show ?thesis
      by (cases "vwrite_req s buf (int n) ?st1") (auto simp: unf wr_ok_def untaken_def)
  next
    case False
    then have "VBUFSIZE < wbuflen (vfd_tab st s) + n" using l by simp
    then have "vwrite_req s buf (int n) ?st1 = Inl OutOfBounds"
      using assms(2,4) by (auto simp: vwrite_req_def wr_ok_def Let_def)
    then show ?thesis using False by (simp add: unf)
  qed
qed

lemma fresh_wr_ok: "fresh_conn d s st \<Longrightarrow> wr_ok d s st" "fresh_conn d s st \<Longrightarrow> untaken s st = []"
  by (auto simp: fresh_conn_def wr_ok_def untaken_def Let_def)

theorem write_copy_bounds_witness:
  "wrap_write 5 (replicate 70000 NUL) 70000 sample_proc = Inl OutOfBounds"
proof -
  have h: "framed Mysqlc" "\<not> untraced 5 sample_proc" "0 < (70000 :: nat)" "70000 \<le> length (replicate 70000 NUL)" "(70000 :: nat) < 2 ^ 31"
    using sample_fresh by (simp_all add: framed_def fresh_conn_def)
  from write_copy_bounds [OF h(1) fresh_wr_ok(1) [OF sample_fresh] h(2-5)] show ?thesis
    by (simp add: fresh_wr_ok(2) [OF sample_fresh] VBUFSIZE_def)
qed

text \<open>
  C33: gathering does not change what is seen.  On a MySQL connection, \<^verbatim>\<open>writev\<close> of any
  vectors of which the kernel takes \<open>n\<close> bytes shows the plugin the same as \<^verbatim>\<open>write\<close> of the
  concatenation: the plugin makes the same log calls in the same order and ends in the same state with
  the same bytes untaken.
\<close>
theorem writev_seen_as_write:
  assumes "mysql_conn d s w p st" and "\<not> untraced s st" and "0 < n" and "n \<le> length (concat vec)"
    and "length p + n \<le> VBUFSIZE"
  shows "\<exists>calls w' p' st1 st2.
     wrap_writev s vec (int n) st = Inr (int n, st1) \<and> wrap_write s (concat vec) (int n) st = Inr (int n, st2) \<and>
     mysql_conn d s w' p' st1 \<and> mysql_conn d s w' p' st2 \<and>
     px_log st1 = px_log st @ Log (LOGBINii (SYS ''WRITEV_BEGIN'') 0 s (int (length vec))) # map Log calls @
                  [Log (LOGBINii (SYS ''WRITEV'') (int n) s (int (length vec)))] \<and>
     px_log st2 = px_log st @ Log (LOGBINii (SYS ''WRITE_BEGIN'') 0 s (int (length (concat vec)))) # map Log calls @
                  [Log (LOGBINii (SYS ''WRITE'') (int n) s (int (length (concat vec))))]"
proof -
  have same: "mysql_conn d s w' p' (logs l st') = mysql_conn d s w' p' st'" for w' p' l st'
    by (simp add: mysql_conn_def wr_ok_def untaken_def)
  have conn: "mysql_conn d s w p (logs l st)" for l using assms(1) by (simp add: same)
  have fin: "mysql_conn d s w' p' (logs l (clear_writable_cache s st')) = mysql_conn d s w' p' st'" for w' p' l st'
    by (simp add: mysql_conn_def wr_ok_def untaken_def)
  have n: "to_int32 (int n) = int n" by (rule to_int32_id) (use assms(5) in \<open>simp_all add: VBUFSIZE_def\<close>)
  have disp: "vf_dispatcher (vfd_tab st s) \<noteq> None" using assms(1) by (auto simp: mysql_conn_def wr_ok_def Let_def)
  obtain x left calls where r: "mysql_run s (mysql_role d) PP_WRITE (mysql_write w) (p @ take n (concat vec)) = Inr (x, left, length left, calls)"
    and l: "length left \<le> length (p @ take n (concat vec))" using mysql_run_total by blast
  have fit: "length left \<le> VBUFSIZE" using l assms(4,5) by simp
  let ?a = "logs [Log (LOGBINii (SYS ''WRITEV_BEGIN'') 0 s (int (length vec)))] st"
  let ?b = "logs [Log (LOGBINii (SYS ''WRITE_BEGIN'') 0 s (int (length (concat vec))))] st"
  obtain st1 where s1: "writev_loop s vec (int n) ?a = Inr st1" "mysql_conn d s (w\<lparr>mysql_write := x\<rparr>) left st1"
      "px_log st1 = px_log ?a @ map Log calls"
    using writev_mysql [OF conn assms(3-5) r] by blast
  obtain st2 where s2: "vwrite_req s (concat vec) (int n) ?b = Inr st2" "mysql_conn d s (w\<lparr>mysql_write := x\<rparr>) left st2"
      "px_log st2 = px_log ?b @ map Log calls"
    using vwrite_mysql [OF conn assms(3,4,5) r fit] by blast
  have cl: "px_log (clear_writable_cache s st') = px_log st'" for st' by (simp add: clear_writable_cache_def)
  let ?st1 = "logs [Log (LOGBINii (SYS ''WRITEV'') (int n) s (int (length vec)))] (clear_writable_cache s st1)"
  let ?st2 = "logs [Log (LOGBINii (SYS ''WRITE'') (int n) s (int (length (concat vec))))] (clear_writable_cache s st2)"
  have "wrap_writev s vec (int n) st = Inr (int n, ?st1)" "wrap_write s (concat vec) (int n) st = Inr (int n, ?st2)"
    using assms(2,3) n disp s1(1) s2(1) by (simp_all add: wrap_writev_def wrap_write_def wrap_output_def Let_def)
  moreover have "mysql_conn d s (w\<lparr>mysql_write := x\<rparr>) left ?st1" "mysql_conn d s (w\<lparr>mysql_write := x\<rparr>) left ?st2"
    using s1(2) s2(2) by (simp_all add: fin)
  moreover have "px_log ?st1 = px_log st @ Log (LOGBINii (SYS ''WRITEV_BEGIN'') 0 s (int (length vec))) # map Log calls @
                  [Log (LOGBINii (SYS ''WRITEV'') (int n) s (int (length vec)))]"
    and "px_log ?st2 = px_log st @ Log (LOGBINii (SYS ''WRITE_BEGIN'') 0 s (int (length (concat vec)))) # map Log calls @
                  [Log (LOGBINii (SYS ''WRITE'') (int n) s (int (length (concat vec))))]"
    using s1(3) s2(3) by (simp_all add: cl)
  ultimately show ?thesis by blast
qed

lemma sample_mysql_conn: "mysql_conn Mysqlc 5 pp_mysql_common_init [] sample_proc"
  using fresh_wr_ok [OF sample_fresh] by (simp add: mysql_conn_def sample_proc_def vfd0_def)

theorem writev_seen_as_write_witness:
  "\<exists>calls w' p' st1 st2.
     wrap_writev 5 [''ab'', [], ''cdef''] 5 sample_proc = Inr (5, st1) \<and> wrap_write 5 ''abcdef'' 5 sample_proc = Inr (5, st2) \<and>
     mysql_conn Mysqlc 5 w' p' st1 \<and> mysql_conn Mysqlc 5 w' p' st2 \<and>
     px_log st1 = px_log sample_proc @ Log (LOGBINii (SYS ''WRITEV_BEGIN'') 0 5 3) # map Log calls @
                  [Log (LOGBINii (SYS ''WRITEV'') 5 5 3)] \<and>
     px_log st2 = px_log sample_proc @ Log (LOGBINii (SYS ''WRITE_BEGIN'') 0 5 6) # map Log calls @
                  [Log (LOGBINii (SYS ''WRITE'') 5 5 6)]"
proof -
  have "\<not> untraced 5 sample_proc" using sample_fresh by (simp add: fresh_conn_def)
  from writev_seen_as_write [OF sample_mysql_conn this, of 5 "[''ab'', [], ''cdef'']"] show ?thesis by (simp add: VBUFSIZE_def)
qed

end
