(* ===== verification/Vfd_Fd.thy ===== *)
theory Vfd_Fd
  imports Vfd_Io
begin

text \<open>
  The wrappers of \<^verbatim>\<open>src/trace/vfd.c\<close> that make, change and close descriptors, and \<^verbatim>\<open>select\<close> and
  \<^verbatim>\<open>poll\<close>.  The answers of the real calls are arguments.
\<close>

section \<open>Socket addresses\<close>

definition hex_digit :: "nat \<Rightarrow> char" where
  "hex_digit n = (if n < 10 then char_of (48 + n) else char_of (87 + n))"

text \<open>
  \<^verbatim>\<open>sprintf(tmp, "%2x", c)\<close> of a signed character: two characters, the first a blank for small values,
  and eight with the sign extended.
\<close>

definition hex2 :: "char \<Rightarrow> string" where
  "hex2 c =
     (let n = of_char c :: nat in
      if n < 16 then [CHR '' '', hex_digit n]
      else (if 128 \<le> n then ''ffffff'' else []) @ [hex_digit (n div 16), hex_digit (n mod 16)])"

definition dotted :: "32 word \<Rightarrow> string" where
  "dotted a =
     (let b = be_bytes 4 (unat a); t = (\<lambda>i. show_nat (of_char (b ! i))) in
      t 0 @ ''.'' @ t 1 @ ''.'' @ t 2 @ ''.'' @ t 3)"

definition host_port :: "nat \<Rightarrow> bool \<Rightarrow> string \<Rightarrow> nat \<Rightarrow> string" where
  "host_port len any host port = snprintf len ((if any then ''127.0.0.1'' else host) @ '':'' @ show_nat port)"

text \<open>The path of a Unix socket goes through a local array of 257 characters.\<close>

definition parse_sockaddr :: "sockaddr \<Rightarrow> nat \<Rightarrow> string result" where
  "parse_sockaddr addr len =
     (case addr of
        AF_INET a port \<Rightarrow> Inr (host_port len (a = 0) (dotted a) port)
      | AF_INET6 flow txt6 port \<Rightarrow> Inr (host_port len (flow = 0) txt6 port)
      | AF_FILE sp n \<Rightarrow>
          if sp = [] then Inl OutOfBounds
          else if hd sp \<noteq> NUL
          then if n < 0 \<or> int MAX_SOCK_FN < n then Inl OutOfBounds
               else rbind (strncpy (nat n) sp) (\<lambda>file. Inr (snprintf len file))
          else let file = concat (map hex2 (take (nat n) sp)) in
               if int (length sp) < n \<or> MAX_SOCK_FN < length file then Inl OutOfBounds
               else Inr (snprintf len file)
      | AF_OTHER \<Rightarrow> Inr ''unset'')"

text \<open>
  A \<^verbatim>\<open>struct sockaddr\<close> has room for fourteen bytes of a path; behind it the stack goes on.
\<close>

definition cut_sockaddr :: "pp_junk \<Rightarrow> sockaddr \<Rightarrow> sockaddr" where
  "cut_sockaddr junk addr = (case addr of AF_FILE sp n \<Rightarrow> AF_FILE (take 14 sp @ jk_stack junk) n | _ \<Rightarrow> addr)"

section \<open>The table\<close>

text \<open>Places where the code indexes the table without a check.\<close>

definition at_fd :: "int \<Rightarrow> 'a result \<Rightarrow> 'a result" where
  "at_fd fd x = (if 0 \<le> fd \<and> fd < MAX_FDS then x else Inl OutOfBounds)"

definition track :: "int \<Rightarrow> proc \<Rightarrow> proc" where
  "track fd st = st\<lparr>tracked := insert fd (tracked st)\<rparr>"

definition new_vfd :: "vfd_types \<Rightarrow> int \<Rightarrow> proc \<Rightarrow> proc" where
  "new_vfd t fd st = upd_vfd fd (\<lambda>v. (vfd_tab_init_one v)\<lparr>vf_type := t, in_prog := False\<rparr>) (track fd st)"

definition dup_vfd :: "int \<Rightarrow> int \<Rightarrow> proc \<Rightarrow> proc" where
  "dup_vfd oldfd newfd st =
     upd_vfd newfd (\<lambda>_. (vfd_tab_init_one (vfd_tab st oldfd))\<lparr>vf_type := VFD_DUP, in_prog := False\<rparr>) st"

definition wrap_pipe :: "int \<Rightarrow> int \<times> int \<Rightarrow> proc \<Rightarrow> (int \<times> proc) result" where
  "wrap_pipe r filedes st =
     (if bb_disable_all st then Inr (r, st)
      else rbind (if r = 0
                  then at_fd (fst filedes) (at_fd (snd filedes)
                         (Inr (new_vfd VFD_PIPE (snd filedes) (new_vfd VFD_PIPE (fst filedes) st))))
                  else Inr st)
             (\<lambda>st1. Inr (r, logs [Log (LOGBINii (SYS ''PIPE'') r (fst filedes) (snd filedes))] st1)))"

definition wrap_dup :: "int \<Rightarrow> int \<Rightarrow> proc \<Rightarrow> (int \<times> proc) result" where
  "wrap_dup newfd oldfd st =
     (if bb_disable_all st \<or> oldfd < 0 \<or> MAX_FDS \<le> oldfd then Inr (newfd, st)
      else rbind (if 0 \<le> newfd then at_fd newfd (Inr (dup_vfd oldfd newfd (track newfd st))) else Inr st)
             (\<lambda>st1. Inr (newfd, logs [Log (LOGBINi (SYS ''DUP'') newfd oldfd)] st1)))"

definition wrap_dup2 :: "int \<Rightarrow> int \<Rightarrow> int \<Rightarrow> proc \<Rightarrow> (int \<times> proc) result" where
  "wrap_dup2 r oldfd newfd st =
     (if bb_disable_all st \<or> oldfd < 0 \<or> MAX_FDS \<le> oldfd \<or> newfd < 0 \<or> MAX_FDS \<le> newfd then Inr (r, st)
      else rbind (if 0 \<le> r then at_fd r (Inr (dup_vfd oldfd r (track r st))) else Inr st)
             (\<lambda>st1. Inr (r, logs [Log (LOGBINi (SYS ''DUP'') r oldfd)] st1)))"

text \<open>\<^verbatim>\<open>F_DUPFD\<close> is command 0; the old descriptor is not checked.\<close>

definition wrap_fcntl :: "int \<Rightarrow> int \<Rightarrow> int \<Rightarrow> proc \<Rightarrow> (int \<times> proc) result" where
  "wrap_fcntl r fd cmd st =
     (if bb_disable_all st \<or> cmd \<noteq> 0 then Inr (r, st)
      else rbind (if 0 \<le> r then at_fd r (at_fd fd (Inr (dup_vfd fd r (track r st)))) else Inr st)
             (\<lambda>st1. Inr (r, logs [Log (LOGBINi (SYS ''DUP_FCNTL'') r fd)] st1)))"

definition wrap_socket :: "int \<Rightarrow> int \<Rightarrow> int \<Rightarrow> int \<Rightarrow> proc \<Rightarrow> (int \<times> proc) result" where
  "wrap_socket s domain typ protocol st =
     (if bb_disable_all st then Inr (s, st)
      else rbind (if 0 \<le> s then at_fd s (Inr (new_vfd VFD_SOCK s st)) else Inr st)
             (\<lambda>st1. Inr (s, logs [Log (LOGBINiii (SYS ''SOCKET'') s domain typ protocol)] st1)))"

definition wrap_open :: "int \<Rightarrow> string \<Rightarrow> int \<Rightarrow> proc \<Rightarrow> (int \<times> proc) result" where
  "wrap_open r pathname flags st =
     (if bb_disable_all st then Inr (r, st)
      else rbind (if r \<noteq> - 1 then at_fd r (Inr (new_vfd VFD_FILE r st)) else Inr st)
             (\<lambda>st1. Inr (r, logs [Log (LOGBINis (SYS ''OPEN'') r flags pathname)] st1)))"

definition wrap_creat :: "int \<Rightarrow> string \<Rightarrow> proc \<Rightarrow> (int \<times> proc) result" where
  "wrap_creat r pathname st =
     (if bb_disable_all st then Inr (r, st)
      else rbind (if r \<noteq> - 1 then at_fd r (Inr (new_vfd VFD_FILE r st)) else Inr st)
             (\<lambda>st1. Inr (r, logs [Log (LOGBINis (SYS ''CREATE'') r 0 pathname)] st1)))"

section \<open>Connections\<close>

text \<open>The plugin found for a descriptor, with the log call of the identification.\<close>

definition identified :: "int \<Rightarrow> pp_dispatcher option \<times> logcall list \<times> getserv \<Rightarrow> proc \<Rightarrow> proc" where
  "identified s found st =
     (case found of (d, calls, gs) \<Rightarrow> upd_vfd s (\<lambda>v. v\<lparr>vf_dispatcher := d\<rparr>) (logs (map Log calls) (st\<lparr>px_serv := gs\<rparr>)))"

definition plugin_init :: "int \<Rightarrow> proc \<Rightarrow> proc" where
  "plugin_init s st =
     (case vf_dispatcher (vfd_tab st s) of
        None \<Rightarrow> st
      | Some d \<Rightarrow>
         (case pp_init d (px_junk st) s (vf_data (vfd_tab st s)) of
            (data, calls) \<Rightarrow> logs (map Log calls) (upd_vfd s (\<lambda>v. v\<lparr>vf_data := data\<rparr>) st)))"

definition wrap_bind :: "int \<Rightarrow> int \<Rightarrow> sockaddr \<Rightarrow> proc \<Rightarrow> (int \<times> proc) result" where
  "wrap_bind r s my_addr st =
     (if untraced s st then Inr (r, st)
      else rbind (if r = 0
                  then rbind (pp_id_bind (bb_disable_pp st) (px_fe st) my_addr (px_serv st)) (\<lambda>found. Inr (identified s found st))
                  else Inr st)
             (\<lambda>st1. Inr (r, if debug_events st1 then logs [Log (LOGBINi (SYS ''BIND'') r s)] st1 else st1)))"

definition wrap_listen :: "int \<Rightarrow> int \<Rightarrow> int \<Rightarrow> proc \<Rightarrow> (int \<times> proc) result" where
  "wrap_listen r s backlog st =
     (if untraced s st then Inr (r, st)
      else Inr (r, if debug_events st then logs [Log (LOGBINii (SYS ''LISTEN'') r s backlog)] st else st))"

text \<open>
  The answers of \<^verbatim>\<open>getpeername\<close> and \<^verbatim>\<open>getsockname\<close>: whether the call succeeded, and the address,
  which is what the stack holds when it did not.
\<close>

type_synonym nameret = "bool \<times> sockaddr"

definition name_of :: "nameret \<Rightarrow> nat \<Rightarrow> string result" where
  "name_of a len = (if fst a then parse_sockaddr (snd a) len else Inr ''other'')"

definition wrap_accept :: "int \<Rightarrow> nameret \<Rightarrow> nameret \<Rightarrow> int \<Rightarrow> proc \<Rightarrow> (int \<times> proc) result" where
  "wrap_accept new_fd peer local s st =
     (if untraced s st then Inr (new_fd, st)
      else let st1 = clear_readable_cache s (logs [Log (LOGBINi (SYS ''ACCEPT_BEGIN'') 0 s)] st) in
        rbind (if new_fd = - 1 then Inr (''other'', ''other'', st1)
               else at_fd new_fd (
                 let st2 = new_vfd VFD_SOCK new_fd st1;
                     raddr = apsnd (cut_sockaddr (px_junk st2)) peer;
                     laddr = apsnd (cut_sockaddr (px_junk st2)) local
                 in rbind (name_of raddr 512) (\<lambda>rhostport.
                    rbind (name_of laddr 512) (\<lambda>lhostport.
                    rbind (pp_id_bind (bb_disable_pp st2) (px_fe st2) (snd laddr) (px_serv st2)) (\<lambda>found.
                      Inr (rhostport, lhostport, plugin_init new_fd (identified new_fd found st2)))))))
          (\<lambda>(rhostport, lhostport, st3).
             Inr (new_fd, logs [Log (LOGBINis (SYS ''ACCEPT'') new_fd s (rhostport @ ''->'' @ lhostport))] st3)))"

definition connect_event :: "int \<Rightarrow> int \<Rightarrow> nameret \<Rightarrow> nameret \<Rightarrow> proc \<Rightarrow> proc result" where
  "connect_event s r peer local st =
     rbind (name_of peer 1024) (\<lambda>rhostport.
     rbind (name_of local 1024) (\<lambda>lhostport.
       at_fd s (rbind (pp_id_connect (bb_disable_pp st) (px_fe st) (snd peer) (px_serv st)) (\<lambda>found.
         Inr (logs [Log (LOGBINis (SYS ''CONNECT'') r s (lhostport @ ''->'' @ rhostport))]
               (plugin_init s (identified s found (upd_vfd s (\<lambda>v. v\<lparr>in_prog := False\<rparr>) st))))))))"

definition wrap_connect :: "int \<Rightarrow> bool \<Rightarrow> nameret \<Rightarrow> nameret \<Rightarrow> int \<Rightarrow> proc \<Rightarrow> (int \<times> proc) result" where
  "wrap_connect r einprogress peer local s st =
     (if untraced s st then Inr (r, st)
      else let st1 = logs [Log (LOGBINi (SYS ''CONNECT_BEGIN'') 0 s)] st in
        rbind (if r \<noteq> - 1 then connect_event s r peer local st1
               else if einprogress
               then Inr (upd_vfd s (\<lambda>v. v\<lparr>in_prog := True\<rparr>) (logs [Log (LOGBINs (SYS ''DEBUG'') r ''connect got EINPROGRESS'')] st1))
               else Inr (logs [Log (LOGBINis (SYS ''CONNECT'') r s ''failed->failed'')] st1))
          (\<lambda>st2. Inr (r, st2)))"

text \<open>The descriptor of the log is never closed.\<close>

definition wrap_close :: "int \<Rightarrow> int \<Rightarrow> proc \<Rightarrow> int \<times> proc" where
  "wrap_close r s st =
     (if s = LOGD_FD then (1, st)
      else if untraced s st then (r, st)
      else let v = vfd_tab st s;
               st1 = upd_vfd s (\<lambda>v. v\<lparr>vf_type := VFD_NONE, in_prog := False, rbufofs := 0, rbuflen := 0\<rparr>)
                       (st\<lparr>tracked := tracked st - {s}\<rparr>);
               st2 = (case vf_dispatcher v of
                        None \<Rightarrow> st1
                      | Some d \<Rightarrow>
                         (case pp_shutdown d (vf_data v) of
                            (data, calls) \<Rightarrow> logs (map Log calls) (upd_vfd s (\<lambda>v. v\<lparr>vf_data := data, vf_dispatcher := None\<rparr>) st1)));
               c = vsel_data st2;
               st3 = st2\<lparr>vsel_data := \<lparr> vs_read = vs_read c - {s}, vs_write = vs_write c - {s}, vs_except = vs_except c - {s} \<rparr>\<rparr>
           in (r, logs [Log (LOGBINi (SYS ''CLOSE'') r s)] st3))"

section \<open>select and poll\<close>

text \<open>The three descriptor sets of a call or an answer.\<close>

record fdsets =
  fs_read :: "int set"
  fs_write :: "int set"
  fs_except :: "int set"

definition no_fds :: fdsets where
  "no_fds = \<lparr> fs_read = {}, fs_write = {}, fs_except = {} \<rparr>"

definition rwe_sets :: "vfd_rwe \<Rightarrow> int \<Rightarrow> fdsets" where
  "rwe_sets rwe fd =
     (case rwe of
        VFD_SEL_NONE \<Rightarrow> no_fds
      | VFD_SEL_READ \<Rightarrow> no_fds\<lparr>fs_read := {fd}\<rparr>
      | VFD_SEL_WRITE \<Rightarrow> no_fds\<lparr>fs_write := {fd}\<rparr>
      | VFD_SEL_EXCEPT \<Rightarrow> no_fds\<lparr>fs_except := {fd}\<rparr>)"

text \<open>In which of the sets a descriptor is, looked at in this order.\<close>

definition rwe_in :: "fdsets \<Rightarrow> int \<Rightarrow> vfd_rwe" where
  "rwe_in f i =
     (if i \<in> fs_read f then VFD_SEL_READ else if i \<in> fs_write f then VFD_SEL_WRITE
      else if i \<in> fs_except f then VFD_SEL_EXCEPT else VFD_SEL_NONE)"

definition first_in :: "int \<Rightarrow> fdsets \<Rightarrow> int option" where
  "first_in n f = find (\<lambda>i. rwe_in f i \<noteq> VFD_SEL_NONE) [0..n - 1]"

definition meet :: "fdsets \<Rightarrow> vsel \<Rightarrow> fdsets" where
  "meet f c = \<lparr> fs_read = fs_read f \<inter> vs_read c, fs_write = fs_write f \<inter> vs_write c, fs_except = fs_except f \<inter> vs_except c \<rparr>"

definition uncache :: "vfd_rwe \<Rightarrow> int \<Rightarrow> vsel \<Rightarrow> vsel" where
  "uncache rwe fd c =
     (case rwe of
        VFD_SEL_NONE \<Rightarrow> c
      | VFD_SEL_READ \<Rightarrow> c\<lparr>vs_read := vs_read c - {fd}\<rparr>
      | VFD_SEL_WRITE \<Rightarrow> c\<lparr>vs_write := vs_write c - {fd}\<rparr>
      | VFD_SEL_EXCEPT \<Rightarrow> c\<lparr>vs_except := vs_except c - {fd}\<rparr>)"

definition enter_cache :: "int \<Rightarrow> fdsets \<Rightarrow> vsel \<Rightarrow> vsel" where
  "enter_cache n f c =
     \<lparr> vs_read = vs_read c \<union> {i \<in> fs_read f. 0 \<le> i \<and> i < n}, vs_write = vs_write c \<union> {i \<in> fs_write f. 0 \<le> i \<and> i < n},
       vs_except = vs_except c \<union> {i \<in> fs_except f. 0 \<le> i \<and> i < n} \<rparr>"

definition cache_sets :: "vsel \<Rightarrow> fdsets" where
  "cache_sets c = \<lparr> fs_read = vs_read c, fs_write = vs_write c, fs_except = vs_except c \<rparr>"

text \<open>
  The real \<^verbatim>\<open>select\<close> answers with its return value and the sets it leaves.  The result is the
  return value, the sets of the caller, the descriptor found and the state; a set the caller
  did not pass is empty and what it gets back is dropped.
\<close>

definition select_core :: "int \<Rightarrow> fdsets \<Rightarrow> int \<times> fdsets \<Rightarrow> proc \<Rightarrow> int \<times> fdsets \<times> int \<times> proc" where
  "select_core n want ans st =
     (let c = vsel_data st in
      case first_in n (meet want c) of
        Some fd \<Rightarrow>
          let rwe = rwe_in (meet want c) fd in
          (1, rwe_sets rwe fd, fd, st\<lparr>vsel_data := uncache rwe fd c\<rparr>)
      | None \<Rightarrow>
          let (r, got) = ans in
          if 0 < r
          then let st1 = (if 1 < r then logs [Log (LOGBIN0 (SYS ''PP_ISO_POLL'') r)] st else st);
                   c1 = enter_cache n got c;
                   st2 = st1\<lparr>vsel_data := c1\<rparr>
               in (case first_in n (cache_sets c1) of
                     None \<Rightarrow> (1, no_fds, - 1, st2)
                   | Some fd \<Rightarrow> (1, rwe_sets (rwe_in (cache_sets c1) fd) fd, fd, st2))
          else (r, got, - 1, st))"

definition speak_select ::
  "int \<Rightarrow> fdsets \<Rightarrow> int \<times> fdsets \<Rightarrow> nameret \<Rightarrow> nameret \<Rightarrow> proc \<Rightarrow> (int \<times> fdsets \<times> int \<times> proc) result" where
  "speak_select n want ans peer local st =
     (case select_core n want ans st of
        (r, sets, fd, st1) \<Rightarrow>
          rbind (if - 1 < fd then at_fd fd (if in_prog (vfd_tab st1 fd) then connect_event fd 1 peer local st1 else Inr st1) else Inr st1)
            (\<lambda>st2. Inr (r, sets, fd, st2)))"

definition wrap_select ::
  "int \<Rightarrow> fdsets \<Rightarrow> int \<times> fdsets \<Rightarrow> nameret \<Rightarrow> nameret \<Rightarrow> proc \<Rightarrow> (int \<times> fdsets \<times> proc) result" where
  "wrap_select n want ans peer local st =
     (if bb_disable_all st then Inr (fst ans, snd ans, st)
      else rbind (speak_select n want ans peer local (logs [Log (LOGBIN0 (SYS ''SELECT_BEGIN'') 0)] st))
             (\<lambda>(r, sets, rfd, st1). Inr (r, sets, logs [Log (LOGBINii (SYS ''SELECT'') r n rfd)] st1)))"

text \<open>A \<^verbatim>\<open>struct pollfd\<close>: the descriptor, whether it asks for input and for output, and the result.\<close>

datatype poll_events = POLL_NONE | POLLIN | POLLOUT

record pollfd =
  pfd_fd :: int
  pfd_in :: bool
  pfd_out :: bool
  pfd_revents :: poll_events

text \<open>The first entry of the found descriptor that asked for what was found gets the event.\<close>

fun set_revents :: "int \<Rightarrow> fdsets \<Rightarrow> pollfd list \<Rightarrow> pollfd list" where
  "set_revents rfd sets [] = []"
| "set_revents rfd sets (p # ps) =
     (if pfd_fd p \<noteq> rfd then p # set_revents rfd sets ps
      else if pfd_fd p \<in> fs_read sets then p\<lparr>pfd_revents := POLLIN\<rparr> # ps
      else if pfd_fd p \<in> fs_write sets then p\<lparr>pfd_revents := POLLOUT\<rparr> # ps
      else p # set_revents rfd sets ps)"

definition poll_sets :: "pollfd list \<Rightarrow> fdsets" where
  "poll_sets ufds =
     \<lparr> fs_read = pfd_fd ` {p \<in> set ufds. pfd_in p}, fs_write = pfd_fd ` {p \<in> set ufds. pfd_out p}, fs_except = {} \<rparr>"

definition poll_maxfd :: "pollfd list \<Rightarrow> int" where
  "poll_maxfd ufds = fold (\<lambda>p m. if m < pfd_fd p then pfd_fd p else m) ufds 0"

text \<open>The timeout in milliseconds as the code converts it.\<close>

definition poll_timeout :: "int \<Rightarrow> (int \<times> int) option" where
  "poll_timeout timeout = (if 0 \<le> timeout then Some (timeout div 1000, (timeout - timeout div 1000 * 1000) * 1000) else None)"

definition wrap_poll ::
  "pollfd list \<Rightarrow> int \<Rightarrow> ((int \<times> int) option \<Rightarrow> int \<times> fdsets) \<Rightarrow> int \<times> pollfd list \<Rightarrow> nameret \<Rightarrow> nameret \<Rightarrow> proc \<Rightarrow>
     (int \<times> pollfd list \<times> proc) result" where
  "wrap_poll ufds timeout ans real peer local st =
     (if bb_disable_all st then Inr (fst real, snd real, st)
      else let st1 = logs [Log (LOGBINii (SYS ''POLL_BEGIN'') 0 (int (length ufds)) timeout)] st;
               cleared = map (\<lambda>p. p\<lparr>pfd_revents := POLL_NONE\<rparr>) ufds
           in if list_all (\<lambda>p. pfd_in p \<or> pfd_out p \<longrightarrow> 0 \<le> pfd_fd p \<and> pfd_fd p < MAX_FDS) ufds
              then rbind (speak_select (poll_maxfd ufds + 1) (poll_sets ufds) (ans (poll_timeout timeout)) peer local st1)
                     (\<lambda>(r, sets, rfd, st2).
                        Inr (r, set_revents rfd sets cleared,
                             logs [Log (LOGBINiii (SYS ''POLL'') r (int (length ufds)) timeout rfd)] st2))
              else Inl OutOfBounds)"

section \<open>Ready descriptors\<close>

lemma first_in_Some:
  assumes "first_in n f = Some i"
  shows "0 \<le> i" and "i < n" and "rwe_in f i \<noteq> VFD_SEL_NONE" and "\<And>j. 0 \<le> j \<Longrightarrow> j < i \<Longrightarrow> rwe_in f j = VFD_SEL_NONE"
proof -
  from assms obtain k where k: "k < length [0..n - 1]" "i = [0..n - 1] ! k" "rwe_in f i \<noteq> VFD_SEL_NONE"
    "\<forall>j < k. rwe_in f ([0..n - 1] ! j) = VFD_SEL_NONE"
    by (auto simp: first_in_def find_Some_iff)
  have i: "i = int k" "k < nat n" using k(1,2) by (auto simp: nth_upto)
  then show "0 \<le> i" "i < n" "rwe_in f i \<noteq> VFD_SEL_NONE" using k(3) by auto
  show "rwe_in f j = VFD_SEL_NONE" if "0 \<le> j" "j < i" for j
    using k(4) [rule_format, of "nat j"] that i by (simp add: nth_upto)
qed

lemma first_in_None: "first_in n f = None \<longleftrightarrow> (\<forall>i. 0 \<le> i \<and> i < n \<longrightarrow> rwe_in f i = VFD_SEL_NONE)"
  by (auto simp: first_in_def find_None_iff)

lemma first_in_least:
  assumes "0 \<le> i" and "i < n" and "rwe_in f i \<noteq> VFD_SEL_NONE" and "\<And>j. 0 \<le> j \<Longrightarrow> j < i \<Longrightarrow> rwe_in f j = VFD_SEL_NONE"
  shows "first_in n f = Some i"
proof -
  obtain k where k: "first_in n f = Some k" using assms(1-3) first_in_None [of n f] by fastforce
  from first_in_Some [OF k] assms show ?thesis using k by (metis linorder_neqE)
qed






lemma plugin_frame [simp]:
  "vsel_data (plugin_init s st) = vsel_data st" "vsel_data (identified s found st) = vsel_data st"
  "bb_disable_all (plugin_init s st) = bb_disable_all st" "bb_disable_all (identified s found st) = bb_disable_all st"
  by (simp_all add: plugin_init_def identified_def upd_vfd_def logs_def split: option.splits prod.splits)




text \<open>A run of \<^verbatim>\<open>select\<close> calls with the same request; the sets handed to the program.\<close>

fun run_selects :: "int \<Rightarrow> fdsets \<Rightarrow> (int \<times> fdsets) list \<Rightarrow> nameret \<Rightarrow> nameret \<Rightarrow> proc \<Rightarrow> ((int \<times> fdsets) list \<times> proc) result" where
  "run_selects n want [] peer local st = Inr ([], st)"
| "run_selects n want (ans # answers) peer local st =
     rbind (wrap_select n want ans peer local st) (\<lambda>(r, sets, st1).
       rbind (run_selects n want answers peer local st1) (\<lambda>(outs, st2). Inr ((r, sets) # outs, st2)))"

lemma select_cached:
  assumes "first_in n (meet want (vsel_data st)) = Some i" and "rwe_in (meet want (vsel_data st)) i = VFD_SEL_READ"
    and "\<not> bb_disable_all st" and "i < MAX_FDS" and "\<not> in_prog (vfd_tab st i)"
  obtains st' where "wrap_select n want ans peer local st = Inr (1, no_fds\<lparr>fs_read := {i}\<rparr>, st')"
    and "vsel_data st' = (vsel_data st)\<lparr>vs_read := vs_read (vsel_data st) - {i}\<rparr>" and "vfd_tab st' = vfd_tab st"
    and "\<not> bb_disable_all st'"
proof -
  let ?st1 = "logs [Log (LOGBIN0 (SYS ''SELECT_BEGIN'') 0)] st"
  let ?st2 = "?st1\<lparr>vsel_data := (vsel_data st)\<lparr>vs_read := vs_read (vsel_data st) - {i}\<rparr>\<rparr>"
  have c: "select_core n want ans ?st1 = (1, no_fds\<lparr>fs_read := {i}\<rparr>, i, ?st2)"
    using assms(1,2) by (simp add: select_core_def Let_def rwe_sets_def uncache_def)
  have "0 \<le> i" using first_in_Some(1) [OF assms(1)] .
  then have "wrap_select n want ans peer local st =
      Inr (1, no_fds\<lparr>fs_read := {i}\<rparr>, logs [Log (LOGBINii (SYS ''SELECT'') 1 n i)] ?st2)"
    using assms(3-5) by (simp add: wrap_select_def speak_select_def c at_fd_def)
  then show thesis by (rule that) (use assms(3) in \<open>simp_all add: logs_def\<close>)
qed

section \<open>Properties\<close>






text \<open>
  Cached descriptors are handed out one by one, in order.  When exactly the
  descriptors \<open>xs\<close> (ascending) of those a program selects for reading are in the cache, the next
  calls of \<^verbatim>\<open>select\<close> with this request report them in this order, each alone, whatever the kernel
  would answer.
\<close>
lemma select_drains_in_order:
  assumes "\<not> bb_disable_all st" and "sorted_wrt (<) xs" and "set xs = fs_read want \<inter> vs_read (vsel_data st)"
    and "fs_write want = {}" and "fs_except want = {}" and "length answers = length xs"
    and "list_all (\<lambda>x. 0 \<le> x \<and> x < n \<and> x < MAX_FDS \<and> \<not> in_prog (vfd_tab st x)) xs"
  shows "\<exists>st'. run_selects n want answers peer local st = Inr (map (\<lambda>x. (1, no_fds\<lparr>fs_read := {x}\<rparr>)) xs, st')"
  using assms
proof (induction xs arbitrary: st answers)
  case Nil
  then show ?case by simp
next
  case (Cons x xs)
  then obtain ans rest where a: "answers = ans # rest" by (cases answers) auto
  let ?m = "meet want (vsel_data st)"
  have m: "rwe_in ?m i = (if i \<in> set (x # xs) then VFD_SEL_READ else VFD_SEL_NONE)" for i
    using Cons.prems(3-5) by (auto simp: rwe_in_def meet_def)
  have x: "0 \<le> x" "x < n" "x < MAX_FDS" "\<not> in_prog (vfd_tab st x)" using Cons.prems(7) by simp_all
  have "first_in n ?m = Some x" by (rule first_in_least) (use x m Cons.prems(2) in auto)
  from select_cached [OF this _ Cons.prems(1) x(3,4), of ans peer local] m [of x] obtain st1 where
    s: "wrap_select n want ans peer local st = Inr (1, no_fds\<lparr>fs_read := {x}\<rparr>, st1)"
      "vsel_data st1 = (vsel_data st)\<lparr>vs_read := vs_read (vsel_data st) - {x}\<rparr>" "vfd_tab st1 = vfd_tab st" "\<not> bb_disable_all st1"
    by auto
  have "x \<notin> set xs" using Cons.prems(2) by auto
  then have "set xs = fs_read want \<inter> vs_read (vsel_data st1)" using Cons.prems(3) s(2) by auto
  from Cons.IH [OF s(4) _ this Cons.prems(4,5), of rest] Cons.prems(2,6,7) a s(3)
  show ?case by (auto simp: a s(1))
qed

text \<open>
  \<^verbatim>\<open>select\<close> may report a descriptor that was not asked about.  When nothing the
  program asks for is cached and the kernel finds something, the descriptor that is reported is
  the first of the whole cache: a readable descriptor \<open>i\<close> left over from an earlier call is
  returned in the read set although the program did not put it there.
\<close>
lemma select_reports_unrequested:
  assumes "\<not> bb_disable_all st" and "first_in n (meet want (vsel_data st)) = None" and "0 < k"
    and "i \<in> vs_read (vsel_data st)" and "i \<notin> fs_read want" and "0 \<le> i" and "i < n" and "i < MAX_FDS" and "\<not> in_prog (vfd_tab st i)"
    and "\<And>j. 0 \<le> j \<Longrightarrow> j < i \<Longrightarrow> rwe_in (cache_sets (enter_cache n got (vsel_data st))) j = VFD_SEL_NONE"
  shows "\<exists>st'. wrap_select n want (k, got) peer local st = Inr (1, no_fds\<lparr>fs_read := {i}\<rparr>, st')"
proof -
  let ?c = "cache_sets (enter_cache n got (vsel_data st))"
  have r: "rwe_in ?c i = VFD_SEL_READ" using assms(4) by (simp add: rwe_in_def cache_sets_def enter_cache_def)
  have "first_in n ?c = Some i" by (rule first_in_least) (use assms r in auto)
  then have "\<exists>st1. select_core n want (k, got) (logs l st) = (1, no_fds\<lparr>fs_read := {i}\<rparr>, i, st1) \<and> vfd_tab st1 = vfd_tab st" for l
    using assms(2,3) r by (auto simp: select_core_def Let_def rwe_sets_def logs_def)
  then obtain st1 where "select_core n want (k, got) (logs [Log (LOGBIN0 (SYS ''SELECT_BEGIN'') 0)] st) = (1, no_fds\<lparr>fs_read := {i}\<rparr>, i, st1)"
    "vfd_tab st1 = vfd_tab st" by blast
  then show ?thesis using assms(1,6,8,9) by (auto simp: wrap_select_def speak_select_def at_fd_def)
qed

end
