(* ===== verification/Vfd_Inv.thy ===== *)
theory Vfd_Inv
  imports Vfd_Fd
begin

text \<open>
  The calls of a traced program as a step relation, and the invariant of the descriptor table that
  every run of calls keeps.
\<close>

section \<open>Calls\<close>

text \<open>The intercepted calls with their arguments and the answers of the kernel.\<close>

datatype syscall =
    Call_pipe int "int \<times> int"
  | Call_dup int int
  | Call_dup2 int int int
  | Call_fcntl int int int
  | Call_socket int int int int
  | Call_open int string int
  | Call_creat int string
  | Call_bind int int sockaddr
  | Call_listen int int int
  | Call_accept int nameret nameret int
  | Call_connect int bool nameret nameret int
  | Call_close int int
  | Call_read int nat rdret
  | Call_readv int "nat list" rdret
  | Call_recv int nat int rdret
  | Call_recvfrom int nat int rdret
  | Call_write int string int
  | Call_writev int "string list" int
  | Call_send int string int int
  | Call_sendto int string int int
  | Call_sendfile int int int int
  | Call_sendfile64 int int int int
  | Call_select int fdsets "int \<times> fdsets" nameret nameret
  | Call_poll "pollfd list" int "(int \<times> int) option \<Rightarrow> int \<times> fdsets" "int \<times> pollfd list" nameret nameret

definition after :: "('a \<times> proc) result \<Rightarrow> proc result" where
  "after x = rbind x (\<lambda>(_, st). Inr st)"

definition after2 :: "('a \<times> 'b \<times> proc) result \<Rightarrow> proc result" where
  "after2 x = rbind x (\<lambda>(_, _, st). Inr st)"

fun do_call :: "syscall \<Rightarrow> proc \<Rightarrow> proc result" where
  "do_call (Call_pipe r fds) st = after (wrap_pipe r fds st)"
| "do_call (Call_dup newfd oldfd) st = after (wrap_dup newfd oldfd st)"
| "do_call (Call_dup2 r oldfd newfd) st = after (wrap_dup2 r oldfd newfd st)"
| "do_call (Call_fcntl r fd cmd) st = after (wrap_fcntl r fd cmd st)"
| "do_call (Call_socket s d t p) st = after (wrap_socket s d t p st)"
| "do_call (Call_open r pathname flags) st = after (wrap_open r pathname flags st)"
| "do_call (Call_creat r pathname) st = after (wrap_creat r pathname st)"
| "do_call (Call_bind r s a) st = after (wrap_bind r s a st)"
| "do_call (Call_listen r s backlog) st = after (wrap_listen r s backlog st)"
| "do_call (Call_accept new_fd peer local s) st = after (wrap_accept new_fd peer local s st)"
| "do_call (Call_connect r inprog peer local s) st = after (wrap_connect r inprog peer local s st)"
| "do_call (Call_close r s) st = Inr (snd (wrap_close r s st))"
| "do_call (Call_read s len ans) st = after2 (wrap_read s len ans st)"
| "do_call (Call_readv s lens ans) st = after2 (wrap_readv s lens ans st)"
| "do_call (Call_recv s len flags ans) st = after2 (wrap_recv s len flags ans st)"
| "do_call (Call_recvfrom s len flags ans) st = after2 (wrap_recvfrom s len flags ans st)"
| "do_call (Call_write s buf r) st = after (wrap_write s buf r st)"
| "do_call (Call_writev s vec r) st = after (wrap_writev s vec r st)"
| "do_call (Call_send s buf flags r) st = after (wrap_send s buf flags r st)"
| "do_call (Call_sendto s buf flags r) st = after (wrap_sendto s buf flags r st)"
| "do_call (Call_sendfile out_fd in_fd count r) st = Inr (snd (wrap_sendfile out_fd in_fd count r st))"
| "do_call (Call_sendfile64 out_fd in_fd count r) st = Inr (snd (wrap_sendfile64 out_fd in_fd count r st))"
| "do_call (Call_select n want ans peer local) st = after2 (wrap_select n want ans peer local st)"
| "do_call (Call_poll ufds timeout ans real peer local) st = after2 (wrap_poll ufds timeout ans real peer local st)"

text \<open>A descriptor on which nothing has been read or written through a plugin.\<close>

definition idle :: "vfd \<Rightarrow> bool" where
  "idle v \<longleftrightarrow> rbuflen v = 0 \<and> rbufofs v = 0 \<and> rlastlen v = 0 \<and> tosend v = 0 \<and> \<not> ppwantmore v \<and> wbuflen v = 0 \<and> wbufofs v = 0"

text \<open>
  What is asked of the program and the kernel: a descriptor is bound or connected before data goes
  through it, and reads ask for less than two gigabytes.
\<close>

fun permitted :: "syscall \<Rightarrow> proc \<Rightarrow> bool" where
  "permitted (Call_bind r s a) st \<longleftrightarrow> (r = 0 \<longrightarrow> idle (vfd_tab st s))"
| "permitted (Call_connect r inprog peer local s) st \<longleftrightarrow> (r \<noteq> - 1 \<longrightarrow> idle (vfd_tab st s))"
| "permitted (Call_select n want ans peer local) st \<longleftrightarrow> (\<forall>fd. in_prog (vfd_tab st fd) \<longrightarrow> idle (vfd_tab st fd))"
| "permitted (Call_poll ufds timeout ans real peer local) st \<longleftrightarrow> (\<forall>fd. in_prog (vfd_tab st fd) \<longrightarrow> idle (vfd_tab st fd))"
| "permitted (Call_read s len ans) st \<longleftrightarrow> len < 2 ^ 31"
| "permitted (Call_readv s lens ans) st \<longleftrightarrow> list_all (\<lambda>n. n < 2 ^ 31) lens"
| "permitted (Call_recv s len flags ans) st \<longleftrightarrow> len < 2 ^ 31"
| "permitted (Call_recvfrom s len flags ans) st \<longleftrightarrow> len < 2 ^ 31"
| "permitted _ st \<longleftrightarrow> True"

inductive call_step :: "proc \<Rightarrow> syscall \<Rightarrow> proc \<Rightarrow> bool" where
  call: "permitted c st \<Longrightarrow> do_call c st = Inr st' \<Longrightarrow> call_step st c st'"

inductive call_steps :: "proc \<Rightarrow> syscall list \<Rightarrow> proc \<Rightarrow> bool" where
  none: "call_steps st [] st"
| more: "call_step st c st1 \<Longrightarrow> call_steps st1 cs st2 \<Longrightarrow> call_steps st (c # cs) st2"

inductive_cases call_stepE: "call_step st c st'"
inductive_simps call_steps_Nil [simp]: "call_steps st [] st'"
inductive_simps call_steps_Cons [simp]: "call_steps st (c # cs) st'"

section \<open>The invariant\<close>

text \<open>
  Every entry of the table has its buffers and sane plugin data; where a plugin that keeps the
  contract is in charge and has its state, the read buffer and the copy of written data are well formed.
\<close>

fun data_wf :: "pp_data \<Rightarrow> bool" where
  "data_wf (DFcgi w) \<longleftrightarrow> fcgi_wf (fcgi_read w) \<and> fcgi_wf (fcgi_write w)"
| "data_wf _ \<longleftrightarrow> True"

definition entry_ok :: "proc \<Rightarrow> int \<Rightarrow> bool" where
  "entry_ok st s \<longleftrightarrow>
     (let v = vfd_tab st s in
      length (rbuf v) = VBUFSIZE \<and> length (wbuf v) = VBUFSIZE \<and> data_wf (vf_data v) \<and>
      (\<forall>d. vf_dispatcher v = Some d \<and> framed d \<and> data_ok d (vf_data v) \<longrightarrow> rd_ok d s st \<and> wr_ok d s st))"

definition tab_ok :: "proc \<Rightarrow> bool" where
  "tab_ok st \<longleftrightarrow> (\<forall>s. entry_ok st s)"

lemma idle_entry_ok:
  assumes "idle (vfd_tab st s)" and "length (rbuf (vfd_tab st s)) = VBUFSIZE" and "length (wbuf (vfd_tab st s)) = VBUFSIZE"
    and "data_wf (vf_data (vfd_tab st s))"
  shows "entry_ok st s"
  using assms by (auto simp: entry_ok_def idle_def rd_ok_def wr_ok_def Let_def)

lemma entry_ok_cong: "vfd_tab a s = vfd_tab b s \<Longrightarrow> px_junk a = px_junk b \<Longrightarrow> entry_ok a s = entry_ok b s"
  using view_cong(1) [of a s b] by (simp add: entry_ok_def wr_ok_def)

lemma unplugged_entry_ok:
  assumes "vf_dispatcher (vfd_tab st s) = None" and "length (rbuf (vfd_tab st s)) = VBUFSIZE"
    and "length (wbuf (vfd_tab st s)) = VBUFSIZE" and "data_wf (vf_data (vfd_tab st s))"
  shows "entry_ok st s"
  using assms by (simp add: entry_ok_def Let_def)

text \<open>A state that differs from a good one in one entry only, which is good.\<close>

lemma tab_ok_one:
  assumes "tab_ok st" and "\<And>x. x \<noteq> s \<Longrightarrow> vfd_tab st' x = vfd_tab st x" and "px_junk st' = px_junk st" and "entry_ok st' s"
  shows "tab_ok st'"
  unfolding tab_ok_def
proof
  fix x
  show "entry_ok st' x" using assms entry_ok_cong [of st' x st] by (cases "x = s") (auto simp: tab_ok_def)
qed

lemma tab_ok_same: "tab_ok st \<Longrightarrow> vfd_tab st' = vfd_tab st \<Longrightarrow> px_junk st' = px_junk st \<Longrightarrow> tab_ok st'"
  using tab_ok_one [of st undefined st'] entry_ok_cong [of st' _ st] by (auto simp: tab_ok_def)

lemma tab_okD:
  assumes "tab_ok st"
  shows "length (rbuf (vfd_tab st s)) = VBUFSIZE" "length (wbuf (vfd_tab st s)) = VBUFSIZE" "data_wf (vf_data (vfd_tab st s))"
    "entry_ok st s"
  using assms by (auto simp: tab_ok_def entry_ok_def Let_def)

section \<open>Making and closing descriptors\<close>

lemma track_same [simp]:
  "vfd_tab (track fd st) = vfd_tab st" "px_junk (track fd st) = px_junk st" "k_got (track fd st) = k_got st"
  by (simp_all add: track_def)

lemma new_vfd_ok: "tab_ok st \<Longrightarrow> tab_ok (new_vfd t fd st)"
  by (rule tab_ok_one [of st fd], simp_all add: new_vfd_def)
     (rule idle_entry_ok, simp_all add: idle_def vfd_tab_init_one_def tab_okD)

lemma dup_vfd_ok: "tab_ok st \<Longrightarrow> tab_ok (dup_vfd oldfd newfd st)"
  by (rule tab_ok_one [of st newfd], simp_all add: dup_vfd_def)
     (rule idle_entry_ok, simp_all add: idle_def vfd_tab_init_one_def tab_okD)

lemma track_ok: "tab_ok st \<Longrightarrow> tab_ok (track fd st)" and logs_ok: "tab_ok st \<Longrightarrow> tab_ok (logs l st)"
  by (simp_all add: tab_ok_same)

lemma tab_ok_logs [simp]: "tab_ok (logs l st) = tab_ok st" and tab_ok_track [simp]: "tab_ok (track fd st) = tab_ok st"
proof -
  have "entry_ok (logs l st) x = entry_ok st x" "entry_ok (track fd st) x = entry_ok st x" for x by (rule entry_ok_cong; simp)+
  then show "tab_ok (logs l st) = tab_ok st" "tab_ok (track fd st) = tab_ok st" by (simp_all add: tab_ok_def)
qed

lemmas table_ok = new_vfd_ok dup_vfd_ok track_ok logs_ok

lemma at_fd_Inr [simp]: "at_fd fd x = Inr y \<longleftrightarrow> 0 \<le> fd \<and> fd < MAX_FDS \<and> x = Inr y"
  by (auto simp: at_fd_def)

text \<open>Identification on an idle descriptor, and the plugin's initialisation.\<close>

lemma pp_init_wf: "data_wf data \<Longrightarrow> data_wf (fst (pp_init d junk s data))"
  by (cases d) (simp_all add: pp_perlps_init_def pp_https_init_def pp_xc_init_def pp_psqlc_init_def pp_psqls_init_def
      pp_mysqlc_init_def pp_mysqls_init_def pp_fcgis_init_def pp_fcgic_init_def pp_fcgi_init_help_def fcgi_side0_def fcgi_wf_def)

lemma pp_shutdown_wf: "data_wf data \<Longrightarrow> data_wf (fst (pp_shutdown d data))"
  by (cases d) simp_all

lemma identified_same [simp]:
  "px_junk (identified s found st) = px_junk st"
  "vfd_tab (identified s found st) = (vfd_tab st)(s := (vfd_tab st s)\<lparr>vf_dispatcher := fst found\<rparr>)"
  by (simp_all add: identified_def split: prod.splits)

lemma plugin_init_same:
  "px_junk (plugin_init s st) = px_junk st" "x \<noteq> s \<Longrightarrow> vfd_tab (plugin_init s st) x = vfd_tab st x"
  "\<exists>data. vfd_tab (plugin_init s st) s = (vfd_tab st s)\<lparr>vf_data := data\<rparr> \<and> (data_wf (vf_data (vfd_tab st s)) \<longrightarrow> data_wf data)"
proof -
  show "px_junk (plugin_init s st) = px_junk st" "x \<noteq> s \<Longrightarrow> vfd_tab (plugin_init s st) x = vfd_tab st x"
    by (auto simp: plugin_init_def split: option.splits prod.splits)
  show "\<exists>data. vfd_tab (plugin_init s st) s = (vfd_tab st s)\<lparr>vf_data := data\<rparr> \<and> (data_wf (vf_data (vfd_tab st s)) \<longrightarrow> data_wf data)"
  proof (cases "vf_dispatcher (vfd_tab st s)")
    case None
    then show ?thesis by (intro exI [of _ "vf_data (vfd_tab st s)"]) (simp add: plugin_init_def)
  next
    case (Some d)
    obtain data calls where i: "pp_init d (px_junk st) s (vf_data (vfd_tab st s)) = (data, calls)" by fastforce
    show ?thesis using pp_init_wf [of "vf_data (vfd_tab st s)" d "px_junk st" s]
      by (intro exI [of _ data]) (simp add: plugin_init_def Some i)
  qed
qed

lemma identified_ok:
  assumes "tab_ok st" and "idle (vfd_tab st s)"
  shows "tab_ok (identified s found st)"
  by (rule tab_ok_one [OF assms(1), of s], simp_all, rule idle_entry_ok) (use assms(2) tab_okD [OF assms(1)] in \<open>simp_all add: idle_def\<close>)

lemma plugin_init_ok:
  assumes "tab_ok st" and "idle (vfd_tab st s)"
  shows "tab_ok (plugin_init s st)"
proof (rule tab_ok_one [OF assms(1), of s])
  from plugin_init_same(3) [of s st] obtain data where
    "vfd_tab (plugin_init s st) s = (vfd_tab st s)\<lparr>vf_data := data\<rparr>" "data_wf (vf_data (vfd_tab st s)) \<longrightarrow> data_wf data" by blast
  then show "entry_ok (plugin_init s st) s"
    by (intro idle_entry_ok) (use assms(2) tab_okD [OF assms(1)] in \<open>simp_all add: idle_def\<close>)
qed (simp_all add: plugin_init_same)

section \<open>What plugins do to their state\<close>

text \<open>The reading side of a plugin waits on what it waited on before a write was shown to it.\<close>

lemma record_side:
  "w\<lparr>psql_read := x\<rparr> = w \<longleftrightarrow> x = psql_read w"
  "m\<lparr>mysql_read := y\<rparr> = m \<longleftrightarrow> y = mysql_read m"
  "f\<lparr>fcgi_read := z\<rparr> = f \<longleftrightarrow> z = fcgi_read f"
  subgoal by (cases w) auto
  subgoal by (cases m) auto
  subgoal by (cases f) auto
  done

lemmas sql_sides = pp_psqlc_read_def pp_psqls_read_def pp_mysqlc_read_def pp_mysqls_read_def pp_psqlc_write_def pp_psqls_write_def
  pp_mysqlc_write_def pp_mysqls_write_def

lemma write_keeps_asking:
  assumes "framed d" and "pp_write d junk s data mem n = Inr (data', a, calls)" and "pp_read d junk s data mem2 k = Inr (data, - 1, calls2)"
  shows "\<exists>calls3. pp_read d junk s data' mem2 k = Inr (data', - 1, calls3)"
proof (cases "\<exists>p. data = DPsql p \<or> d \<in> {Fcgis, Fcgic} \<or> d \<in> {Mysqlc, Mysqls}")
  case True
  then show ?thesis using assms
    by (cases d; cases data)
       (auto simp: as_state_def sql_sides pp_fcgis_read_def pp_fcgic_read_def pp_fcgis_write_def pp_fcgic_write_def record_side framed_def
         elim!: rbind_InrE split: prod.splits)
next
  case False
  then show ?thesis using assms
    by (cases d; cases data)
       (auto simp: as_state_def framed_def pp_perlps_read_def pp_httpc_read_def pp_trivial_read_def elim!: rbind_InrE)
qed

text \<open>A plugin without its state fails; the two that keep no contract leave the state sane.\<close>

lemma stray_steps:
  assumes "data_wf data" and "\<not> (framed d \<and> data_ok d data)"
  shows "pp_read d junk s data mem n = Inr (data', a, calls) \<Longrightarrow> data_wf data' \<and> \<not> (framed d \<and> data_ok d data')"
    and "pp_write d junk s data mem n = Inr (data', a, calls) \<Longrightarrow> data_wf data' \<and> \<not> (framed d \<and> data_ok d data')"
  using assms by (cases d; cases data; auto simp: as_state_def framed_def elim!: rbind_InrE)+

lemma fcgi_data_ok: "d \<in> {Fcgis, Fcgic} \<Longrightarrow> data_ok d data \<longleftrightarrow> data_wf data \<and> fcgi_of data \<noteq> None"
  by (cases data) auto

lemma plain_steps:
  assumes "d \<notin> {Fcgis, Fcgic}" and "data_wf data"
  shows "pp_read d junk s data mem n = Inr (data', a, calls) \<Longrightarrow> data_wf data'"
    and "pp_write d junk s data mem n = Inr (data', a, calls) \<Longrightarrow> data_wf data'"
  using assms by (cases d; cases data; auto simp: as_state_def elim!: rbind_InrE)+

lemma pp_consume_keeps:
  assumes "\<And>x m k x' r calls. P x \<Longrightarrow> sp x m k = Inr (x', r, calls) \<Longrightarrow> P x'"
    and "P x" and "pp_consume sp x mem n = Inr (x', mem', n', calls)"
  shows "P x' \<and> length mem' \<le> length mem"
  using assms(2,3)
proof (induction n arbitrary: x mem calls rule: less_induct)
  case (less n)
  show ?case
  proof (cases "n = 0 \<or> (\<exists>e. sp x mem n = Inl e)")
    case True
    then show ?thesis using less.prems by (cases "n = 0") (auto simp: pp_consume.simps [of sp x mem])
  next
    case False
    then obtain y r c where sp: "sp x mem n = Inr (y, r, c)" and n: "0 < n" by (cases "sp x mem n") auto
    note y = assms(1) [OF less.prems(1) sp]
    show ?thesis
    proof (cases "0 < r")
      case True
      then have "n - nat r < n" using n by simp
      note IH = less.IH [OF this y, of "drop (nat r) mem"]
      from less.prems(2) True n sp show ?thesis
        by (auto simp: pp_consume.simps [of sp x mem] elim!: rbind_InrE split: if_splits dest!: IH)
    next
      case False
      then show ?thesis using less.prems(2) n sp y by (simp add: pp_consume.simps [of sp x mem])
    qed
  qed
qed

section \<open>Reading and writing\<close>

text \<open>
  What reading on \<open>s\<close> does to a table whatever the plugin: the frame, the size of the buffer, and
  any property of the plugin's state that the plugin's reading keeps.
\<close>

definition input_step :: "(pp_data \<Rightarrow> bool) \<Rightarrow> int \<Rightarrow> proc \<Rightarrow> proc \<Rightarrow> bool" where
  "input_step P s st st' \<longleftrightarrow> reads_only s st st' \<and> length (rbuf (vfd_tab st' s)) = length (rbuf (vfd_tab st s)) \<and>
     (P (vf_data (vfd_tab st s)) \<longrightarrow> P (vf_data (vfd_tab st' s)))"

definition reading_keeps :: "(pp_data \<Rightarrow> bool) \<Rightarrow> pp_junk \<Rightarrow> int \<Rightarrow> vfd \<Rightarrow> bool" where
  "reading_keeps P junk s v \<longleftrightarrow>
     (\<forall>d data mem n data' a calls. vf_dispatcher v = Some d \<longrightarrow> P data \<longrightarrow> pp_read d junk s data mem n = Inr (data', a, calls) \<longrightarrow> P data')"

lemma input_step_refl: "input_step P s st st"
  by (simp add: input_step_def reads_only_refl)

lemma input_step_trans: "input_step P s a b \<Longrightarrow> input_step P s b c \<Longrightarrow> input_step P s a c"
  using reads_only_trans by (fastforce simp: input_step_def)

lemma input_step_same:
  "vfd_tab st' = vfd_tab st \<Longrightarrow> px_junk st' = px_junk st \<Longrightarrow> bb_disable_all st' = bb_disable_all st \<Longrightarrow>
     (\<And>x. x \<noteq> s \<Longrightarrow> k_got st' x = k_got st x) \<Longrightarrow> input_step P s st st'"
  by (simp add: input_step_def reads_only_def)

lemma reading_keeps_step: "input_step Q s st st' \<Longrightarrow> reading_keeps P (px_junk st') s (vfd_tab st' s) = reading_keeps P (px_junk st) s (vfd_tab st s)"
  by (simp add: input_step_def reads_only_def reading_keeps_def)

lemma buf_shift_step:
  assumes "buf_shift s st = Inr st'" and "length (rbuf (vfd_tab st s)) = VBUFSIZE"
  shows "input_step P s st st'"
proof -
  define v where "v = vfd_tab st s"
  define start where "start = (if rbufofs v < rlastlen v then rbufofs v else rlastlen v)"
  consider "st' = st" | "start > 0" "start \<le> rbuflen v" "rbuflen v \<le> int VBUFSIZE"
      "vfd_tab st' = (vfd_tab st)(s := v\<lparr>rbuf := poke (rbuf v) 0 (peek (rbuf v) (nat start) (nat (rbuflen v - start))),
          rbufofs := rbufofs v - start, rbuflen := rbuflen v - start, rlastlen := rlastlen v - start\<rparr>)"
      "px_junk st' = px_junk st" "bb_disable_all st' = bb_disable_all st" "k_got st' = k_got st"
    using assms(1) unfolding buf_shift_def v_def [symmetric] start_def [symmetric] Let_def
    by (auto simp: v_def split: if_splits)
  then show ?thesis
  proof cases
    case 1
    then show ?thesis by (simp add: input_step_refl)
  next
    case 2
    have "length (poke (rbuf v) 0 (peek (rbuf v) (nat start) (nat (rbuflen v - start)))) = VBUFSIZE"
      using 2(1-3) assms(2) by (subst length_poke) (simp_all add: v_def)
    with 2 assms(2) show ?thesis by (simp add: input_step_def reads_only_def v_def)
  qed
qed

lemma buf_ret_step: "buf_ret s len st = Inr (out, st') \<Longrightarrow> input_step P s st st'"
  unfolding buf_ret_def Let_def input_step_def reads_only_def
  by (auto elim!: rbind_InrE split: if_splits)

lemma give_step: "give s len st = Inr (r, out, st') \<Longrightarrow> input_step P s st st'"
  by (auto simp: give_def elim!: rbind_InrE dest: buf_ret_step)

lemma reading_keepsD:
  "reading_keeps P junk s v \<Longrightarrow> vf_dispatcher v = Some d \<Longrightarrow> pp_read d junk s data mem n = Inr (data', a, calls) \<Longrightarrow> P data \<Longrightarrow> P data'"
  unfolding reading_keeps_def by blast

lemma present_step:
  assumes "present_pp s st = Inr st'" and "reading_keeps P (px_junk st) s (vfd_tab st s)"
  shows "input_step P s st st'"
  using assms(1) reading_keepsD [OF assms(2)] unfolding present_pp_def Let_def input_step_def reads_only_def
  by (auto elim!: rbind_InrE split: if_splits option.splits prod.splits)

lemma refill_step:
  assumes "refill_and_give strict s len ans st = Inr (r, out, st')" and "reading_keeps P (px_junk st) s (vfd_tab st s)"
    and "length (rbuf (vfd_tab st s)) = VBUFSIZE"
  shows "input_step P s st st'"
proof -
  obtain st1 where b: "buf_shift s st = Inr st1" using assms(1) by (auto simp: refill_and_give_def elim!: rbind_InrE)
  note s1 = buf_shift_step [OF b assms(3)]
  define n where "n = rbuflen (vfd_tab st1 s)"
  obtain r2 got st2 where rr: "real_read s (VBUFSIZE - nat n) ans st1 = (r2, got, st2)" by (metis prod_cases3)
  have n: "0 \<le> n" "n \<le> int VBUFSIZE" and rest: "if r2 \<le> 0 then st' = st2 else
      \<exists>st4. present_pp s (show_buffer ''BUF_REFILLED'' s
          (upd_vfd s (\<lambda>v. v\<lparr>rbuf := poke (rbuf v) (nat (rbuflen v)) got, rbuflen := rbuflen v + r2\<rparr>) st2)) = Inr st4 \<and>
        give s len st4 = Inr (r, out, st')"
    using assms(1) b rr unfolding refill_and_give_def Let_def n_def by (auto elim!: rbind_InrE split: if_splits)
  have k: "vfd_tab st2 = vfd_tab st1" "input_step P s st1 st2" "length got \<le> VBUFSIZE - nat n"
    using rr by (auto simp: real_read_def input_step_def reads_only_def split: rdret.splits)
  note s2 = input_step_trans [OF s1 k(2)]
  show ?thesis
  proof (cases "r2 \<le> 0")
    case True
    then show ?thesis using rest s2 by simp
  next
    case False
    define st3 where "st3 = show_buffer ''BUF_REFILLED'' s
      (upd_vfd s (\<lambda>v. v\<lparr>rbuf := poke (rbuf v) (nat (rbuflen v)) got, rbuflen := rbuflen v + r2\<rparr>) st2)"
    have "length (rbuf (vfd_tab st1 s)) = VBUFSIZE" using s1 assms(3) by (simp add: input_step_def)
    then have "input_step P s st2 st3" using k n by (simp add: input_step_def reads_only_def st3_def n_def [symmetric])
    note s3 = input_step_trans [OF s2 this]
    from rest False obtain st4 where p: "present_pp s st3 = Inr st4" "give s len st4 = Inr (r, out, st')" by (auto simp: st3_def)
    have "input_step P s st3 st4" using present_step [OF p(1)] reading_keeps_step [OF s3] assms(2) by simp
    from input_step_trans [OF s3 input_step_trans [OF this give_step [OF p(2)]]] show ?thesis .
  qed
qed

lemma virtual_input_step:
  assumes "virtual_input strict s len ans st0 = Inr (r, out, st')" and "reading_keeps P (px_junk st0) s (vfd_tab st0 s)"
    and "length (rbuf (vfd_tab st0 s)) = VBUFSIZE"
  shows "input_step P s st0 st'"
proof -
  define st where "st = show_buffer ''BUF_PRE'' s st0"
  have s0: "input_step P s st0 st" by (rule input_step_same) (simp_all add: st_def)
  have k: "reading_keeps P (px_junk st) s (vfd_tab st s)" "length (rbuf (vfd_tab st s)) = VBUFSIZE" using assms(2,3) by (simp_all add: st_def)
  have sl: "input_step P s x (short_log sc s x)" for sc x by (rule input_step_same) simp_all
  note unf = assms(1) [unfolded virtual_input_def Let_def, folded st_def]
  consider (given) st1 sc where "give s len (short_log sc s st1) = Inr (r, out, st')" "st1 = st \<or> present_pp s st = Inr st1"
    | (refill) st1 where "refill_and_give strict s len ans st1 = Inr (r, out, st')" "st1 = st \<or> present_pp s st = Inr st1"
  proof (cases "tosend (vfd_tab st s) \<noteq> 0")
    case True
    then show ?thesis using that(1) [of "''BUF_SHORT1''" st] unf by simp
  next
    case t: False
    show ?thesis
    proof (cases "rbufofs (vfd_tab st s) < rbuflen (vfd_tab st s) \<and> \<not> ppwantmore (vfd_tab st s)")
      case True
      then obtain st1 where "present_pp s st = Inr st1" "(if tosend (vfd_tab st1 s) \<noteq> 0 then give s len (short_log ''BUF_SHORT2'' s st1)
          else refill_and_give strict s len ans st1) = Inr (r, out, st')"
        using unf t by (auto elim!: rbind_InrE)
      then show ?thesis using that(1) [of "''BUF_SHORT2''" st1] that(2) [of st1] by (cases "tosend (vfd_tab st1 s) \<noteq> 0") simp_all
    next
      case False
      then have "refill_and_give strict s len ans st = Inr (r, out, st')" using unf t by (auto split: if_splits)
      then show ?thesis using that(2) by blast
    qed
  qed
  then show ?thesis
  proof cases
    case given
    then have "input_step P s st st1" using present_step [OF _ k(1)] input_step_refl by blast
    from input_step_trans [OF s0 input_step_trans [OF this input_step_trans [OF sl give_step [OF given(1)]]]] show ?thesis .
  next
    case refill
    then have s1: "input_step P s st st1" using present_step [OF _ k(1)] input_step_refl by blast
    have "length (rbuf (vfd_tab st1 s)) = VBUFSIZE" using s1 k(2) by (simp add: input_step_def)
    from refill_step [OF refill(1) _ this] reading_keeps_step [OF s1] k(1) have "input_step P s st1 st'" by blast
    from input_step_trans [OF s0 input_step_trans [OF s1 this]] show ?thesis .
  qed
qed

text \<open>The plugin in charge keeps its contract, or the entry is only asked to have its buffers.\<close>

definition served_by :: "pp_dispatcher \<Rightarrow> int \<Rightarrow> proc \<Rightarrow> bool" where
  "served_by d s st \<longleftrightarrow> vf_dispatcher (vfd_tab st s) = Some d \<and> framed d \<and> data_ok d (vf_data (vfd_tab st s))"

lemma entry_ok_served: "served_by d s st \<Longrightarrow> entry_ok st s \<longleftrightarrow>
    length (rbuf (vfd_tab st s)) = VBUFSIZE \<and> length (wbuf (vfd_tab st s)) = VBUFSIZE \<and> data_wf (vf_data (vfd_tab st s)) \<and> rd_ok d s st \<and> wr_ok d s st"
  by (auto simp: entry_ok_def served_by_def Let_def)

lemma entry_ok_stray: "\<forall>d. \<not> served_by d s st \<Longrightarrow> entry_ok st s \<longleftrightarrow>
    length (rbuf (vfd_tab st s)) = VBUFSIZE \<and> length (wbuf (vfd_tab st s)) = VBUFSIZE \<and> data_wf (vf_data (vfd_tab st s))"
  by (auto simp: entry_ok_def served_by_def Let_def)

lemma virtual_input_keeps:
  assumes "virtual_input strict s len ans st = Inr (r, out, st')" and "entry_ok st s" and "vf_dispatcher (vfd_tab st s) = Some d" and "len < 2 ^ 31"
  shows "entry_ok st' s"
proof (cases "served_by d s st")
  case True
  then have f: "framed d" by (simp add: served_by_def)
  note e = assms(2) [unfolded entry_ok_served [OF True]]
  from virtual_input_ok [OF f _ assms(4), of s st, where strict = strict and ans = ans] e assms(1) have v: "rd_ok d s st'" "reads_only s st st'" by auto
  have s': "served_by d s st'" using v(1) f by (simp add: rd_ok_def served_by_def Let_def)
  have "reading_keeps data_wf (px_junk st) s (vfd_tab st s)" if "d \<notin> {Fcgis, Fcgic}"
    using plain_steps(1) [OF that] assms(3) by (auto simp: reading_keeps_def)
  with virtual_input_step [OF assms(1), of data_wf] e have "d \<notin> {Fcgis, Fcgic} \<Longrightarrow> data_wf (vf_data (vfd_tab st' s))" by (simp add: input_step_def)
  moreover have "d \<in> {Fcgis, Fcgic} \<Longrightarrow> data_wf (vf_data (vfd_tab st' s))" using s' fcgi_data_ok by (auto simp: served_by_def)
  ultimately have "data_wf (vf_data (vfd_tab st' s))" by blast
  then show ?thesis unfolding entry_ok_served [OF s']
    using v s' e by (auto simp: rd_ok_def wr_ok_def reads_only_def served_by_def Let_def)
next
  case False
  define P where "P data \<longleftrightarrow> data_wf data \<and> \<not> (framed d \<and> data_ok d data)" for data
  have stray: "\<forall>d. \<not> served_by d s st" and P: "P (vf_data (vfd_tab st s))"
    using False assms(2,3) by (auto simp: served_by_def P_def entry_ok_def Let_def)
  note e = assms(2) [unfolded entry_ok_stray [OF stray]]
  have "reading_keeps P (px_junk st) s (vfd_tab st s)"
    unfolding reading_keeps_def P_def using assms(3) stray_steps(1) [of _ d] by (metis option.inject)
  from virtual_input_step [OF assms(1) this] e P have i: "reads_only s st st'" "length (rbuf (vfd_tab st' s)) = VBUFSIZE" "P (vf_data (vfd_tab st' s))"
    by (simp_all add: input_step_def)
  then have "\<forall>d. \<not> served_by d s st'" using assms(3) by (auto simp: served_by_def P_def reads_only_def)
  then show ?thesis using i e by (simp add: entry_ok_stray P_def reads_only_def)
qed

lemma virtual_input_tab_ok:
  assumes "virtual_input strict s len ans st = Inr (r, out, st')" and "tab_ok st" and "vf_dispatcher (vfd_tab st s) \<noteq> None" and "len < 2 ^ 31"
  shows "tab_ok st'"
proof -
  from assms(3) obtain d where d: "vf_dispatcher (vfd_tab st s) = Some d" by blast
  have "entry_ok st' s" by (rule virtual_input_keeps [OF assms(1) tab_okD(4) [OF assms(2)] d assms(4)])
  moreover have "reads_only s st st'"
    using virtual_input_step [OF assms(1), of "\<lambda>_. True"] tab_okD(1) [OF assms(2)] by (simp add: input_step_def reading_keeps_def)
  ultimately show ?thesis using tab_ok_one [OF assms(2), of s st'] by (auto simp: reads_only_def)
qed

lemma real_read_same: "real_read s n ans st = (r, out, st') \<Longrightarrow> vfd_tab st' = vfd_tab st \<and> px_junk st' = px_junk st"
  by (auto simp: real_read_def split: rdret.splits)

lemma wrap_input_tab_ok:
  assumes "wrap_input (virtual_input strict) bc ec s len ans st = Inr (r, out, st')" and "tab_ok st" and "len < 2 ^ 31"
  shows "tab_ok st'"
proof (cases "\<not> untraced s st \<and> vf_dispatcher (vfd_tab st s) \<noteq> None")
  case True
  let ?st1 = "logs [Log bc] st"
  from assms(1) True obtain st2 where v: "virtual_input strict s len ans ?st1 = Inr (r, out, st2)" "st' = logs [Log (ec r)] st2"
    by (auto simp: wrap_input_def elim!: rbind_InrE)
  show ?thesis using virtual_input_tab_ok [OF v(1) logs_ok [OF assms(2)]] True assms(3) by (simp add: v(2) logs_ok)
next
  case False
  then have "vfd_tab st' = vfd_tab st \<and> px_junk st' = px_junk st"
    using assms(1) by (auto simp: wrap_input_def elim!: rbind_InrE split: if_splits prod.splits dest: real_read_same)
  then show ?thesis using tab_ok_same [OF assms(2)] by blast
qed

lemma vwrite_shape:
  assumes "vwrite_req s buf len st = Inr st'" and "length (wbuf (vfd_tab st s)) = VBUFSIZE"
  obtains "st' = st" | d wb n data mem vlen calls where "vf_dispatcher (vfd_tab st s) = Some d"
    and "len \<le> int (length buf)" and "int (wbuflen (vfd_tab st s)) + len \<le> int VBUFSIZE" and "length wb = VBUFSIZE"
    and "pp_consume (pp_write d (px_junk st) s) (vf_data (vfd_tab st s)) (drop (wbufofs (vfd_tab st s)) wb) n = Inr (data, mem, vlen, calls)"
    and "st' = logs (map Log calls)
          (upd_vfd s (\<lambda>v. v\<lparr>wbuf := poke wb 0 (take vlen mem), wbuflen := vlen, wbufofs := 0, vf_data := data\<rparr>) st)"
proof -
  define v where "v = vfd_tab st s"
  show thesis
  proof (cases "vf_dispatcher v = None \<or> len \<le> 0")
    case True
    then show thesis using that(1) assms(1) by (auto simp: vwrite_req_def v_def Let_def split: option.splits)
  next
    case False
    then obtain d where d: "vf_dispatcher v = Some d" by auto
    let ?wb = "poke (wbuf v) (wbuflen v) (take (nat len) buf)"
    have fit: "\<not> (int (length buf) < len \<or> VBUFSIZE < wbuflen v + nat len)"
      using assms(1) d False by (auto simp: vwrite_req_def v_def Let_def split: if_splits)
    then obtain data mem vlen calls where c: "pp_consume (pp_write d (px_junk st) s) (vf_data v) (drop (wbufofs v) ?wb) (wbuflen v + nat len - wbufofs v) = Inr (data, mem, vlen, calls)"
      "st' = logs (map Log calls) (upd_vfd s (\<lambda>v. v\<lparr>wbuf := poke ?wb 0 (take vlen mem), wbuflen := vlen, wbufofs := 0, vf_data := data\<rparr>) st)"
      using assms(1) d False by (auto simp: vwrite_req_def v_def Let_def elim!: rbind_InrE)
    have l: "length ?wb = VBUFSIZE" using fit assms(2) False by (subst length_poke) (auto simp: v_def)
    show thesis by (rule that(2) [OF d [unfolded v_def] _ _ l [unfolded v_def] c(1) [unfolded v_def] c(2) [unfolded v_def]]) (use fit False in \<open>auto simp: v_def\<close>)
  qed
qed

lemma wr_rd_ok_after_write:
  assumes "framed d" and "rd_ok d s st" and "data_ok d data" and "pp_consume (pp_write d (px_junk st) s) (vf_data (vfd_tab st s)) m n = Inr (data, mem, vlen, calls)"
    and "vfd_tab st' s = (vfd_tab st s)\<lparr>wbuf := wb, wbuflen := vlen, wbufofs := 0, vf_data := data\<rparr>" and "px_junk st' = px_junk st"
  shows "rd_ok d s st'"
proof -
  have "asked d (px_junk st) s data k" if "asked d (px_junk st) s (vf_data (vfd_tab st s)) k" for k
  proof -
    from that obtain mem0 calls0 where a: "0 < k" "nat k \<le> length mem0" "pp_read d (px_junk st) s (vf_data (vfd_tab st s)) mem0 (nat k) = Inr (vf_data (vfd_tab st s), - 1, calls0)"
      by (auto simp: asked_def)
    have "(\<exists>c. pp_read d (px_junk st) s data mem0 (nat k) = Inr (data, - 1, c)) \<and> length mem \<le> length m"
      by (rule pp_consume_keeps [OF _ _ assms(4), where P = "\<lambda>x. \<exists>c. pp_read d (px_junk st) s x mem0 (nat k) = Inr (x, - 1, c)"])
         (use write_keeps_asking [OF assms(1)] a(3) in blast)+
    then show ?thesis using a by (auto simp: asked_def)
  qed
  then show ?thesis using assms(2,3) by (auto simp: rd_ok_def assms(5,6) Let_def)
qed

lemma vwrite_tab_ok:
  assumes "vwrite_req s buf len st = Inr st'" and "tab_ok st"
  shows "tab_ok st'"
  using assms(1) tab_okD(2) [OF assms(2), of s]
proof (cases rule: vwrite_shape)
  case 1
  then show ?thesis using assms(2) by simp
next
  case (2 d wb n data mem vlen calls)
  note d = 2(1) and c = 2(5) and st' = 2(6)
  let ?data = "vf_data (vfd_tab st s)"
  have tab: "vfd_tab st' s = (vfd_tab st s)\<lparr>wbuf := poke wb 0 (take vlen mem), wbuflen := vlen, wbufofs := 0, vf_data := data\<rparr>"
    "px_junk st' = px_junk st" by (simp_all add: st')
  have "length mem \<le> length (drop (wbufofs (vfd_tab st s)) wb)" using pp_consume_keeps [OF _ _ c, of "\<lambda>_. True"] by simp
  then have len: "length (poke wb 0 (take vlen mem)) = VBUFSIZE" using 2(4) by simp
  have "entry_ok st' s"
  proof (cases "served_by d s st")
    case True
    then have f: "framed d" by (simp add: served_by_def)
    note e = tab_okD(4) [OF assms(2), of s, unfolded entry_ok_served [OF True]]
    have w: "wr_ok d s st'" using vwrite_ok [OF f _ 2(2,3)] e assms(1) by simp
    then have s': "served_by d s st'" using f by (simp add: wr_ok_def served_by_def Let_def)
    then have ok: "data_ok d data" by (simp add: served_by_def tab)
    have "data_wf data"
    proof (cases "d \<in> {Fcgis, Fcgic}")
      case True
      then show ?thesis using ok fcgi_data_ok by blast
    next
      case False
      have "data_wf data \<and> length mem \<le> length (drop (wbufofs (vfd_tab st s)) wb)"
        by (rule pp_consume_keeps [OF _ _ c]) (use plain_steps(2) [OF False] e in blast)+
      then show ?thesis ..
    qed
    then show ?thesis unfolding entry_ok_served [OF s']
      using e w len wr_rd_ok_after_write [OF f _ ok c tab] by (simp add: tab)
  next
    case False
    define P where "P data \<longleftrightarrow> data_wf data \<and> \<not> (framed d \<and> data_ok d data)" for data
    have stray: "\<forall>d. \<not> served_by d s st" and p: "P ?data"
      using False d tab_okD(3) [OF assms(2)] by (auto simp: served_by_def P_def)
    note e = tab_okD(4) [OF assms(2), of s, unfolded entry_ok_stray [OF stray]]
    have "P data \<and> length mem \<le> length (drop (wbufofs (vfd_tab st s)) wb)"
      by (rule pp_consume_keeps [where P = P, OF _ p c]) (use stray_steps(2) in \<open>unfold P_def, blast\<close>)
    then show ?thesis using d len e entry_ok_stray [of s st'] by (simp add: tab served_by_def P_def)
  qed
  then show ?thesis by (rule tab_ok_one [OF assms(2), rotated 2]) (simp_all add: st')
qed

section \<open>Every call keeps the invariant\<close>

lemma wrap_output_tab_ok: "wrap_output bc ec s buf r st = Inr (r', st') \<Longrightarrow> tab_ok st \<Longrightarrow> tab_ok st'"
proof (cases "untraced s st")
  case False
  assume "wrap_output bc ec s buf r st = Inr (r', st')" and ok: "tab_ok st"
  with False obtain st1 where w: "vwrite_req s buf (to_int32 r) (logs [Log bc] st) = Inr st1"
    "vfd_tab st' = vfd_tab st1" "px_junk st' = px_junk st1" by (auto simp: wrap_output_def elim!: rbind_InrE)
  show ?thesis by (rule tab_ok_same [OF vwrite_tab_ok [OF w(1)] w(2,3)]) (use ok in simp)
qed (simp add: wrap_output_def)

lemma writev_loop_tab_ok: "writev_loop s vec todo st = Inr st' \<Longrightarrow> tab_ok st \<Longrightarrow> tab_ok st'"
proof (induction vec arbitrary: todo st)
  case (Cons b vec)
  then show ?case by (auto simp: Let_def elim!: rbind_InrE split: if_splits dest: vwrite_tab_ok)
qed simp

lemma wrap_writev_tab_ok:
  assumes "wrap_writev s vec ret st = Inr (r, st')" and "tab_ok st"
  shows "tab_ok st'"
proof (cases "untraced s st")
  case False
  let ?st1 = "logs [Log (LOGBINii (SYS ''WRITEV_BEGIN'') 0 s (int (length vec)))] st"
  show ?thesis
  proof (cases "0 < to_int32 ret \<and> vf_dispatcher (vfd_tab st s) \<noteq> None")
    case True
    with assms(1) False obtain st2 where w: "writev_loop s vec (to_int32 ret) ?st1 = Inr st2"
      and s: "vfd_tab st' = vfd_tab st2" "px_junk st' = px_junk st2"
      by (auto simp: wrap_writev_def Let_def elim!: rbind_InrE)
    show ?thesis by (rule tab_ok_same [OF writev_loop_tab_ok [OF w logs_ok [OF assms(2)]] s])
  next
    case none: False
    show ?thesis by (rule tab_ok_same [OF assms(2)]) (use none False assms(1) in \<open>auto simp: wrap_writev_def Let_def\<close>)
  qed
qed (use assms in \<open>simp add: wrap_writev_def\<close>)

lemma connect_event_tab_ok:
  assumes "connect_event s r peer local st = Inr st'" and "tab_ok st" and "idle (vfd_tab st s)"
  shows "tab_ok st'"
proof -
  let ?st1 = "upd_vfd s (\<lambda>v. v\<lparr>in_prog := False\<rparr>) st"
  have i: "idle (vfd_tab ?st1 s)" using assms(3) by (simp add: idle_def)
  have "tab_ok ?st1"
    by (rule tab_ok_one [OF assms(2), of s], simp_all, rule idle_entry_ok) (use i tab_okD [OF assms(2)] in simp_all)
  then have "tab_ok (identified s found ?st1)" for found using identified_ok i by blast
  moreover have "idle (vfd_tab (identified s found ?st1) s)" for found using i by (simp add: idle_def)
  ultimately have "tab_ok (plugin_init s (identified s found ?st1))" for found using plugin_init_ok by blast
  then show ?thesis using assms(1) by (auto simp: connect_event_def elim!: rbind_InrE)
qed

lemma wrap_accept_tab_ok:
  assumes "wrap_accept new_fd peer local s st = Inr (r, st')" and "tab_ok st"
  shows "tab_ok st'"
proof -
  define st1 where "st1 = clear_readable_cache s (logs [Log (LOGBINi (SYS ''ACCEPT_BEGIN'') 0 s)] st)"
  have ok1: "tab_ok st1" by (rule tab_ok_same [OF assms(2)]) (simp_all add: st1_def)
  let ?st2 = "new_vfd VFD_SOCK new_fd st1"
  have ok2: "tab_ok ?st2" by (rule new_vfd_ok [OF ok1])
  have i: "idle (vfd_tab ?st2 new_fd)" by (simp add: idle_def new_vfd_def vfd_tab_init_one_def)
  then have "idle (vfd_tab (identified new_fd found ?st2) new_fd)" for found by (simp add: idle_def)
  then have ok3: "tab_ok (plugin_init new_fd (identified new_fd found ?st2))" for found
    using plugin_init_ok identified_ok [OF ok2 i] by blast
  show ?thesis
    using assms ok1 ok3 unfolding wrap_accept_def Let_def st1_def [symmetric]
    by (auto elim!: rbind_InrE split: if_splits)
qed

lemma small_calls_tab_ok:
  assumes "tab_ok st"
  shows "wrap_pipe r fds st = Inr (x, st') \<Longrightarrow> tab_ok st'"
    and "wrap_dup newfd oldfd st = Inr (x, st') \<Longrightarrow> tab_ok st'"
    and "wrap_dup2 r oldfd newfd st = Inr (x, st') \<Longrightarrow> tab_ok st'"
    and "wrap_fcntl r fd cmd st = Inr (x, st') \<Longrightarrow> tab_ok st'"
    and "wrap_socket s d t p st = Inr (x, st') \<Longrightarrow> tab_ok st'"
    and "wrap_open r pathname flags st = Inr (x, st') \<Longrightarrow> tab_ok st'"
    and "wrap_creat r pathname st = Inr (x, st') \<Longrightarrow> tab_ok st'"
    and "wrap_listen r s backlog st = Inr (x, st') \<Longrightarrow> tab_ok st'"
  using assms table_ok
  unfolding wrap_pipe_def wrap_dup_def wrap_dup2_def wrap_fcntl_def wrap_socket_def wrap_open_def wrap_creat_def wrap_listen_def
  by (auto elim!: rbind_InrE split: if_splits)

lemma wrap_bind_tab_ok:
  assumes "wrap_bind r s a st = Inr (x, st')" and "tab_ok st" and "r = 0 \<longrightarrow> idle (vfd_tab st s)"
  shows "tab_ok st'"
  using assms identified_ok [OF assms(2)] by (auto simp: wrap_bind_def elim!: rbind_InrE split: if_splits)

lemma wrap_connect_tab_ok:
  assumes "wrap_connect r e peer local s st = Inr (x, st')" and "tab_ok st" and "r \<noteq> - 1 \<longrightarrow> idle (vfd_tab st s)"
  shows "tab_ok st'"
proof (cases "untraced s st \<or> r = - 1")
  case True
  have "tab_ok (upd_vfd s (\<lambda>v. v\<lparr>in_prog := True\<rparr>) st1)" if ok: "tab_ok st1" for st1
  proof (rule tab_ok_one [OF ok, of s])
    show "entry_ok (upd_vfd s (\<lambda>v. v\<lparr>in_prog := True\<rparr>) st1) s"
      using tab_okD(4) [OF ok, of s] by (auto simp: entry_ok_def rd_ok_def wr_ok_def Let_def)
  qed simp_all
  then show ?thesis using True assms(1,2) by (auto simp: wrap_connect_def Let_def elim!: rbind_InrE split: if_splits)
next
  case False
  with assms(1) have c: "connect_event s r peer local (logs [Log (LOGBINi (SYS ''CONNECT_BEGIN'') 0 s)] st) = Inr st'"
    by (auto simp: wrap_connect_def Let_def elim!: rbind_InrE)
  show ?thesis by (rule connect_event_tab_ok [OF c]) (use assms(2,3) False in simp_all)
qed

lemma wrap_close_tab_ok:
  assumes "tab_ok st"
  shows "tab_ok (snd (wrap_close r s st))"
proof (cases "s = LOGD_FD \<or> untraced s st")
  case False
  let ?st' = "snd (wrap_close r s st)"
  have "data_wf (vf_data (vfd_tab ?st' s))"
    using tab_okD(3) [OF assms, of s] pp_shutdown_wf [of "vf_data (vfd_tab st s)"] False
    by (auto simp: wrap_close_def Let_def split: option.splits prod.splits) (metis fst_conv)
  then have "entry_ok ?st' s"
    using False tab_okD(1,2) [OF assms, of s]
    by (intro unplugged_entry_ok) (auto simp: wrap_close_def Let_def split: option.splits prod.splits)
  then show ?thesis
    using False by (intro tab_ok_one [OF assms, of s]) (auto simp: wrap_close_def Let_def split: option.splits prod.splits)
qed (use assms in \<open>auto simp: wrap_close_def\<close>)

lemma select_core_same: "select_core n want ans st = (r, sets, fd, st') \<Longrightarrow> vfd_tab st' = vfd_tab st \<and> px_junk st' = px_junk st"
  by (auto simp: select_core_def Let_def split: option.splits prod.splits if_splits)

lemma speak_select_tab_ok:
  assumes "speak_select n want ans peer local st = Inr (r, sets, fd, st')" and "tab_ok st"
    and "\<forall>fd. in_prog (vfd_tab st fd) \<longrightarrow> idle (vfd_tab st fd)"
  shows "tab_ok st'"
proof -
  obtain r1 sets1 fd1 st1 where c: "select_core n want ans st = (r1, sets1, fd1, st1)" by (metis prod_cases4)
  have same: "vfd_tab st1 = vfd_tab st" "px_junk st1 = px_junk st" using select_core_same [OF c] by simp_all
  note ok = tab_ok_same [OF assms(2) same]
  consider "st' = st1" | "in_prog (vfd_tab st1 fd1)" "connect_event fd1 1 peer local st1 = Inr st'"
    using assms(1) by (auto simp: speak_select_def c elim!: rbind_InrE split: if_splits)
  then show ?thesis using ok connect_event_tab_ok [of fd1 1 peer local st1 st'] assms(3) by (auto simp: same)
qed

lemma wrap_select_tab_ok:
  assumes "wrap_select n want ans peer local st = Inr (r, sets, st')" and "tab_ok st"
    and "\<forall>fd. in_prog (vfd_tab st fd) \<longrightarrow> idle (vfd_tab st fd)"
  shows "tab_ok st'"
  using assms speak_select_tab_ok [of n want ans peer local "logs [Log (LOGBIN0 (SYS ''SELECT_BEGIN'') 0)] st"]
  by (auto simp: wrap_select_def elim!: rbind_InrE split: if_splits)

lemma wrap_poll_tab_ok:
  assumes "wrap_poll ufds timeout ans real peer local st = Inr (r, sets, st')" and "tab_ok st"
    and "\<forall>fd. in_prog (vfd_tab st fd) \<longrightarrow> idle (vfd_tab st fd)"
  shows "tab_ok st'"
  using assms speak_select_tab_ok [of "poll_maxfd ufds + 1" "poll_sets ufds" "ans (poll_timeout timeout)" peer local
      "logs [Log (LOGBINii (SYS ''POLL_BEGIN'') 0 (int (length ufds)) timeout)] st"]
  by (auto simp: wrap_poll_def Let_def elim!: rbind_InrE split: if_splits)

lemma after_Inr: "after x = Inr st' \<longleftrightarrow> (\<exists>y. x = Inr (y, st'))" "after2 z = Inr st' \<longleftrightarrow> (\<exists>y w. z = Inr (y, w, st'))"
  by (auto simp: after_def after2_def elim!: rbind_InrE)

lemma reads_tab_ok:
  assumes "tab_ok st" and "len < 2 ^ 31"
  shows "wrap_read s len ans st = Inr (r, out, st') \<Longrightarrow> tab_ok st'"
    and "wrap_recv s len flags ans st = Inr (r, out, st') \<Longrightarrow> tab_ok st'"
    and "wrap_recvfrom s len flags ans st = Inr (r, out, st') \<Longrightarrow> tab_ok st'"
  using wrap_input_tab_ok [OF _ assms]
  by (auto simp: wrap_read_def wrap_recv_def wrap_recvfrom_def virtual_read_def virtual_recv_def virtual_recvfrom_def)

lemma writes_tab_ok:
  assumes "tab_ok st"
  shows "wrap_write s buf r st = Inr (x, st') \<Longrightarrow> tab_ok st'" and "wrap_send s buf flags r st = Inr (x, st') \<Longrightarrow> tab_ok st'"
    and "wrap_sendto s buf flags r st = Inr (x, st') \<Longrightarrow> tab_ok st'"
  using wrap_output_tab_ok [OF _ assms] by (auto simp: wrap_write_def wrap_send_def wrap_sendto_def)

lemma readv_tab_ok:
  assumes "wrap_readv s lens ans st = Inr (r, out, st')" and "tab_ok st" and "list_all (\<lambda>n. n < 2 ^ 31) lens"
  shows "tab_ok st'"
proof (cases "untraced s st")
  case True
  then show ?thesis using assms(1) tab_ok_same [OF assms(2)] by (auto simp: wrap_readv_def dest: real_read_same)
next
  case False
  then obtain n rest where "lens = n # rest" "wrap_read s n ans st = Inr (r, out, st')"
    using assms(1) by (cases lens) (auto simp: wrap_readv_def)
  then show ?thesis using reads_tab_ok(1) [OF assms(2)] assms(3) by auto
qed

lemma unseen_tab_ok: "tab_ok st \<Longrightarrow> tab_ok (snd (wrap_unseen name out_fd in_fd count r st))"
  by (rule tab_ok_same [of st]) (simp_all add: wrap_unseen_def)

lemma do_call_tab_ok:
  assumes "do_call c st = Inr st'" and "permitted c st" and "tab_ok st"
  shows "tab_ok st'"
  using assms(1,2)
  by (cases c; simp only: do_call.simps after_Inr permitted.simps sum.inject wrap_sendfile_def wrap_sendfile64_def; (elim exE)?; (hypsubst)?)
     (blast dest: small_calls_tab_ok [OF assms(3)] reads_tab_ok [OF assms(3)] writes_tab_ok [OF assms(3)] readv_tab_ok [OF _ assms(3)]
       intro: wrap_close_tab_ok [OF assms(3)] unseen_tab_ok [OF assms(3)] dest: wrap_writev_tab_ok [OF _ assms(3)] wrap_accept_tab_ok [OF _ assms(3)]
       wrap_bind_tab_ok [OF _ assms(3)] wrap_connect_tab_ok [OF _ assms(3)] wrap_select_tab_ok [OF _ assms(3)] wrap_poll_tab_ok [OF _ assms(3)])+


lemma proc0_ok: "tab_ok (proc0 fe junk)"
  by (auto simp: tab_ok_def proc0_def vfd0_def intro!: idle_entry_ok) (simp_all add: idle_def)

lemma sample_proc_ok: "tab_ok sample_proc"
  by (auto simp: tab_ok_def sample_proc_def proc0_def vfd0_def intro!: idle_entry_ok) (simp_all add: idle_def)

section \<open>Properties\<close>

text \<open>
  C14: the descriptor table stays well formed.  Whatever calls a traced program makes and whatever the
  kernel answers, as long as descriptors are bound and connected before data goes through them, every
  entry of the table keeps its buffers, and wherever a plugin that keeps the contract is in charge
  the read buffer is cut as the plugin asked for and the copy of written data is in bounds.
\<close>
theorem traced_table_invariant:
  assumes "call_steps st cs st'" and "tab_ok st"
  shows "tab_ok st'"
  using assms
proof (induction rule: call_steps.induct)
  case (none st)
  then show ?case .
next
  case (more st c st1 cs st2)
  from more.hyps(1) show ?case
    by (rule call_stepE) (use do_call_tab_ok more.IH more.prems in blast)
qed

theorem traced_table_invariant_witness:
  "\<exists>st'. call_steps sample_proc [Call_socket 7 2 1 0, Call_listen 0 7 5, Call_dup 8 5, Call_close 0 5] st' \<and> tab_ok st'"
proof -
  have "\<exists>st'. call_steps sample_proc [Call_socket 7 2 1 0, Call_listen 0 7 5, Call_dup 8 5, Call_close 0 5] st'"
    by (simp add: call_step.simps wrap_socket_def wrap_listen_def wrap_dup_def at_fd_def after_def untraced_def MAX_FDS_def
        new_vfd_def dup_vfd_def track_def sample_proc_def proc0_def upd_vfd_def logs_def)
  then show ?thesis using traced_table_invariant [OF _ sample_proc_ok] by blast
qed

end
