(* ===== verification/Vfd_Proc.thy ===== *)
theory Vfd_Proc
  imports Vfd_Inv
begin

text \<open>
  Processes, programs and threads in \<^verbatim>\<open>src/trace/vfd.c\<close>: the initialisation that every wrapper runs first
  (\<^verbatim>\<open>START_WRAP\<close> of \<^verbatim>\<open>src/trace/wrap.h\<close>), \<^verbatim>\<open>exit\<close>, \<^verbatim>\<open>fork\<close>, the \<^verbatim>\<open>exec\<close> family with the environment it
  hands on, the environment functions and \<^verbatim>\<open>pthread_create\<close>.

  The environment is the array of \<^verbatim>\<open>NAME=value\<close> strings.  \<^verbatim>\<open>TRACE_LIB\<close>, the path of the library, is
  defined by the build and a parameter.
\<close>

section \<open>The environment\<close>

definition has_name :: "string \<Rightarrow> string \<Rightarrow> bool" where
  "has_name n e \<longleftrightarrow> take (length n + 1) e = n @ ''=''"

definition real_getenv :: "string \<Rightarrow> string list \<Rightarrow> string option" where
  "real_getenv n env = (if n = [] then None else map_option (drop (length n + 1)) (find (has_name n) env))"

fun setenv :: "string \<Rightarrow> string \<Rightarrow> string list \<Rightarrow> string list" where
  "setenv n v [] = [n @ ''='' @ v]"
| "setenv n v (e # env) = (if has_name n e then (n @ ''='' @ v) # env else e # setenv n v env)"

text \<open>All entries of the name go; a name that is empty or has an equals sign is refused.\<close>

definition real_unsetenv :: "string \<Rightarrow> string list \<Rightarrow> int \<times> string list" where
  "real_unsetenv n env = (if n = [] \<or> CHR ''='' \<in> set n then (- 1, env) else (0, filter (\<lambda>e. \<not> has_name n e) env))"

definition plain_name :: "string \<Rightarrow> bool" where
  "plain_name n \<longleftrightarrow> n \<noteq> [] \<and> CHR ''='' \<notin> set n"

lemma has_name_entry [simp]: "has_name n (n @ CHR ''='' # v)"
  by (simp add: has_name_def)

lemma has_nameD: "has_name n e \<Longrightarrow> CHR ''='' \<notin> set n \<Longrightarrow> takeWhile (\<lambda>c. c \<noteq> CHR ''='') e = n"
proof -
  assume h: "has_name n e" and n: "CHR ''='' \<notin> set n"
  obtain v where e: "e = n @ CHR ''='' # v" using h append_take_drop_id [of "length n + 1" e] by (metis append.assoc append_Cons append_Nil has_name_def)
  show ?thesis using n by (simp add: e takeWhile_tail) (metis (mono_tags, lifting) takeWhile_eq_all_conv)
qed

lemma has_name_other: "plain_name n \<Longrightarrow> plain_name m \<Longrightarrow> n \<noteq> m \<Longrightarrow> has_name n e \<Longrightarrow> \<not> has_name m e"
  using has_nameD by (auto simp: plain_name_def)

lemma getenv_Cons: "real_getenv n ((m @ CHR ''='' # v) # env) = (if n = m \<and> n \<noteq> [] then Some v else real_getenv n env)"
  if "plain_name n" "plain_name m"
  using that has_name_other [of m n "m @ CHR ''='' # v"] by (auto simp: real_getenv_def)

lemma getenv_setenv: "real_getenv n (setenv m v env) = (if n = m then Some v else real_getenv n env)"
  if "plain_name n" "plain_name m"
  using that has_name_other [of m n] has_name_other [of m n "m @ CHR ''='' # v"]
  by (induction env) (auto simp: real_getenv_def plain_name_def)

lemma getenv_unsetenv: "real_getenv n (snd (real_unsetenv m env)) = (if n = m then None else real_getenv n env)"
  if "plain_name n" "plain_name m"
  using that has_name_other [of m n]
  by (induction env) (auto simp: real_unsetenv_def real_getenv_def plain_name_def)

section \<open>State\<close>

text \<open>
  The globals of the process in \<open>tp_st\<close>, what the kernel and the C library say of it, the
  context of the running thread (\<^verbatim>\<open>get_pid\<close> and \<^verbatim>\<open>get_tid\<close>), what was written to the page fault
  relay, where the log was connected to, and how often \<^verbatim>\<open>vfd_shutdown\<close> is registered.
\<close>

record tproc =
  tp_st :: proc
  tp_env :: "string list"
  tp_getpid :: int
  tp_self :: "64 word"
  mypid :: int
  tp_logfd :: int
  prog_name :: string
  tp_ctx :: "(int \<times> 64 word) option"
  tp_relay :: "(bool \<times> string) list"
  tp_conn :: "(string \<times> nat) list"
  tp_atexit :: nat

text \<open>A program image that has just been loaded.\<close>

definition fresh_image :: "serv_env \<Rightarrow> pp_junk \<Rightarrow> string list \<Rightarrow> int \<Rightarrow> 64 word \<Rightarrow> tproc" where
  "fresh_image fe junk env pid self =
     \<lparr> tp_st = proc0 fe junk, tp_env = env, tp_getpid = pid, tp_self = self, mypid = 0, tp_logfd = 0, prog_name = ''_'',
       tp_ctx = None, tp_relay = [], tp_conn = [], tp_atexit = 0 \<rparr>"

text \<open>The answers of the kernel to the system calls of an initialisation.\<close>

record kernel =
  k_socket :: int
  k_connect :: int
  k_dup2 :: int
  k_relay_open :: int
  k_relay_write :: int

definition acts :: "logact list \<Rightarrow> tproc \<Rightarrow> tproc" where
  "acts l st = st\<lparr>tp_st := logs l (tp_st st)\<rparr>"

definition get_tid :: "tproc \<Rightarrow> 64 word result" where
  "get_tid st = (case tp_ctx st of None \<Rightarrow> Inl NullDeref | Some (pid, tid) \<Rightarrow> Inr tid)"

definition get_pid :: "tproc \<Rightarrow> int result" where
  "get_pid st = (case tp_ctx st of None \<Rightarrow> Inl NullDeref | Some (pid, tid) \<Rightarrow> Inr pid)"

definition new_ctx :: "tproc \<Rightarrow> tproc" where
  "new_ctx st = acts [Alloc (mypid st) (tp_logfd st)] (st\<lparr>tp_ctx := Some (mypid st, tp_self st)\<rparr>)"

section \<open>Initialisation\<close>

definition pfdura :: "bool \<Rightarrow> int \<Rightarrow> kernel \<Rightarrow> tproc \<Rightarrow> tproc result" where
  "pfdura on pid k st =
     (if k_relay_open k < 0 then Inr st
      else if k_relay_write k < 0 then Inl (Exit 1)
      else Inr (st\<lparr>tp_relay := tp_relay st @ [(on, show_int pid)]\<rparr>))"

text \<open>The address of the log daemon; \<^verbatim>\<open>htons\<close> keeps sixteen bits of the port.\<close>

definition logd_addr :: "string list \<Rightarrow> string \<times> nat" where
  "logd_addr env =
     (case real_getenv ''LIBBTRACE_HOST'' env of None \<Rightarrow> ''127.0.0.1'' | Some h \<Rightarrow> h,
      nat ((case real_getenv ''LIBBTRACE_PORT'' env of None \<Rightarrow> 7070 | Some p \<Rightarrow> atoi p) mod 2 ^ 16))"

definition logd_init :: "kernel \<Rightarrow> tproc \<Rightarrow> tproc result" where
  "logd_init k st =
     rbind (if bb_disable_log (tp_st st) \<or> bb_disable_all (tp_st st) then Inr (st\<lparr>tp_logfd := 79\<rparr>)
            else if k_socket k < 0 then Inl (Exit 1)
            else if k_connect k < 0 then Inl (Exit 1)
            else Inr (st\<lparr>tp_conn := tp_conn st @ [logd_addr (tp_env st)], tp_logfd := k_dup2 k\<rparr>))
       (\<lambda>st1. at_fd (tp_logfd st1)
          (Inr (new_ctx (st1\<lparr>tp_st := (tp_st st1)\<lparr>tracked := tracked (tp_st st1) - {tp_logfd st1}\<rparr>\<rparr>))))"

definition vfd_tab_init :: "proc \<Rightarrow> proc" where
  "vfd_tab_init st = st\<lparr>tracked := {0, 1, 2}, vsel_data := vsel0\<rparr>"

definition fork_init :: "kernel \<Rightarrow> tproc \<Rightarrow> tproc result" where
  "fork_init k st =
     (let st1 = st\<lparr>mypid := tp_getpid st\<rparr> in rbind (pfdura True (mypid st1) k st1) (\<lambda>st2. Inr (new_ctx st2)))"

definition vfd_shutdown :: "tproc \<Rightarrow> tproc" where
  "vfd_shutdown st = (if bb_disable_all (tp_st st) then st else acts [Log (LOGBIN0 (SYS ''SHUTDOWN'') 0), Flush] st)"

text \<open>The last part of \<^verbatim>\<open>vfd_init\<close>: what an \<^verbatim>\<open>exec\<close> has left in the environment.\<close>

definition exec_arrival :: "tproc \<Rightarrow> tproc" where
  "exec_arrival st =
     (let st1 = (case real_getenv ''BB_EXEC_PTID'' (tp_env st) of
                   None \<Rightarrow> st
                 | Some ept \<Rightarrow> acts [Log (LOGBINli (SYS ''EXEC_CHILD'') 0 (strtoull ept) (mypid st))]
                                 (st\<lparr>tp_env := snd (real_unsetenv ''BB_EXEC_PTID'' (tp_env st))\<rparr>))
      in case real_getenv ''BB_EXEC_PATH'' (tp_env st1) of
           None \<Rightarrow> st1
         | Some path \<Rightarrow>
             st1\<lparr>tp_st := identified 0 (pp_id_exec (bb_disable_pp (tp_st st1)) path (px_serv (tp_st st1))) (tp_st st1),
                 tp_env := snd (real_unsetenv ''BB_EXEC_PATH'' (tp_env st1))\<rparr>)"

definition read_settings :: "tproc \<Rightarrow> tproc" where
  "read_settings st =
     (let env = tp_env st; v = tp_st st in
      st\<lparr>prog_name := (case real_getenv ''TRACE_FN'' env of None \<Rightarrow> ''__'' | Some fn \<Rightarrow> fn),
         tp_st := v\<lparr>debug_events := debug_events v \<or> real_getenv ''DEBUG_EVENTS'' env \<noteq> None \<or> real_getenv ''DEBUG_EV'' env \<noteq> None,
                    bb_disable_pp := bb_disable_pp v \<or> real_getenv ''BB_DISABLE_PP'' env \<noteq> None\<rparr>\<rparr>)"

text \<open>The two parts of \<^verbatim>\<open>vfd_init\<close>, before and after \<^verbatim>\<open>wrap_init\<close>, which finds everything here; \<open>Vfd_Exit\<close> has it with what it may miss.\<close>

definition vfd_init_0 :: "tproc \<Rightarrow> tproc" where
  "vfd_init_0 st =
     (let v = tp_st st
      in st\<lparr>tp_st := v\<lparr>bb_disable_all := bb_disable_all v \<or> real_getenv ''BB_DISABLE_ALL'' (tp_env st) \<noteq> None\<rparr>,
            mypid := tp_getpid st, tp_atexit := Suc (tp_atexit st)\<rparr>)"

definition vfd_init_a :: "kernel \<Rightarrow> tproc \<Rightarrow> tproc result" where
  "vfd_init_a k st =
     rbind (logd_init k st) (\<lambda>st2.
     rbind (fork_init k st2) (\<lambda>st3.
       Inr (exec_arrival (read_settings (st3\<lparr>tp_st := (vfd_tab_init (tp_st st3))\<lparr>first_init := True\<rparr>\<rparr>)))))"

definition vfd_init :: "kernel \<Rightarrow> tproc \<Rightarrow> tproc result" where
  "vfd_init k st = vfd_init_a k (vfd_init_0 st)"

definition start_wrap :: "kernel \<Rightarrow> tproc \<Rightarrow> tproc result" where
  "start_wrap k st = (if first_init (tp_st st) then Inr st else vfd_init k st)"

section \<open>Exit and fork\<close>

text \<open>\<^verbatim>\<open>real_exit\<close> runs the registered handlers.\<close>

definition real_exit :: "tproc \<Rightarrow> tproc" where
  "real_exit st = (vfd_shutdown ^^ tp_atexit st) st"

definition flush_log :: "tproc \<Rightarrow> tproc" where
  "flush_log st = (if bb_disable_all (tp_st st) then st else acts [Flush] st)"

definition wrap_exit :: "int \<Rightarrow> kernel \<Rightarrow> tproc \<Rightarrow> (int \<times> tproc) result" where
  "wrap_exit status k st =
     rbind (start_wrap k st) (\<lambda>st1.
     rbind (pfdura False (tp_getpid st1) k st1) (\<lambda>st2.
       let st3 = (if debug_events (tp_st st2) then acts [Log (LOGBIN0 (SYS ''EXIT'') 0)] st2 else st2)
       in Inr (status, real_exit (flush_log st3))))"

definition wrap_abort :: "kernel \<Rightarrow> tproc \<Rightarrow> tproc result" where
  "wrap_abort k st = rbind (start_wrap k st) (\<lambda>st1. Inr (flush_log st1))"

text \<open>
  \<open>r\<close> is what \<^verbatim>\<open>real_fork\<close> returns and \<open>child\<close> the process number of the child: with 0 the state
  that follows is the child's.
\<close>

definition wrap_fork :: "int \<Rightarrow> int \<Rightarrow> kernel \<Rightarrow> tproc \<Rightarrow> (int \<times> tproc) result" where
  "wrap_fork r child k st =
     rbind (start_wrap k st) (\<lambda>st1.
       let on = \<not> bb_disable_all (tp_st st1);
           st2 = flush_log (if debug_events (tp_st st1) \<and> on then acts [Log (LOGBIN0 (SYS ''FORK_BEGIN'') 0)] st1 else st1)
       in rbind (get_tid st2) (\<lambda>forker_tid.
          rbind (get_pid st2) (\<lambda>forker_pid.
            if r \<noteq> 0
            then Inr (r, if debug_events (tp_st st2) \<and> on then acts [Log (LOGBIN0 (SYS ''FORK'') r)] st2 else st2)
            else rbind (fork_init k (st2\<lparr>tp_getpid := child\<rparr>)) (\<lambda>st3.
                   Inr (r, if on then acts [Log (LOGBINli (SYS ''FORK'') r forker_tid forker_pid)] st3 else st3)))))"

section \<open>exec\<close>

definition basename :: "string \<Rightarrow> string" where
  "basename path = rev (takeWhile (\<lambda>c. c \<noteq> CHR ''/'') (rev path))"

definition lib_path :: "string \<Rightarrow> string list \<Rightarrow> string" where
  "lib_path trace_lib env = (case real_getenv ''LIBBTRACE_PATH'' env of None \<Rightarrow> trace_lib | Some p \<Rightarrow> p)"

definition carry_flags :: "proc \<Rightarrow> string list \<Rightarrow> string list" where
  "carry_flags v env =
     (let env1 = (if bb_disable_pp v then setenv ''BB_DISABLE_PP'' ''yes'' env else env);
          env2 = (if bb_disable_log v then setenv ''BB_DISABLE_LOG'' ''yes'' env1 else env1)
      in if bb_disable_all v then setenv ''BB_DISABLE_ALL'' ''yes'' env2 else env2)"

definition setenv_carry :: "string \<Rightarrow> string \<Rightarrow> tproc \<Rightarrow> tproc result" where
  "setenv_carry trace_lib path st =
     rbind (get_tid st) (\<lambda>tid.
       let env = tp_env st;
           env1 = setenv ''BB_EXEC_PTID'' (show_nat (unat tid)) env;
           env2 = setenv ''BB_EXEC_PATH'' path env1;
           env3 = setenv ''TRACE_FN'' (basename path) env2;
           env4 = setenv ''LD_PRELOAD'' (lib_path trace_lib env) env3
       in Inr (st\<lparr>tp_env := carry_flags (tp_st st) env4\<rparr>))"

text \<open>The program that is asked for: whether the path is searched, its arguments and environment.\<close>

datatype image = Image bool string "string list" "string list"

text \<open>
  \<^verbatim>\<open>execve\<close> puts its own entries in front of the caller's environment, each through a local
  array of 1024 characters.  \<^verbatim>\<open>TRACE_FN\<close> is formatted, but the array entry made for it is \<^verbatim>\<open>ldp\<close> again.
\<close>

definition wrap_execve :: "string \<Rightarrow> string \<Rightarrow> string list \<Rightarrow> string list \<Rightarrow> kernel \<Rightarrow> tproc \<Rightarrow> (image \<times> tproc) result" where
  "wrap_execve trace_lib filename argv envp k st =
     rbind (start_wrap k st) (\<lambda>st1.
     rbind (get_tid st1) (\<lambda>tid.
       let v = tp_st st1;
           ldp = ''LD_PRELOAD='' @ lib_path trace_lib (tp_env st1);
           pn = ''TRACE_FN='' @ basename filename;
           ept = ''BB_EXEC_PTID='' @ show_nat (unat tid);
           pa = ''BB_EXEC_PATH='' @ filename;
           mod_envp = [ldp, ldp, ept, pa] @ (if bb_disable_pp v then [''BB_DISABLE_PP=yes''] else []) @
                      (if bb_disable_all v then [''BB_DISABLE_ALL=yes''] else []) @ envp
       in if 1024 \<le> length ldp \<or> 1024 \<le> length pn \<or> 1024 \<le> length pa then Inl OutOfBounds
          else Inr (Image False filename argv mod_envp,
                    flush_log (acts [Log (LOGBINis (SYS ''EXEC'') 0 (int (length mod_envp)) filename)] st1))))"

text \<open>The other calls go through \<^verbatim>\<open>setenv_carry\<close>; the caller's environment of \<^verbatim>\<open>execle\<close> is not used.\<close>

definition wrap_exec :: "string \<Rightarrow> bool \<Rightarrow> string \<Rightarrow> string \<Rightarrow> string list \<Rightarrow> kernel \<Rightarrow> tproc \<Rightarrow> (image \<times> tproc) result" where
  "wrap_exec name search trace_lib path argv k st =
     rbind (start_wrap k st) (\<lambda>st1.
     rbind (setenv_carry trace_lib path st1) (\<lambda>st2.
       let st3 = (if debug_events (tp_st st2) then acts [Log (LOGBINs (SYS name) 0 path)] st2 else st2)
       in Inr (Image search path argv (tp_env st3), flush_log st3)))"

definition wrap_execv :: "string \<Rightarrow> string \<Rightarrow> string list \<Rightarrow> kernel \<Rightarrow> tproc \<Rightarrow> (image \<times> tproc) result" where
  "wrap_execv = wrap_exec ''EXECV'' False"

definition wrap_execvp :: "string \<Rightarrow> string \<Rightarrow> string list \<Rightarrow> kernel \<Rightarrow> tproc \<Rightarrow> (image \<times> tproc) result" where
  "wrap_execvp = wrap_exec ''EXECVP'' True"

text \<open>
  \<^verbatim>\<open>ARG2ARGV\<close>: the arguments up to the null pointer, copied into a local array that is replaced by
  a larger one when it is full.  \<open>argv\<close> is the array in use, \<open>va\<close> the arguments not fetched yet,
  \<open>oks\<close> whether the next calls of \<^verbatim>\<open>realloc\<close> succeed, \<open>junk\<close> what fresh memory holds.  The
  result is \<open>None\<close> when the caller returns -1.
\<close>

definition INITIAL_ARGV_MAX :: nat where "INITIAL_ARGV_MAX = 1024"

definition grow_argv :: "string option \<Rightarrow> bool list \<Rightarrow> string option list \<Rightarrow> nat \<Rightarrow> (string option list \<times> bool list) option result" where
  "grow_argv junk oks argv i =
     (if i = length argv
      then case oks of
             [] \<Rightarrow> Inl Blocked
           | False # _ \<Rightarrow> Inr None
           | True # oks' \<Rightarrow> Inr (Some (argv @ replicate (length argv) junk, oks'))
      else Inr (Some (argv, oks)))"

fun arg2argv_loop :: "string option \<Rightarrow> bool list \<Rightarrow> string option list \<Rightarrow> nat \<Rightarrow> string option list \<Rightarrow> string option list option result" where
  "arg2argv_loop junk oks argv i va =
     (if length argv \<le> i then Inl OutOfBounds
      else if argv ! i = None then Inr (Some (take (i + 1) argv))
      else case grow_argv junk oks argv (i + 1) of
        Inl e \<Rightarrow> Inl e
      | Inr None \<Rightarrow> Inr None
      | Inr (Some (argv1, oks1)) \<Rightarrow>
         (case va of
            [] \<Rightarrow> Inl OutOfBounds
          | a # va' \<Rightarrow> arg2argv_loop junk oks1 (argv1[i + 1 := a]) (i + 1) va'))"

declare arg2argv_loop.simps [simp del]

definition arg2argv :: "string option \<Rightarrow> bool list \<Rightarrow> string option list \<Rightarrow> string option list option result" where
  "arg2argv junk oks args =
     (case args of
        [] \<Rightarrow> Inl OutOfBounds
      | a # va \<Rightarrow> arg2argv_loop junk oks ((replicate INITIAL_ARGV_MAX junk)[0 := a]) 0 va)"

definition wrap_execlist ::
  "string \<Rightarrow> bool \<Rightarrow> string \<Rightarrow> string \<Rightarrow> string option \<Rightarrow> bool list \<Rightarrow> string option list \<Rightarrow> kernel \<Rightarrow> tproc \<Rightarrow> (image option \<times> tproc) result" where
  "wrap_execlist name search trace_lib path junk oks args k st =
     rbind (start_wrap k st) (\<lambda>st1.
     rbind (arg2argv junk oks args) (\<lambda>r.
       case r of
         None \<Rightarrow> Inr (None, st1)
       | Some argv \<Rightarrow>
           rbind (wrap_exec name search trace_lib path (map the (butlast argv)) k st1) (\<lambda>(im, st2). Inr (Some im, st2))))"

definition wrap_execl ::
  "string \<Rightarrow> string \<Rightarrow> string option \<Rightarrow> bool list \<Rightarrow> string option list \<Rightarrow> kernel \<Rightarrow> tproc \<Rightarrow> (image option \<times> tproc) result" where
  "wrap_execl = wrap_execlist ''EXECL'' False"

definition wrap_execlp ::
  "string \<Rightarrow> string \<Rightarrow> string option \<Rightarrow> bool list \<Rightarrow> string option list \<Rightarrow> kernel \<Rightarrow> tproc \<Rightarrow> (image option \<times> tproc) result" where
  "wrap_execlp = wrap_execlist ''EXECLP'' True"

definition wrap_execle ::
  "string \<Rightarrow> string \<Rightarrow> string option \<Rightarrow> bool list \<Rightarrow> string option list \<Rightarrow> kernel \<Rightarrow> tproc \<Rightarrow> (image option \<times> tproc) result" where
  "wrap_execle = wrap_execlist ''EXECLE'' False"

section \<open>Environment functions\<close>

definition wrap_getenv :: "string \<Rightarrow> kernel \<Rightarrow> tproc \<Rightarrow> (string option \<times> tproc) result" where
  "wrap_getenv name k st =
     rbind (start_wrap k st) (\<lambda>st1.
       let r = real_getenv name (tp_env st1);
           tmp = snprintf 1024 (name @ ''='' @ (case r of None \<Rightarrow> ''(undef)'' | Some v \<Rightarrow> v))
       in Inr (r, if \<not> bb_disable_all (tp_st st1) \<and> debug_events (tp_st st1) then acts [Log (LOGBINs (SYS ''GETENV'') 0 tmp)] st1 else st1))"

definition wrap_clearenv :: "string \<Rightarrow> kernel \<Rightarrow> tproc \<Rightarrow> (int \<times> tproc) result" where
  "wrap_clearenv trace_lib k st =
     rbind (start_wrap k st) (\<lambda>st1.
       let st2 = st1\<lparr>tp_env := carry_flags (tp_st st1) (setenv ''LD_PRELOAD'' (lib_path trace_lib (tp_env st1)) [])\<rparr>
       in Inr (0, if debug_events (tp_st st2) then acts [Log (LOGBIN0 (SYS ''CLEARENV'') 0)] st2 else st2))"

definition wrap_unsetenv :: "string \<Rightarrow> string \<Rightarrow> kernel \<Rightarrow> tproc \<Rightarrow> (int \<times> tproc) result" where
  "wrap_unsetenv trace_lib name k st =
     rbind (start_wrap k st) (\<lambda>st1.
       let (r, env) = real_unsetenv name (tp_env st1);
           env1 = setenv ''TRACE_FN'' (prog_name st1) (setenv ''LD_PRELOAD'' (lib_path trace_lib (tp_env st1)) env);
           st2 = st1\<lparr>tp_env := carry_flags (tp_st st1) env1\<rparr>
       in Inr (r, if debug_events (tp_st st2) then acts [Log (LOGBINs (SYS ''UNSETENV'') 0 name)] st2 else st2))"

section \<open>Threads\<close>

text \<open>
  The new thread runs the wrapper with a log of its own.  It connects to the log daemon again;
  the descriptor of the log is then that connection for all threads.
\<close>

definition start_routine_wrapper :: "kernel \<Rightarrow> ('a \<Rightarrow> tproc \<Rightarrow> ('b \<times> tproc) result) \<Rightarrow> 'a \<Rightarrow> tproc \<Rightarrow> ('b \<times> tproc) result" where
  "start_routine_wrapper k fn arg st =
     rbind (logd_init k st) (\<lambda>st1.
     rbind (fn arg (if bb_disable_all (tp_st st1) then st1 else acts [Log (LOGBIN0 (SYS ''PTH_CREATE_CHILD'') 0)] st1)) (\<lambda>(res, st2).
       Inr (res, flush_log st2)))"

text \<open>\<open>r\<close> and \<open>thread\<close> are what \<^verbatim>\<open>real_pthread_create\<close> returns and stores.\<close>

definition wrap_pthread_create :: "int \<Rightarrow> 64 word \<Rightarrow> kernel \<Rightarrow> tproc \<Rightarrow> (int \<times> tproc) result" where
  "wrap_pthread_create r thread k st =
     rbind (start_wrap k st) (\<lambda>st1.
       Inr (r, if bb_disable_all (tp_st st1) then st1
               else acts [Log (LOGBIN0 (SYS ''PTH_CREATE_BEGIN'') 0), Log (LOGBINli (SYS ''PTH_CREATE_PARENT'') 0 thread 0)] st1))"

text \<open>When tracing is off the wrapper calls itself; otherwise it ends the program.\<close>

partial_function (option) wrap_pthread_atfork :: "tproc \<Rightarrow> int result option" where
  "wrap_pthread_atfork st = (if bb_disable_all (tp_st st) then wrap_pthread_atfork st else Some (Inl (Exit 1)))"

lemma pthread_atfork_never_returns:
  assumes "bb_disable_all (tp_st st)"
  shows "wrap_pthread_atfork st = None"
proof -
  have "\<not> bb_disable_all (tp_st st)" if "wrap_pthread_atfork st = Some r" for r
    using that by (rule wrap_pthread_atfork.raw_induct [rotated]) (auto split: if_splits)
  then show ?thesis using assms by (cases "wrap_pthread_atfork st") auto
qed

section \<open>Argument lists\<close>

lemma grow_argv_ok:
  assumes "i \<le> length argv" and "n \<le> length argv * 2 ^ length oks" and "i < n" and "\<forall>b \<in> set oks. b"
  obtains more oks1 where "grow_argv junk oks argv i = Inr (Some (argv @ more, oks1))" and "i < length (argv @ more)"
    and "n \<le> length (argv @ more) * 2 ^ length oks1" and "\<forall>b \<in> set oks1. b"
proof (cases "i = length argv")
  case False
  then show thesis using assms that [of "[]" oks] by (simp add: grow_argv_def)
next
  case True
  with assms(2,3) obtain b oks' where o: "oks = b # oks'" by (cases oks) auto
  have "0 < length argv" using assms(2,3) by (cases "length argv = 0") simp_all
  then show thesis
    using that [of "replicate (length argv) junk" oks'] assms(2,4) True o by (auto simp: grow_argv_def algebra_simps)
qed

lemma take_Suc_update: "n < length xs \<Longrightarrow> take (Suc n) (xs[n := a]) = take n xs @ [a]"
  by (simp add: take_Suc_conv_app_nth)

lemma arg2argv_loop_ok:
  assumes "i < length argv" and "take (i + 1) argv = take (i + 1) args" and "va = drop (i + 1) args"
    and "args = map Some xs @ [None]" and "i < length args" and "length args \<le> length argv * 2 ^ length oks" and "\<forall>b \<in> set oks. b"
  shows "arg2argv_loop junk oks argv i va = Inr (Some args)"
  using assms
proof (induction va arbitrary: oks argv i)
  case Nil
  then have i: "i = length xs" by (auto simp: Suc_diff_le)
  have "argv ! i = args ! i" using Nil.prems(1,2,5) by (metis lessI nth_take Suc_eq_plus1)
  then have "argv ! i = None" using Nil.prems(4) i by (simp add: nth_append)
  then show ?case using Nil.prems i by (subst arg2argv_loop.simps) simp
next
  case (Cons a va)
  have lt: "i + 1 < length args" using Cons.prems(3) by (metis drop_eq_Nil list.distinct(1) not_le)
  have "argv ! i = args ! i" using Cons.prems(1,2,5) by (metis lessI nth_take Suc_eq_plus1)
  then have some: "argv ! i \<noteq> None" using Cons.prems(4) lt by (simp add: nth_append)
  have "a # va = args ! (i + 1) # drop (i + 2) args" using Cons.prems(3) lt Cons_nth_drop_Suc [of "i + 1" args] by simp
  then have a: "a = args ! (i + 1)" "va = drop (i + 2) args" by simp_all
  have "i + 1 \<le> length argv" using Cons.prems(1) by simp
  from grow_argv_ok [OF this Cons.prems(6) lt Cons.prems(7)] obtain more oks1 where
    g: "grow_argv junk oks argv (i + 1) = Inr (Some (argv @ more, oks1))" "i + 1 < length (argv @ more)"
      "length args \<le> length (argv @ more) * 2 ^ length oks1" "\<forall>b \<in> set oks1. b" by blast
  let ?argv = "(argv @ more)[i + 1 := a]"
  have "take (i + 2) ?argv = take (i + 1) argv @ [a]"
    using take_Suc_update [OF g(2), of a] Cons.prems(1) by simp
  also have "\<dots> = take (i + 2) args" using lt a(1) Cons.prems(2) take_Suc_conv_app_nth [of "i + 1" args] by simp
  finally have t: "take (i + 2) ?argv = take (i + 2) args" .
  have "arg2argv_loop junk oks1 ?argv (i + 1) va = Inr (Some args)"
    by (rule Cons.IH) (use g a lt Cons.prems(4) t in simp_all)
  then show ?case using some g(1) Cons.prems(1) by (subst arg2argv_loop.simps) auto
qed

section \<open>What reaches the log\<close>

text \<open>
  The log calls of a thread that a flush has sent and those that wait in its buffer.  A new context
  starts with an empty buffer: what waited in the old one is gone.
\<close>

fun log_fate :: "logcall list \<times> logcall list \<Rightarrow> logact list \<Rightarrow> logcall list \<times> logcall list" where
  "log_fate f [] = f"
| "log_fate (out, buf) (Log c # l) = log_fate (out, buf @ [c]) l"
| "log_fate (out, buf) (Flush # l) = log_fate (out @ buf, []) l"
| "log_fate (out, buf) (Alloc _ _ # l) = log_fate (out, []) l"

definition log_of :: "tproc \<Rightarrow> logcall list \<times> logcall list" where
  "log_of st = log_fate ([], []) (px_log (tp_st st))"

lemma log_fate_append [simp]: "log_fate f (a @ b) = log_fate (log_fate f a) b"
  by (induction f a rule: log_fate.induct) auto

lemma acts_same [simp]:
  "tp_env (acts l st) = tp_env st" "tp_getpid (acts l st) = tp_getpid st" "mypid (acts l st) = mypid st" "tp_ctx (acts l st) = tp_ctx st"
  "tp_logfd (acts l st) = tp_logfd st" "tp_self (acts l st) = tp_self st" "prog_name (acts l st) = prog_name st"
  "tp_relay (acts l st) = tp_relay st" "tp_st (acts l st) = logs l (tp_st st)" "tp_atexit (acts l st) = tp_atexit st"
  by (simp_all add: acts_def)

lemma log_of_acts [simp]: "log_of (acts l st) = log_fate (log_of st) l"
  by (simp add: log_of_def)


lemma flush_log_same [simp]:
  "tp_env (flush_log st) = tp_env st" "tp_getpid (flush_log st) = tp_getpid st" "tp_ctx (flush_log st) = tp_ctx st"
  "bb_disable_all (tp_st (flush_log st)) = bb_disable_all (tp_st st)" "debug_events (tp_st (flush_log st)) = debug_events (tp_st st)"
  "tp_atexit (flush_log st) = tp_atexit st" "tp_logfd (flush_log st) = tp_logfd st" "tp_self (flush_log st) = tp_self st"
  by (simp_all add: flush_log_def)

lemma log_of_flush: "\<not> bb_disable_all (tp_st st) \<Longrightarrow> log_of (flush_log st) = (fst (log_of st) @ snd (log_of st), [])"
  by (cases "log_of st") (simp add: flush_log_def)

lemma log_of_update [simp]: "log_of (st\<lparr>tp_getpid := p\<rparr>) = log_of st" "log_of (st\<lparr>mypid := p\<rparr>) = log_of st"
  "log_of (st\<lparr>tp_relay := l\<rparr>) = log_of st" "log_of (st\<lparr>tp_ctx := c\<rparr>) = log_of st" "log_of (st\<lparr>tp_env := e\<rparr>) = log_of st"
  by (simp_all add: log_of_def)

text \<open>A kernel that connects the log and either has no relay file or takes what is written to it.\<close>

definition kernel_ok :: "kernel \<Rightarrow> bool" where
  "kernel_ok k \<longleftrightarrow> 0 \<le> k_socket k \<and> 0 \<le> k_connect k \<and> 0 \<le> k_dup2 k \<and> k_dup2 k < MAX_FDS \<and> (k_relay_open k < 0 \<or> 0 \<le> k_relay_write k)"

lemma pfdura_ok: "kernel_ok k \<Longrightarrow> \<exists>l. pfdura on pid k st = Inr (st\<lparr>tp_relay := l\<rparr>)"
  by (cases "k_relay_open k < 0") (auto simp: pfdura_def kernel_ok_def intro: exI [of _ "tp_relay st"])

lemma fork_init_ok:
  assumes "kernel_ok k"
  shows "\<exists>l. fork_init k st =
    Inr (acts [Alloc (tp_getpid st) (tp_logfd st)] (st\<lparr>mypid := tp_getpid st, tp_relay := l, tp_ctx := Some (tp_getpid st, tp_self st)\<rparr>))"
  using pfdura_ok [OF assms, of True "tp_getpid st" "st\<lparr>mypid := tp_getpid st\<rparr>"]
  by (auto simp: fork_init_def new_ctx_def)

lemma logd_init_ok:
  assumes "kernel_ok k"
  shows "\<exists>conn fd. logd_init k st = Inr (acts [Alloc (mypid st) fd]
    (st\<lparr>tp_conn := conn, tp_logfd := fd, tp_st := (tp_st st)\<lparr>tracked := tracked (tp_st st) - {fd}\<rparr>, tp_ctx := Some (mypid st, tp_self st)\<rparr>))"
proof (cases "bb_disable_log (tp_st st) \<or> bb_disable_all (tp_st st)")
  case True
  then show ?thesis by (intro exI [of _ "tp_conn st"] exI [of _ 79]) (simp add: logd_init_def at_fd_def MAX_FDS_def new_ctx_def)
next
  case False
  then show ?thesis using assms
    by (intro exI [of _ "tp_conn st @ [logd_addr (tp_env st)]"] exI [of _ "k_dup2 k"]) (simp add: logd_init_def at_fd_def new_ctx_def kernel_ok_def)
qed

lemma vfd_init_fresh:
  assumes "kernel_ok k"
  obtains st fd where "vfd_init k (fresh_image fe junk env pid self) = Inr (exec_arrival (read_settings st))"
    and "tp_env st = env" and "mypid st = pid" and "px_log (tp_st st) = [Alloc pid fd, Alloc pid fd]"
    and "bb_disable_all (tp_st st) \<longleftrightarrow> real_getenv ''BB_DISABLE_ALL'' env \<noteq> None" and "\<not> bb_disable_pp (tp_st st)"
    and "px_serv (tp_st st) = gs0" and "vfd_tab (tp_st st) = (\<lambda>_. vfd0)" and "px_junk (tp_st st) = junk"
    and "first_init (tp_st st)" and "tp_ctx st = Some (pid, self)" and "tp_atexit st = 1"
proof -
  let ?img = "fresh_image fe junk env pid self"
  let ?st1 = "?img\<lparr>tp_st := (tp_st ?img)\<lparr>bb_disable_all := real_getenv ''BB_DISABLE_ALL'' env \<noteq> None\<rparr>, mypid := pid, tp_atexit := 1\<rparr>"
  obtain conn fd where l: "logd_init k ?st1 = Inr (acts [Alloc (mypid ?st1) fd] (?st1\<lparr>tp_conn := conn, tp_logfd := fd,
      tp_st := (tp_st ?st1)\<lparr>tracked := tracked (tp_st ?st1) - {fd}\<rparr>, tp_ctx := Some (mypid ?st1, tp_self ?st1)\<rparr>))"
    (is "_ = Inr ?st2") using logd_init_ok [OF assms, of ?st1] by blast
  obtain rl where f: "fork_init k ?st2 = Inr (acts [Alloc (tp_getpid ?st2) (tp_logfd ?st2)]
    (?st2\<lparr>mypid := tp_getpid ?st2, tp_relay := rl, tp_ctx := Some (tp_getpid ?st2, tp_self ?st2)\<rparr>))" (is "_ = Inr ?st3")
    using fork_init_ok [OF assms, of ?st2] by blast
  let ?st4 = "?st3\<lparr>tp_st := (vfd_tab_init (tp_st ?st3))\<lparr>first_init := True\<rparr>\<rparr>"
  have eq: "vfd_init k ?img = rbind (logd_init k ?st1) (\<lambda>st2. rbind (fork_init k st2) (\<lambda>st3.
           Inr (exec_arrival (read_settings (st3\<lparr>tp_st := (vfd_tab_init (tp_st st3))\<lparr>first_init := True\<rparr>\<rparr>)))))"
    by (simp add: vfd_init_def vfd_init_0_def vfd_init_a_def fresh_image_def proc0_def)
  have "vfd_init k ?img = Inr (exec_arrival (read_settings ?st4))" unfolding eq l f rbind_Inr ..
  then show thesis
    by (rule that [where fd = fd]) (simp_all add: vfd_tab_init_def fresh_image_def proc0_def logs_def)
qed

section \<open>What an exec hands on\<close>

text \<open>The entries an environment must have for the new program to report its parent.\<close>

definition carries :: "64 word \<Rightarrow> string \<Rightarrow> string \<Rightarrow> proc \<Rightarrow> string list \<Rightarrow> bool" where
  "carries tid path lib v env \<longleftrightarrow>
     real_getenv ''BB_EXEC_PTID'' env = Some (show_nat (unat tid)) \<and> real_getenv ''BB_EXEC_PATH'' env = Some path \<and>
     real_getenv ''LD_PRELOAD'' env = Some lib \<and>
     (bb_disable_pp v \<longrightarrow> real_getenv ''BB_DISABLE_PP'' env \<noteq> None) \<and> (bb_disable_all v \<longrightarrow> real_getenv ''BB_DISABLE_ALL'' env \<noteq> None)"

lemma plain_names [simp]:
  "plain_name ''BB_EXEC_PTID''" "plain_name ''BB_EXEC_PATH''" "plain_name ''LD_PRELOAD''" "plain_name ''TRACE_FN''"
  "plain_name ''BB_DISABLE_PP''" "plain_name ''BB_DISABLE_LOG''" "plain_name ''BB_DISABLE_ALL''"
  by (simp_all add: plain_name_def)

lemma getenv_carry_flags:
  "n \<in> {''BB_EXEC_PTID'', ''BB_EXEC_PATH'', ''LD_PRELOAD'', ''TRACE_FN''} \<Longrightarrow> real_getenv n (carry_flags v env) = real_getenv n env"
  "bb_disable_pp v \<Longrightarrow> real_getenv ''BB_DISABLE_PP'' (carry_flags v env) = Some ''yes''"
  "bb_disable_all v \<Longrightarrow> real_getenv ''BB_DISABLE_ALL'' (carry_flags v env) = Some ''yes''"
  by (auto simp: carry_flags_def getenv_setenv Let_def)

lemma setenv_carry_carries:
  assumes "setenv_carry lib path st = Inr st'" and "tp_ctx st = Some (p, tid)"
  shows "carries tid path (lib_path lib (tp_env st)) (tp_st st) (tp_env st')" and "tp_st st' = tp_st st"
    and "real_getenv ''TRACE_FN'' (tp_env st') = Some (basename path)"
  using assms by (auto simp: setenv_carry_def get_tid_def carries_def getenv_carry_flags getenv_setenv Let_def)

lemma execve_carries:
  assumes "wrap_execve lib path argv envp k st = Inr (Image b f a env, st')" and "first_init (tp_st st)" and "tp_ctx st = Some (p, tid)"
  shows "carries tid path (lib_path lib (tp_env st)) (tp_st st) env"
    and "real_getenv ''TRACE_FN'' env = real_getenv ''TRACE_FN'' envp"
proof -
  have c: "real_getenv n ((''LD_PRELOAD='' @ v) # e) = (if n = ''LD_PRELOAD'' then Some v else real_getenv n e)"
    "real_getenv n ((''BB_EXEC_PTID='' @ v) # e) = (if n = ''BB_EXEC_PTID'' then Some v else real_getenv n e)"
    "real_getenv n ((''BB_EXEC_PATH='' @ v) # e) = (if n = ''BB_EXEC_PATH'' then Some v else real_getenv n e)"
    "real_getenv n (''BB_DISABLE_PP=yes'' # e) = (if n = ''BB_DISABLE_PP'' then Some ''yes'' else real_getenv n e)"
    "real_getenv n (''BB_DISABLE_ALL=yes'' # e) = (if n = ''BB_DISABLE_ALL'' then Some ''yes'' else real_getenv n e)"
    if "plain_name n" for n v e
    using getenv_Cons [OF that, of "''LD_PRELOAD''" v e] getenv_Cons [OF that, of "''BB_EXEC_PTID''" v e]
      getenv_Cons [OF that, of "''BB_EXEC_PATH''" v e] getenv_Cons [OF that, of "''BB_DISABLE_PP''" "''yes''" e]
      getenv_Cons [OF that, of "''BB_DISABLE_ALL''" "''yes''" e] that
    by (simp_all add: plain_name_def)
  have "\<exists>l1 l2. env = [''LD_PRELOAD='' @ lib_path lib (tp_env st), ''LD_PRELOAD='' @ lib_path lib (tp_env st),
      ''BB_EXEC_PTID='' @ show_nat (unat tid), ''BB_EXEC_PATH='' @ path] @ l1 @ l2 @ envp \<and>
      l1 = (if bb_disable_pp (tp_st st) then [''BB_DISABLE_PP=yes''] else []) \<and>
      l2 = (if bb_disable_all (tp_st st) then [''BB_DISABLE_ALL=yes''] else [])"
    using assms by (auto simp: wrap_execve_def start_wrap_def get_tid_def Let_def split: if_splits)
  then show "carries tid path (lib_path lib (tp_env st)) (tp_st st) env"
    and "real_getenv ''TRACE_FN'' env = real_getenv ''TRACE_FN'' envp"
    using c [simplified] by (auto simp: carries_def)
qed

lemma wrap_exec_carries:
  assumes "wrap_exec name search lib path argv k st = Inr (Image b f a env, st')" and "first_init (tp_st st)" and "tp_ctx st = Some (p, tid)"
  shows "carries tid path (lib_path lib (tp_env st)) (tp_st st) env" and "real_getenv ''TRACE_FN'' env = Some (basename path)"
proof -
  obtain st2 where c: "setenv_carry lib path st = Inr st2" and e: "env = tp_env st2"
    using assms(1,2) by (auto simp: wrap_exec_def start_wrap_def Let_def elim!: rbind_InrE)
  show "carries tid path (lib_path lib (tp_env st)) (tp_st st) env" "real_getenv ''TRACE_FN'' env = Some (basename path)"
    unfolding e using setenv_carry_carries [OF c assms(3)] by blast+
qed

lemma strtoull_tid: "strtoull (show_nat (unat (tid :: 64 word))) = tid"
proof -
  have "unat tid < 2 ^ 64" using unsigned_less [of tid, where ?'a = nat] by simp
  then show ?thesis by (simp add: strtoull_def scan_int_show_nat)
qed

text \<open>The program started with such an environment.\<close>

lemma arrival_reports:
  assumes "carries tid path lib v env" and "kernel_ok k"
  obtains c fd calls where "vfd_init k (fresh_image fe junk env pid self) = Inr c"
    and "px_log (tp_st c) = [Alloc pid fd, Alloc pid fd, Log (LOGBINli (SYS ''EXEC_CHILD'') 0 tid pid)] @ map Log calls"
    and "real_getenv ''LD_PRELOAD'' (tp_env c) = Some lib" and "real_getenv ''BB_EXEC_PTID'' (tp_env c) = None"
    and "real_getenv ''BB_EXEC_PATH'' (tp_env c) = None" and "first_init (tp_st c)" and "tp_ctx c = Some (pid, self)"
    and "bb_disable_pp v \<longrightarrow> bb_disable_pp (tp_st c)" and "bb_disable_all v \<longrightarrow> bb_disable_all (tp_st c)"
    and "prog_name c = (case real_getenv ''TRACE_FN'' env of None \<Rightarrow> ''__'' | Some fn \<Rightarrow> fn)"
proof -
  from vfd_init_fresh [OF assms(2), of fe junk env pid self] obtain st fd where
    i: "vfd_init k (fresh_image fe junk env pid self) = Inr (exec_arrival (read_settings st))"
      "tp_env st = env" "mypid st = pid" "px_log (tp_st st) = [Alloc pid fd, Alloc pid fd]"
      "bb_disable_all (tp_st st) \<longleftrightarrow> real_getenv ''BB_DISABLE_ALL'' env \<noteq> None" "first_init (tp_st st)" "tp_ctx st = Some (pid, self)" by metis
  let ?r = "read_settings st"
  have r: "tp_env ?r = env" "mypid ?r = pid" "px_log (tp_st ?r) = [Alloc pid fd, Alloc pid fd]" "first_init (tp_st ?r)" "tp_ctx ?r = Some (pid, self)"
    "bb_disable_pp v \<longrightarrow> bb_disable_pp (tp_st ?r)" "bb_disable_all v \<longrightarrow> bb_disable_all (tp_st ?r)"
    "prog_name ?r = (case real_getenv ''TRACE_FN'' env of None \<Rightarrow> ''__'' | Some fn \<Rightarrow> fn)"
    using i(2-7) assms(1) by (auto simp: read_settings_def carries_def Let_def)
  have e: "real_getenv ''BB_EXEC_PTID'' env = Some (show_nat (unat tid))" "real_getenv ''BB_EXEC_PATH'' env = Some path"
    "real_getenv ''LD_PRELOAD'' env = Some lib" using assms(1) by (simp_all add: carries_def)
  obtain d calls gs where p: "pp_id_exec (bb_disable_pp (tp_st ?r)) path (px_serv (tp_st ?r)) = (d, calls, gs)" by (metis prod_cases3)
  let ?st1 = "acts [Log (LOGBINli (SYS ''EXEC_CHILD'') 0 tid pid)] (?r\<lparr>tp_env := snd (real_unsetenv ''BB_EXEC_PTID'' env)\<rparr>)"
  have s1: "bb_disable_pp (tp_st ?st1) = bb_disable_pp (tp_st ?r)" "px_serv (tp_st ?st1) = px_serv (tp_st ?r)" by (simp_all add: logs_def)
  have a: "exec_arrival ?r = ?st1\<lparr>tp_st := identified 0 (d, calls, gs) (tp_st ?st1),
      tp_env := snd (real_unsetenv ''BB_EXEC_PATH'' (tp_env ?st1))\<rparr>"
    using p by (simp add: exec_arrival_def r(1,2) e strtoull_tid getenv_unsetenv s1 [simplified] Let_def)
  show thesis
    by (rule that [OF i(1), where calls = calls and fd = fd])
       (use r e in \<open>simp_all add: a getenv_unsetenv identified_def upd_vfd_def logs_def\<close>)
qed

section \<open>Properties\<close>

text \<open>
  C15: a program started with \<^verbatim>\<open>exec\<close> reports who started it.  Whichever call of the family a traced
  thread makes, the environment handed on makes the new program's initialisation succeed, log as its
  first entry the 64-bit thread number of the caller, keep the library preloaded, keep the
  switches that turn tracing off, and remove the two marks again.
\<close>
theorem exec_child_reports_parent:
  assumes "first_init (tp_st st)" and "tp_ctx st = Some (p, tid)" and "kernel_ok k'"
    and "wrap_execve lib path argv envp k st = Inr (Image b f a env, st') \<or>
         wrap_exec name search lib path argv k st = Inr (Image b f a env, st')"
  shows "\<exists>c fd calls. vfd_init k' (fresh_image fe junk env pid self) = Inr c \<and>
     px_log (tp_st c) = [Alloc pid fd, Alloc pid fd, Log (LOGBINli (SYS ''EXEC_CHILD'') 0 tid pid)] @ map Log calls \<and>
     real_getenv ''LD_PRELOAD'' (tp_env c) = Some (lib_path lib (tp_env st)) \<and>
     real_getenv ''BB_EXEC_PTID'' (tp_env c) = None \<and> real_getenv ''BB_EXEC_PATH'' (tp_env c) = None \<and>
     (bb_disable_pp (tp_st st) \<longrightarrow> bb_disable_pp (tp_st c)) \<and> (bb_disable_all (tp_st st) \<longrightarrow> bb_disable_all (tp_st c))"
proof -
  have "carries tid path (lib_path lib (tp_env st)) (tp_st st) env"
    using assms(4)
  proof
    assume w: "wrap_execve lib path argv envp k st = Inr (Image b f a env, st')"
    show ?thesis by (rule execve_carries(1) [OF w assms(1,2)])
  next
    assume w: "wrap_exec name search lib path argv k st = Inr (Image b f a env, st')"
    show ?thesis by (rule wrap_exec_carries(1) [OF w assms(1,2)])
  qed
  from arrival_reports [OF this assms(3), of fe junk pid self] show ?thesis by metis
qed

definition sample_kernel :: kernel where
  "sample_kernel = \<lparr> k_socket = 5, k_connect = 0, k_dup2 = 79, k_relay_open = - 1, k_relay_write = 0 \<rparr>"

definition sample_tproc :: tproc where
  "sample_tproc = (fresh_image (sample_files, None) junk0 [''HOME=/root''] 300 70001)\<lparr>tp_st := sample_proc, mypid := 300, tp_logfd := 79,
     prog_name := ''httpd'', tp_ctx := Some (300, 70001), tp_atexit := 1\<rparr>"

lemma sample_kernel_ok: "kernel_ok sample_kernel"
  by (simp add: kernel_ok_def sample_kernel_def MAX_FDS_def)

lemma sample_tproc_ready: "first_init (tp_st sample_tproc)" "tp_ctx sample_tproc = Some (300, 70001)" "\<not> bb_disable_all (tp_st sample_tproc)"
  by (simp_all add: sample_tproc_def fresh_image_def sample_proc_def proc0_def)

theorem exec_child_reports_parent_witness:
  "\<exists>b f a env st'. wrap_execve ''/usr/lib/libbtrace.so'' ''/bin/date'' [''date''] [''TZ=UTC''] sample_kernel sample_tproc = Inr (Image b f a env, st') \<and>
     (\<exists>c fd calls. vfd_init sample_kernel (fresh_image (sample_files, None) junk0 env 300 9) = Inr c \<and>
       px_log (tp_st c) = [Alloc 300 fd, Alloc 300 fd, Log (LOGBINli (SYS ''EXEC_CHILD'') 0 70001 300)] @ map Log calls)"
proof -
  have "\<exists>b f a env st'. wrap_execve ''/usr/lib/libbtrace.so'' ''/bin/date'' [''date''] [''TZ=UTC''] sample_kernel sample_tproc = Inr (Image b f a env, st')"
    using sample_tproc_ready
    by (auto simp: wrap_execve_def start_wrap_def get_tid_def lib_path_def basename_def real_getenv_def has_name_def sample_tproc_def fresh_image_def Let_def)

  then obtain b f a env st' where w: "wrap_execve ''/usr/lib/libbtrace.so'' ''/bin/date'' [''date''] [''TZ=UTC''] sample_kernel sample_tproc = Inr (Image b f a env, st')"
    by blast
  from exec_child_reports_parent [OF sample_tproc_ready(1,2) sample_kernel_ok disjI1 [OF w],
      where fe = "(sample_files, None)" and junk = junk0 and pid = 300 and self = 9] w
  show ?thesis by metis
qed

text \<open>
  C16: \<^verbatim>\<open>fork\<close> neither loses nor repeats log entries.  Everything the caller had logged is sent before
  the process is copied, so the child's context starts with an empty buffer; its
  first entry names the thread and process that forked it.
\<close>
theorem fork_splits_log:
  assumes "first_init (tp_st st)" and "\<not> bb_disable_all (tp_st st)" and "tp_ctx st = Some (pid, tid)" and "kernel_ok k"
    and "log_of st = (out0, buf0)"
  shows "\<exists>st'. wrap_fork r child k st = Inr (r, st') \<and>
     log_of st' =
       (out0 @ buf0 @ (if debug_events (tp_st st) then [LOGBIN0 (SYS ''FORK_BEGIN'') 0] else []),
        if r = 0 then [LOGBINli (SYS ''FORK'') 0 tid pid] else if debug_events (tp_st st) then [LOGBIN0 (SYS ''FORK'') r] else []) \<and>
     (r = 0 \<longrightarrow> tp_ctx st' = Some (child, tp_self st))"
proof -
  define st2 where "st2 = flush_log (if debug_events (tp_st st) then acts [Log (LOGBIN0 (SYS ''FORK_BEGIN'') 0)] st else st)"
  have s2: "tp_ctx st2 = Some (pid, tid)" "debug_events (tp_st st2) = debug_events (tp_st st)" "tp_self st2 = tp_self st"
    "log_of st2 = (out0 @ buf0 @ (if debug_events (tp_st st) then [LOGBIN0 (SYS ''FORK_BEGIN'') 0] else []), [])"
    using assms(2,3,5) by (auto simp: st2_def log_of_flush)
  have unf: "wrap_fork r child k st =
      (if r \<noteq> 0 then Inr (r, if debug_events (tp_st st) then acts [Log (LOGBIN0 (SYS ''FORK'') r)] st2 else st2)
       else rbind (fork_init k (st2\<lparr>tp_getpid := child\<rparr>)) (\<lambda>st3. Inr (r, acts [Log (LOGBINli (SYS ''FORK'') r tid pid)] st3)))"
    unfolding wrap_fork_def start_wrap_def Let_def using assms(1-3) s2(1,2)
    by (auto simp: get_tid_def get_pid_def st2_def)
  show ?thesis
  proof (cases "r = 0")
    case True
    from fork_init_ok [OF assms(4), of "st2\<lparr>tp_getpid := child\<rparr>"] obtain l where
      "fork_init k (st2\<lparr>tp_getpid := child\<rparr>) = Inr (acts [Alloc child (tp_logfd st2)]
        (st2\<lparr>tp_getpid := child, mypid := child, tp_relay := l, tp_ctx := Some (child, tp_self st2)\<rparr>))" by auto
    then show ?thesis unfolding unf using True s2 by simp
  next
    case False
    then show ?thesis unfolding unf using s2 by simp
  qed
qed

theorem fork_splits_log_witness:
  "\<exists>st'. wrap_fork 0 301 sample_kernel sample_tproc = Inr (0, st') \<and>
     log_of st' = ([], [LOGBINli (SYS ''FORK'') 0 70001 300]) \<and> tp_ctx st' = Some (301, 70001)"
  using fork_splits_log [OF sample_tproc_ready(1,3,2) sample_kernel_ok, of "[]" "[]" 0 301]
  by (simp add: log_of_def sample_tproc_def fresh_image_def sample_proc_def proc0_def)

text \<open>
  C17: the variable arguments of \<^verbatim>\<open>execl\<close> arrive whole.  For any number of arguments ended by a
  null pointer, when \<^verbatim>\<open>realloc\<close> can double the array often enough, \<^verbatim>\<open>ARG2ARGV\<close> ends, never leaves its array
  and builds exactly the list of the arguments with the null pointer.
\<close>
theorem arg2argv_collects_all:
  assumes "length xs + 1 \<le> INITIAL_ARGV_MAX * 2 ^ length oks" and "\<forall>b \<in> set oks. b"
  shows "arg2argv junk oks (map Some xs @ [None]) = Inr (Some (map Some xs @ [None]))"
proof -
  let ?args = "map Some xs @ [None]"
  obtain a va where av: "?args = a # va" by (cases ?args) auto
  have "arg2argv_loop junk oks ((replicate INITIAL_ARGV_MAX junk)[0 := a]) 0 va = Inr (Some ?args)"
  proof (rule arg2argv_loop_ok [of 0 _ ?args va xs])
    show "take (0 + 1) ((replicate INITIAL_ARGV_MAX junk)[0 := a]) = take (0 + 1) ?args"
      unfolding av by (simp add: INITIAL_ARGV_MAX_def take_Suc_update)
    show "va = drop (0 + 1) ?args" unfolding av by simp
  qed (use assms in \<open>simp_all add: INITIAL_ARGV_MAX_def\<close>)
  then show ?thesis by (simp add: arg2argv_def av)
qed

theorem arg2argv_collects_all_witness:
  "arg2argv None [] [Some ''ls'', Some ''-l'', None] = Inr (Some [Some ''ls'', Some ''-l'', None])"
  using arg2argv_collects_all [of "[''ls'', ''-l'']" "[]" None] by (simp add: INITIAL_ARGV_MAX_def)

section \<open>Further consequences\<close>

text \<open>A new program starts with a good table.\<close>

lemma vfd_init_tab_ok:
  assumes "kernel_ok k"
  shows "\<exists>c. vfd_init k (fresh_image fe junk env pid self) = Inr c \<and> tab_ok (tp_st c)"
proof -
  from vfd_init_fresh [OF assms, of fe junk env pid self] obtain st where
    i: "vfd_init k (fresh_image fe junk env pid self) = Inr (exec_arrival (read_settings st))" "vfd_tab (tp_st st) = (\<lambda>_. vfd0)"
      "px_junk (tp_st st) = junk" by metis
  have ok: "tab_ok v" if "vfd_tab v = (\<lambda>_. vfd0)" "px_junk v = junk" for v
    by (rule tab_ok_same [OF proc0_ok [of fe junk]]) (use that in \<open>simp_all add: proc0_def\<close>)
  have idle: "idle (vfd_tab v 0)" if "vfd_tab v = (\<lambda>_. vfd0)" for v using that by (simp add: idle_def vfd0_def)
  let ?P = "\<lambda>x. vfd_tab (tp_st x) = (\<lambda>_. vfd0) \<and> px_junk (tp_st x) = junk"
  have "tab_ok (tp_st (exec_arrival x))" if "?P x" for x
  proof -
    have id: "tab_ok (identified 0 found v)" if "vfd_tab v = (\<lambda>_. vfd0)" "px_junk v = junk" for found v
      using identified_ok ok [OF that] idle [OF that(1)] by blast
    show ?thesis using that id ok by (auto simp: exec_arrival_def Let_def split: option.splits)
  qed
  moreover have "?P (read_settings st)" using i(2,3) by (simp add: read_settings_def Let_def)
  ultimately show ?thesis using i(1) by blast
qed

text \<open>\<^verbatim>\<open>execve\<close> does not pass the name of the program on.\<close>

lemma execve_loses_name:
  assumes "first_init (tp_st st)" and "tp_ctx st = Some (p, tid)" and "kernel_ok k'"
    and "wrap_execve lib path argv envp k st = Inr (Image b f a env, st')" and "real_getenv ''TRACE_FN'' envp = None"
  shows "\<exists>c. vfd_init k' (fresh_image fe junk env pid self) = Inr c \<and> prog_name c = ''__''"
  using arrival_reports [OF execve_carries(1) [OF assms(4,1,2)] assms(3), of fe junk pid self] execve_carries(2) [OF assms(4,1,2)] assms(5)
  by (metis option.case(1))

text \<open>At the exit everything logged has been sent.\<close>

lemma shutdowns_flush:
  "snd (log_of st) = [] \<Longrightarrow> \<not> bb_disable_all (tp_st st) \<Longrightarrow>
     snd (log_of ((vfd_shutdown ^^ n) st)) = [] \<and> \<not> bb_disable_all (tp_st ((vfd_shutdown ^^ n) st))"
proof (induction n)
  case (Suc n)
  obtain out buf where "log_of ((vfd_shutdown ^^ n) st) = (out, buf)" by fastforce
  with Suc show ?case by (simp add: vfd_shutdown_def [of "(vfd_shutdown ^^ n) st"])
qed simp

lemma exit_flushes:
  assumes "wrap_exit status k st = Inr (x, st')" and "first_init (tp_st st)" and "\<not> bb_disable_all (tp_st st)"
  shows "snd (log_of st') = []"
proof -
  from assms(1,2) obtain st2 where p: "pfdura False (tp_getpid st) k st = Inr st2"
    "st' = real_exit (flush_log (if debug_events (tp_st st2) then acts [Log (LOGBIN0 (SYS ''EXIT'') 0)] st2 else st2))"
    by (auto simp: wrap_exit_def start_wrap_def Let_def elim!: rbind_InrE)
  have "\<not> bb_disable_all (tp_st st2)" using p(1) assms(3) by (auto simp: pfdura_def split: if_splits)
  then show ?thesis unfolding p(2) real_exit_def by (intro shutdowns_flush [THEN conjunct1]) (auto simp: log_of_flush)
qed

end
