(* ===== verification/Vfd_Types.thy ===== *)
theory Vfd_Types
  imports Vfd_Inv
begin

text \<open>
  The types of the plugins' data.  A descriptor keeps its plugin's state behind a \<^verbatim>\<open>void *\<close>, which every call of
  the plugin casts to the plugin's own structure.  The lemmas show that the intercepted calls keep what is stored in
  step with the dispatcher, and which call does not.
\<close>

section \<open>Types\<close>

fun typed :: "pp_dispatcher \<Rightarrow> pp_data \<Rightarrow> bool" where
  "typed Perlps data \<longleftrightarrow> perlp_of data \<noteq> None"
| "typed Https data \<longleftrightarrow> http_of data \<noteq> None"
| "typed Xc data \<longleftrightarrow> x_of data \<noteq> None"
| "typed Psqlc data \<longleftrightarrow> psql_of data \<noteq> None"
| "typed Psqls data \<longleftrightarrow> psql_of data \<noteq> None"
| "typed Mysqlc data \<longleftrightarrow> mysql_of data \<noteq> None"
| "typed Mysqls data \<longleftrightarrow> mysql_of data \<noteq> None"
| "typed Fcgis data \<longleftrightarrow> fcgi_of data \<noteq> None"
| "typed Fcgic data \<longleftrightarrow> fcgi_of data \<noteq> None"
| "typed _ data \<longleftrightarrow> True"

definition typed_at :: "proc \<Rightarrow> int \<Rightarrow> bool" where
  "typed_at st s \<longleftrightarrow> (\<forall>d. vf_dispatcher (vfd_tab st s) = Some d \<longrightarrow> typed d (vf_data (vfd_tab st s)))"

text \<open>Data of another type is what a cast stops at.\<close>

lemma untyped_stops:
  "\<not> typed d data \<Longrightarrow> pp_read d junk s data mem len = Inl (if data = DNull then NullDeref else OutOfBounds)"
  by (cases d; cases data) (simp_all add: as_state_def)

lemma typed_init: "typed d (fst (pp_init d junk s data))"
  by (cases d) (simp_all add: case_prod_beta)

lemma typed_read: "typed d data \<Longrightarrow> pp_read d junk s data mem n = Inr (data', a, calls) \<Longrightarrow> typed d data'"
  by (cases d; cases data) (auto simp: as_state_def elim!: rbind_InrE)

lemma typed_write: "typed d data \<Longrightarrow> pp_write d junk s data mem n = Inr (data', a, calls) \<Longrightarrow> typed d data'"
  by (cases d; cases data) (auto simp: as_state_def elim!: rbind_InrE)

section \<open>The wrappers\<close>

definition keeps_types :: "proc \<Rightarrow> proc \<Rightarrow> bool" where
  "keeps_types st st' \<longleftrightarrow> (\<forall>s. typed_at st s \<longrightarrow> typed_at st' s)"

named_theorems keeps \<open>calls that keep the types\<close>

lemma keeps_refl [keeps]: "keeps_types st st"
  by (simp add: keeps_types_def)

lemma keeps_trans [trans]: "keeps_types a b \<Longrightarrow> keeps_types b c \<Longrightarrow> keeps_types a c"
  by (simp add: keeps_types_def)

lemma keeps_same: "vfd_tab st' = vfd_tab st \<Longrightarrow> keeps_types st st'"
  by (simp add: keeps_types_def typed_at_def)

lemma keeps_one:
  assumes "\<And>x. x \<noteq> s \<Longrightarrow> vfd_tab st' x = vfd_tab st x" and "typed_at st s \<Longrightarrow> typed_at st' s"
  shows "keeps_types st st'"
  unfolding keeps_types_def using assms by (metis typed_at_def)

lemma keeps_logs [simp]: "keeps_types st (logs l st') = keeps_types st st'"
  by (simp add: keeps_types_def typed_at_def)

lemma keeps_upd:
  "(\<And>v. vf_dispatcher (f v) = None \<or> vf_dispatcher (f v) = vf_dispatcher v \<and> vf_data (f v) = vf_data v) \<Longrightarrow> keeps_types st (upd_vfd s f st)"
proof (rule keeps_one [of s])
  assume "\<And>v. vf_dispatcher (f v) = None \<or> vf_dispatcher (f v) = vf_dispatcher v \<and> vf_data (f v) = vf_data v"
  from this [of "vfd_tab st s"] show "typed_at st s \<Longrightarrow> typed_at (upd_vfd s f st) s" by (auto simp: typed_at_def)
qed simp

lemma keeps_making [keeps]:
  "keeps_types st (new_vfd t fd st)" "keeps_types st (dup_vfd oldfd newfd st)" "keeps_types st (track fd st)"
  by (rule keeps_one [of fd] keeps_one [of newfd] keeps_same; simp add: typed_at_def new_vfd_def dup_vfd_def vfd_tab_init_one_def track_def)+

lemma plugin_init_typed: "typed_at (plugin_init s st) s"
  using typed_init [of _ "px_junk st" s "vf_data (vfd_tab st s)"]
  by (auto simp: typed_at_def plugin_init_def split: option.splits prod.splits) (metis fst_conv)

lemma keeps_identified [keeps]: "keeps_types st (plugin_init s (identified s found st))"
  by (rule keeps_one [of s]) (simp_all add: plugin_init_same plugin_init_typed)

lemma keeps_connect_event [keeps]:
  assumes "connect_event s r peer local st = Inr st'"
  shows "keeps_types st st'"
proof -
  have "keeps_types st (upd_vfd s (\<lambda>v. v\<lparr>in_prog := False\<rparr>) st)" by (rule keeps_upd) simp
  from keeps_trans [OF this keeps_identified] show ?thesis
    using assms by (auto simp: connect_event_def elim!: rbind_InrE)
qed

text \<open>Reading and writing keep the dispatcher and hand the data through the plugin.\<close>

lemma keeps_virtual_input:
  assumes "virtual_input strict s len ans st = Inr (r, out, st')" and "length (rbuf (vfd_tab st s)) = VBUFSIZE"
  shows "keeps_types st st'"
proof -
  have i: "input_step (\<lambda>data. \<forall>d. vf_dispatcher (vfd_tab st s) = Some d \<longrightarrow> typed d data) s st st'"
    by (rule virtual_input_step [OF assms(1) _ assms(2)]) (use typed_read in \<open>fastforce simp: reading_keeps_def\<close>)
  then show ?thesis by (intro keeps_one [of s]) (auto simp: input_step_def reads_only_def typed_at_def)
qed

lemma keeps_wrap_input:
  assumes "wrap_input (virtual_input strict) bc ec s len ans st = Inr (r, out, st')" and "length (rbuf (vfd_tab st s)) = VBUFSIZE"
  shows "keeps_types st st'"
proof (cases "\<not> untraced s st \<and> vf_dispatcher (vfd_tab st s) \<noteq> None")
  case True
  from assms(1) True obtain st2 where v: "virtual_input strict s len ans (logs [Log bc] st) = Inr (r, out, st2)" "st' = logs [Log (ec r)] st2"
    by (auto simp: wrap_input_def elim!: rbind_InrE)
  from keeps_virtual_input [OF v(1)] assms(2) have "keeps_types (logs [Log bc] st) st2" by simp
  then show ?thesis by (simp add: v(2) keeps_types_def typed_at_def)
next
  case False
  then have "vfd_tab st' = vfd_tab st"
    using assms(1) by (auto simp: wrap_input_def elim!: rbind_InrE split: if_splits prod.splits dest: real_read_same)
  then show ?thesis by (rule keeps_same)
qed

lemma keeps_vwrite:
  assumes "vwrite_req s buf len st = Inr st'" and "length (wbuf (vfd_tab st s)) = VBUFSIZE"
  shows "keeps_types st st' \<and> length (wbuf (vfd_tab st' s)) = VBUFSIZE"
  using assms
proof (cases rule: vwrite_shape)
  case 1
  then show ?thesis using assms(2) by (simp add: keeps_refl)
next
  case (2 d wb n data mem vlen calls)
  have "typed d (vf_data (vfd_tab st s)) \<Longrightarrow> typed d data"
    by (rule pp_consume_keeps [where P = "typed d", OF _ _ 2(5), THEN conjunct1]) (use typed_write in blast)+
  moreover have "length mem \<le> length (drop (wbufofs (vfd_tab st s)) wb)"
    using pp_consume_keeps [where P = "\<lambda>_. True", OF _ _ 2(5)] by blast
  ultimately show ?thesis
    using 2(1,4) by (auto simp: 2(6) typed_at_def intro!: keeps_one [of s])
qed

lemma keeps_wrap_output:
  assumes "wrap_output bc ec s buf r st = Inr (x, st')" and "length (wbuf (vfd_tab st s)) = VBUFSIZE"
  shows "keeps_types st st'"
proof (cases "untraced s st")
  case False
  with assms(1) obtain st1 where w: "vwrite_req s buf (to_int32 r) (logs [Log bc] st) = Inr st1" "vfd_tab st' = vfd_tab st1"
    by (auto simp: wrap_output_def elim!: rbind_InrE)
  from keeps_vwrite [OF w(1)] assms(2) have "keeps_types (logs [Log bc] st) st1" by simp
  then show ?thesis using w(2) by (simp add: keeps_types_def typed_at_def)
qed (use assms in \<open>simp add: wrap_output_def keeps_refl\<close>)

lemma keeps_writev_loop:
  "writev_loop s vec todo st = Inr st' \<Longrightarrow> length (wbuf (vfd_tab st s)) = VBUFSIZE \<Longrightarrow> keeps_types st st'"
proof (induction vec arbitrary: todo st)
  case (Cons b vec)
  show ?case
  proof (cases "todo \<le> 0")
    case False
    then show ?thesis using Cons.prems
      by (auto simp: Let_def elim!: rbind_InrE split: if_splits dest!: keeps_vwrite Cons.IH intro: keeps_trans)
  qed (use Cons.prems in \<open>auto simp: Let_def keeps_refl elim!: rbind_InrE split: if_splits dest!: keeps_vwrite Cons.IH intro: keeps_trans\<close>)
qed (simp add: keeps_refl)

lemma keeps_writev:
  assumes "wrap_writev s vec ret st = Inr (r, st')" and "length (wbuf (vfd_tab st s)) = VBUFSIZE"
  shows "keeps_types st st'"
proof (cases "\<not> untraced s st \<and> 0 < to_int32 ret \<and> vf_dispatcher (vfd_tab st s) \<noteq> None")
  case True
  let ?st1 = "logs [Log (LOGBINii (SYS ''WRITEV_BEGIN'') 0 s (int (length vec)))] st"
  obtain st2 where w: "writev_loop s vec (to_int32 ret) ?st1 = Inr st2" "vfd_tab st' = vfd_tab st2"
    using assms(1) True by (auto simp: wrap_writev_def Let_def elim!: rbind_InrE)
  from keeps_writev_loop [OF w(1)] assms(2) show ?thesis using w(2) by (simp add: keeps_types_def typed_at_def)
next
  case False
  then have "vfd_tab st' = vfd_tab st" using assms(1) by (auto simp: wrap_writev_def Let_def split: if_splits)
  then show ?thesis by (rule keeps_same)
qed

lemma keeps_close: "keeps_types st (snd (wrap_close r s st))"
  by (rule keeps_one [of s]) (auto simp: wrap_close_def typed_at_def Let_def split: option.splits prod.splits)

lemma keeps_unseen: "keeps_types st (snd (wrap_unseen name out_fd in_fd count r st))"
  by (rule keeps_same) (simp add: wrap_unseen_def)

lemma keeps_small:
  "wrap_pipe r fds st = Inr (x, st') \<Longrightarrow> keeps_types st st'"
  "wrap_dup newfd oldfd st = Inr (x, st') \<Longrightarrow> keeps_types st st'"
  "wrap_dup2 r oldfd newfd st = Inr (x, st') \<Longrightarrow> keeps_types st st'"
  "wrap_fcntl r fd cmd st = Inr (x, st') \<Longrightarrow> keeps_types st st'"
  "wrap_socket s d t p st = Inr (x, st') \<Longrightarrow> keeps_types st st'"
  "wrap_open r pathname flags st = Inr (x, st') \<Longrightarrow> keeps_types st st'"
  "wrap_creat r pathname st = Inr (x, st') \<Longrightarrow> keeps_types st st'"
  "wrap_listen r s backlog st = Inr (x, st') \<Longrightarrow> keeps_types st st'"
  unfolding wrap_pipe_def wrap_dup_def wrap_dup2_def wrap_fcntl_def wrap_socket_def wrap_open_def wrap_creat_def wrap_listen_def
  by (auto elim!: rbind_InrE split: if_splits intro: keeps keeps_trans [OF keeps_making(3) keeps_making(2)]
      keeps_trans [OF keeps_making(1) keeps_making(1)])

lemma keeps_accept:
  assumes "wrap_accept new_fd peer local s st = Inr (r, st')"
  shows "keeps_types st st'"
proof -
  define st1 where "st1 = clear_readable_cache s (logs [Log (LOGBINi (SYS ''ACCEPT_BEGIN'') 0 s)] st)"
  have 1: "keeps_types st st1" by (rule keeps_same) (simp add: st1_def)
  have "keeps_types st (plugin_init new_fd (identified new_fd found (new_vfd VFD_SOCK new_fd st1)))" for found
    by (rule keeps_trans [OF keeps_trans [OF 1 keeps_making(1)] keeps_identified])
  then show ?thesis
    using assms 1 unfolding wrap_accept_def Let_def st1_def [symmetric]
    by (auto intro: keeps elim!: rbind_InrE split: if_splits)
qed

lemma keeps_connect:
  assumes "wrap_connect r e peer local s st = Inr (x, st')"
  shows "keeps_types st st'"
proof -
  have "keeps_types st (upd_vfd s (\<lambda>v. v\<lparr>in_prog := True\<rparr>) (logs l (logs l' st)))" for l l'
    by (rule keeps_trans [OF keeps_same keeps_upd]) simp_all
  moreover have "connect_event s r peer local (logs l st) = Inr st2 \<Longrightarrow> keeps_types st st2" for l st2
    using keeps_connect_event by (fastforce simp: keeps_types_def typed_at_def)
  ultimately show ?thesis
    using assms by (auto simp: wrap_connect_def Let_def keeps_refl elim!: rbind_InrE split: if_splits)
qed

lemma keeps_speak_select:
  assumes "speak_select n want ans peer local st = Inr (r, sets, fd, st')"
  shows "keeps_types st st'"
proof -
  obtain r1 sets1 fd1 st1 where c: "select_core n want ans st = (r1, sets1, fd1, st1)" by (metis prod_cases4)
  have 1: "keeps_types st st1" using select_core_same [OF c] by (intro keeps_same) simp
  consider "st' = st1" | "connect_event fd1 1 peer local st1 = Inr st'"
    using assms by (auto simp: speak_select_def c elim!: rbind_InrE split: if_splits)
  then show ?thesis using 1 keeps_trans [OF 1 keeps_connect_event] by cases auto
qed

lemma keeps_logs_left [simp]: "keeps_types (logs l st) st' = keeps_types st st'"
  by (simp add: keeps_types_def typed_at_def)

lemma keeps_select:
  "wrap_select n want ans peer local st = Inr (r, sets, st') \<Longrightarrow> keeps_types st st'"
  "wrap_poll ufds timeout ans' real peer local st = Inr (r, psets, st') \<Longrightarrow> keeps_types st st'"
  by (auto simp: wrap_select_def wrap_poll_def Let_def keeps_refl elim!: rbind_InrE split: if_splits dest!: keeps_speak_select)

lemma keeps_bind:
  assumes "wrap_bind r s a st = Inr (x, st')" and "t \<noteq> s \<or> r \<noteq> 0"
  shows "typed_at st t \<Longrightarrow> typed_at st' t"
  using assms by (auto simp: wrap_bind_def typed_at_def elim!: rbind_InrE split: if_splits)

section \<open>Runs\<close>

text \<open>The call gives \<open>s\<close> a dispatcher and no data.\<close>

fun binds :: "int \<Rightarrow> syscall \<Rightarrow> bool" where
  "binds s (Call_bind r t a) \<longleftrightarrow> r = 0 \<and> t = s"
| "binds s _ \<longleftrightarrow> False"

lemma do_call_typed:
  assumes "do_call c st = Inr st'" and "tab_ok st" and "\<not> binds s c" and "typed_at st s"
  shows "typed_at st' s"
proof -
  note len = tab_okD(1,2) [OF assms(2)]
  have reads: "wrap_read t n ans st = Inr (r, out, st') \<Longrightarrow> keeps_types st st'" "wrap_recv t n f ans st = Inr (r, out, st') \<Longrightarrow> keeps_types st st'"
    "wrap_recvfrom t n f ans st = Inr (r, out, st') \<Longrightarrow> keeps_types st st'" for t n f ans r out
    using keeps_wrap_input [OF _ len(1)]
    by (simp_all add: wrap_read_def wrap_recv_def wrap_recvfrom_def virtual_read_def virtual_recv_def virtual_recvfrom_def)
  have readv: "wrap_readv t ns ans st = Inr (r, out, st') \<Longrightarrow> keeps_types st st'" for t ns ans r out
    using reads(1) by (cases "untraced t st"; cases ns) (auto simp: wrap_readv_def intro: keeps_same dest: real_read_same)
  have writes: "wrap_write t b n st = Inr (x, st') \<Longrightarrow> keeps_types st st'" "wrap_send t b f n st = Inr (x, st') \<Longrightarrow> keeps_types st st'"
    "wrap_sendto t b f n st = Inr (x, st') \<Longrightarrow> keeps_types st st'" "wrap_writev t vec n st = Inr (x, st') \<Longrightarrow> keeps_types st st'" for t b f n x vec
    using keeps_wrap_output [OF _ len(2)] keeps_writev [OF _ len(2)] by (simp_all add: wrap_write_def wrap_send_def wrap_sendto_def)
  show ?thesis
  proof (cases "\<exists>r t a. c = Call_bind r t a")
    case True
    then show ?thesis using assms keeps_bind [of _ _ _ st _ st' s] by (auto simp: after_Inr)
  next
    case False
    then have "keeps_types st st'" using assms(1)
      by (cases c; simp only: do_call.simps after_Inr sum.inject wrap_sendfile_def wrap_sendfile64_def; (elim exE)?; (hypsubst)?)
         (blast dest: keeps_small reads readv writes keeps_accept keeps_connect keeps_select intro: keeps_close keeps_unseen)+
    then show ?thesis using assms(4) by (simp add: keeps_types_def)
  qed
qed

text \<open>A new socket that is bound to the port of a known service has the dispatcher and no data.\<close>

lemma bind_untypes:
  assumes "\<not> untraced s st" and "pp_id_bind (bb_disable_pp st) (px_fe st) a (px_serv st) = Inr (Some d, calls, gs)"
    and "vf_data (vfd_tab st s) = DNull" and "\<not> typed d DNull"
  shows "\<exists>st'. wrap_bind 0 s a st = Inr (0, st') \<and> \<not> typed_at st' s \<and> pp_read d junk s (vf_data (vfd_tab st' s)) mem len = Inl NullDeref"
  using assms untyped_stops [OF assms(4)] by (auto simp: wrap_bind_def identified_def typed_at_def)

section \<open>Properties\<close>

text \<open>
  C32: the casts of the plugins' data are sound.  In any run of calls, a descriptor whose data has the type of
  its dispatcher keeps it so, whatever becomes of it in between, as long as it is not itself bound: where it has
  a plugin in the end, the data is that plugin's structure, so none of its calls stops at the cast
  (lemma \<open>untyped_stops\<close>; lemma \<open>bind_untypes\<close> shows the exception).
\<close>
theorem plugin_data_typed:
  assumes "call_steps st cs st'" and "tab_ok st" and "typed_at st s" and "list_all (\<lambda>c. \<not> binds s c) cs"
  shows "typed_at st' s"
  using assms
proof (induction rule: call_steps.induct)
  case (none st)
  then show ?case by simp
next
  case (more st c st1 cs st2)
  from more.hyps(1) have c: "permitted c st" "do_call c st = Inr st1" by (auto elim: call_stepE)
  then have "tab_ok st1" "typed_at st1 s" using do_call_tab_ok do_call_typed more.prems by auto
  then show ?case using more.IH more.prems(3) by simp
qed

theorem plugin_data_typed_witness:
  "\<exists>st'. call_steps sample_proc [Call_socket 7 2 1 0, Call_listen 0 7 5, Call_dup 8 5] st' \<and>
     vf_dispatcher (vfd_tab st' 5) = Some Mysqlc \<and> typed_at st' 5"
proof -
  have "\<exists>st'. call_steps sample_proc [Call_socket 7 2 1 0, Call_listen 0 7 5, Call_dup 8 5] st' \<and> vf_dispatcher (vfd_tab st' 5) = Some Mysqlc"
    by (simp add: call_step.simps wrap_socket_def wrap_listen_def wrap_dup_def at_fd_def after_def untraced_def MAX_FDS_def
        new_vfd_def dup_vfd_def track_def sample_proc_def proc0_def upd_vfd_def logs_def)
  then obtain st' where run: "call_steps sample_proc [Call_socket 7 2 1 0, Call_listen 0 7 5, Call_dup 8 5] st'"
    and d: "vf_dispatcher (vfd_tab st' 5) = Some Mysqlc" by blast
  have "typed_at sample_proc 5" by (simp add: typed_at_def sample_proc_def)
  from plugin_data_typed [OF run sample_proc_ok this] have "typed_at st' 5" by simp
  with run d show ?thesis by blast
qed

end
