(* ===== verification/Vfd_Msgs.thy ===== *)
theory Vfd_Msgs
  imports Vfd_Io
begin

text \<open>
  A connection that speaks MySQL from the program's side: any sequence of \<^verbatim>\<open>read\<close> and \<^verbatim>\<open>write\<close> calls
  on it, and the message events that these leave in the log.  It puts the plugin of \<open>Pp_Sql\<close> behind the read
  buffer and the copy of written data of \<open>Vfd\<close>.
\<close>

section \<open>Events\<close>

definition msg_sys :: "pp_direction \<Rightarrow> sysid" where
  "msg_sys dir = (if dir = PP_WRITE then SYS ''PP_MSG_SEND'' else SYS ''PP_MSG_RECV'')"

text \<open>The message events of one direction among what is logged.\<close>

fun msgs :: "pp_direction \<Rightarrow> logact list \<Rightarrow> logcall list" where
  "msgs dir [] = []"
| "msgs dir (Log c # l) = (if lc_sc c = Some (msg_sys dir) then c # msgs dir l else msgs dir l)"
| "msgs dir (_ # l) = msgs dir l"

lemma msgs_append [simp]: "msgs dir (a @ b) = msgs dir a @ msgs dir b"
  by (induction dir a rule: msgs.induct) simp_all

text \<open>The event of a packet.\<close>

definition mysql_event :: "int \<Rightarrow> int \<Rightarrow> pp_direction \<Rightarrow> nat \<times> string \<Rightarrow> logcall list" where
  "mysql_event s role dir p = mysql_log \<lparr> my_todo = of_nat (length (snd p)), my_id = of_nat (fst p) \<rparr> s role dir"

lemma lc_sc_LOGBIN [simp]:
  "lc_sc (LOGBINs sc rv x) = Some sc" "lc_sc (LOGBINii sc rv a b) = Some sc" "lc_sc (LOGBINiii sc rv a b c) = Some sc"
  "lc_sc (LOGBINiiis sc rv a b c x) = Some sc"
  by (simp_all add: LOGBINs_def LOGBINii_def LOGBINiii_def LOGBINiiis_def logcall_gen_def)

lemma msgs_mysql_log [simp]:
  "msgs dir (map Log (mysql_log w s role dir')) = (if dir = dir' then mysql_log w s role dir' else [])"
  by (cases dir; cases dir'; simp add: mysql_log_def Let_def msg_sys_def)

lemma msgs_packet_logs: "msgs dir (map Log (concat (map (mysql_packet_logs s role dir) ps))) = concat (map (mysql_event s role dir) ps)"
  by (induction ps) (simp_all add: mysql_packet_logs_def mysql_event_def msg_sys_def)

section \<open>What the plugin has been told\<close>

text \<open>The bytes read from the kernel that the plugin has not taken.\<close>

definition rd_unread :: "int \<Rightarrow> proc \<Rightarrow> string" where
  "rd_unread s st = (let v = vfd_tab st s in peek (rbuf v) (nat (rbufofs v)) (nat (rbuflen v - rbufofs v)))"

text \<open>
  The plugin of \<open>s\<close> is in the state, and has logged the message events, of a run over exactly the
  bytes it has taken: of those read all but \<open>rd_unread\<close>, of those written, \<open>W\<close>, all but the copy.
\<close>

definition told :: "pp_dispatcher \<Rightarrow> int \<Rightarrow> (pp_direction \<Rightarrow> logcall list) \<Rightarrow> string \<Rightarrow> proc \<Rightarrow> bool" where
  "told d s base W st \<longleftrightarrow>
     (\<exists>w R rc wc. vf_data (vfd_tab st s) = DMysql w \<and> k_got st s = R @ rd_unread s st \<and>
        mysql_run s (mysql_role d) PP_READ mysql_side0 R = Inr (mysql_read w, [], 0, rc) \<and>
        mysql_run s (mysql_role d) PP_WRITE mysql_side0 W = Inr (mysql_write w, untaken s st, wbuflen (vfd_tab st s), wc) \<and>
        msgs PP_READ (px_log st) = base PP_READ @ msgs PP_READ (map Log rc) \<and>
        msgs PP_WRITE (px_log st) = base PP_WRITE @ msgs PP_WRITE (map Log wc))"

lemma told_cong:
  assumes "vf_data (vfd_tab a s) = vf_data (vfd_tab b s)" and "k_got a s = k_got b s" and "rd_unread s a = rd_unread s b"
    and "untaken s a = untaken s b" and "wbuflen (vfd_tab a s) = wbuflen (vfd_tab b s)" and "\<And>dir. msgs dir (px_log a) = msgs dir (px_log b)"
  shows "told d s base W a = told d s base W b"
  by (simp add: told_def assms)

lemma told_logs [simp]: "(\<And>dir. msgs dir l = []) \<Longrightarrow> told d s base W (logs l st) = told d s base W st"
  by (rule told_cong) (simp_all add: rd_unread_def untaken_def)

lemma msgs_buffer_logs [simp]:
  "sc \<noteq> ''PP_MSG_SEND'' \<Longrightarrow> sc \<noteq> ''PP_MSG_RECV'' \<Longrightarrow> msgs dir (px_log (show_buffer sc s st)) = msgs dir (px_log st)"
  "sc \<noteq> ''PP_MSG_SEND'' \<Longrightarrow> sc \<noteq> ''PP_MSG_RECV'' \<Longrightarrow> msgs dir (px_log (short_log sc s st)) = msgs dir (px_log st)"
  by (simp_all add: show_buffer_def short_log_def Let_def msg_sys_def)

lemma told_buffer_logs [simp]:
  "sc \<noteq> ''PP_MSG_SEND'' \<Longrightarrow> sc \<noteq> ''PP_MSG_RECV'' \<Longrightarrow> told d s base W (show_buffer sc t st) = told d s base W st"
  "sc \<noteq> ''PP_MSG_SEND'' \<Longrightarrow> sc \<noteq> ''PP_MSG_RECV'' \<Longrightarrow> told d s base W (short_log sc t st) = told d s base W st"
  by (rule told_cong; simp add: rd_unread_def untaken_def)+

lemma cache_log [simp]:
  "px_log (clear_readable_cache s st) = px_log st" "px_log (set_readable_cache s st) = px_log st" "px_log (clear_writable_cache s st) = px_log st"
  by (simp_all add: clear_readable_cache_def set_readable_cache_def clear_writable_cache_def)

section \<open>Reading\<close>

lemma told_give:
  assumes "give s len st = Inr (r, out, st')" and "told d s base W st"
  shows "told d s base W st'"
proof -
  from assms(1) have "vf_data (vfd_tab st' s) = vf_data (vfd_tab st s) \<and> k_got st' s = k_got st s \<and> rd_unread s st' = rd_unread s st \<and>
      untaken s st' = untaken s st \<and> wbuflen (vfd_tab st' s) = wbuflen (vfd_tab st s) \<and> (\<forall>dir. msgs dir (px_log st') = msgs dir (px_log st))"
    by (auto simp: give_def buf_ret_def Let_def rd_unread_def untaken_def elim!: rbind_InrE split: if_splits)
  then show ?thesis using told_cong [of st' s st] assms(2) by blast
qed

lemma told_shift:
  assumes "buf_shift s st = Inr st'" and "given d s st" and "told d s base W st"
  shows "told d s base W st'"
proof -
  define v where "v = vfd_tab st s"
  have g: "rlastlen v = rbuflen v" "0 \<le> rbufofs v" "rbufofs v \<le> rbuflen v" "rbuflen v \<le> int VBUFSIZE" "length (rbuf v) = VBUFSIZE"
    using assms(2) by (auto simp: given_def rd_ok_def v_def Let_def split: if_splits)
  define b where "b = peek (rbuf v) (nat (rbufofs v)) (nat (rbuflen v - rbufofs v))"
  have "length b = nat (rbuflen v - rbufofs v)" using g by (simp add: b_def)
  then have "peek (poke (rbuf v) 0 b) 0 (nat (rbuflen v - rbufofs v)) = b" by (intro peek_poke_same) simp_all
  then have "rbufofs v \<noteq> 0 \<Longrightarrow> vf_data (vfd_tab st' s) = vf_data (vfd_tab st s) \<and> k_got st' s = k_got st s \<and> rd_unread s st' = rd_unread s st \<and>
      untaken s st' = untaken s st \<and> wbuflen (vfd_tab st' s) = wbuflen (vfd_tab st s) \<and> (\<forall>dir. msgs dir (px_log st') = msgs dir (px_log st))"
    using assms(1) g by (auto simp: buf_shift_def rd_unread_def untaken_def v_def [symmetric] b_def [symmetric] Let_def split: if_splits)
  moreover have "rbufofs v = 0 \<Longrightarrow> st' = st" using assms(1) g by (auto simp: buf_shift_def v_def [symmetric] Let_def split: if_splits)
  ultimately show ?thesis using told_cong [of st' s st] assms(3) by blast
qed

lemma told_refill:
  assumes "told d s base W st" and "rd_ok d s st" and "rbuflen (vfd_tab st s) + int (length got) \<le> int VBUFSIZE"
    and "vfd_tab st' s = (vfd_tab st s)\<lparr>rbuf := poke (rbuf (vfd_tab st s)) (nat (rbuflen (vfd_tab st s))) got,
                                  rbuflen := rbuflen (vfd_tab st s) + int (length got)\<rparr>"
    and "k_got st' s = k_got st s @ got" and "\<And>dir. msgs dir (px_log st') = msgs dir (px_log st)"
  shows "told d s base W st'"
proof -
  define v where "v = vfd_tab st s"
  define n where "n = nat (rbuflen v)"
  define k where "k = nat (rbufofs v)"
  have g: "0 \<le> rbufofs v" "rbufofs v \<le> rbuflen v" "length (rbuf v) = VBUFSIZE"
    using assms(2) by (auto simp: rd_ok_def v_def Let_def)
  have fit: "rbuflen v + int (length got) \<le> int VBUFSIZE" using assms(3) by (simp add: v_def)
  have kn: "k \<le> n" "n + length got \<le> length (rbuf v)" unfolding k_def n_def using g fit by linarith+
  have nn: "nat (rbuflen v + int (length got) - rbufofs v) = (n - k) + length got" "nat (rbuflen v - rbufofs v) = n - k"
    unfolding n_def k_def using g by linarith+
  have "peek (poke (rbuf v) n got) k ((n - k) + length got) = peek (rbuf v) k (n - k) @ got"
    using kn by (subst peek_add) (simp add: peek_poke_before peek_poke_same del: add_diff_assoc2)
  then have "rd_unread s st' = rd_unread s st @ got"
    using nn by (simp add: rd_unread_def Let_def assms(4) v_def [symmetric] n_def [symmetric] k_def [symmetric])
  moreover have "untaken s st' = untaken s st" "wbuflen (vfd_tab st' s) = wbuflen (vfd_tab st s)" "vf_data (vfd_tab st' s) = vf_data (vfd_tab st s)"
    by (simp_all add: untaken_def assms(4))
  ultimately show ?thesis using assms(1) by (auto simp: told_def assms(5,6))
qed


text \<open>One answer of the plugin that takes bytes is a run over these bytes.\<close>

lemma speak_mysql_run:
  assumes "speak_mysql s role dir x mem n = Inr (x', a, calls)" and "0 < n" and "n \<le> length mem" and "0 \<le> a"
  shows "mysql_run s role dir x (take (nat a) mem) = Inr (x', [], 0, calls)"
proof (cases "0 < my_todo x")
  case True
  define k where "k = min n (unat (my_todo x))"
  have k: "a = int k" "x' = x\<lparr>my_todo := my_todo x - of_nat k\<rparr>" "calls = []"
    using assms(1) True by (auto simp: speak_mysql_def Let_def k_def)
  have "0 < k" "length (take k mem) = k" "k \<le> unat (my_todo x)" using assms(2,3) word_pos_unat [OF True] by (simp_all add: k_def)
  moreover have "mem \<noteq> []" using assms(2,3) by auto
  ultimately show ?thesis using mysql_run_body [OF _ True, of "take k mem" s role dir] by (simp add: k)
next
  case False
  then have todo: "my_todo x = 0" by (simp add: word_gt_0)
  have n: "\<not> n < 4" using assms(1,4) False by (auto simp: speak_mysql_def)
  have h: "mysql_header s role dir x mem = (x', calls) \<and> a = 4"
    using assms(1) False n todo by (auto simp: mysql_header_def speak_mysql_def Let_def)
  have l: "4 \<le> length (take 4 mem)" using n assms(3) by simp
  have "mysql_header s role dir x (take 4 mem) = mysql_header s role dir x (take 4 mem @ drop 4 mem)"
    by (rule mysql_header_append [OF l, symmetric])
  then have "mysql_header s role dir x (take 4 mem) = (x', calls)" using h by simp
  with mysql_run_header [OF todo l, of s role dir] h show ?thesis by simp
qed

lemma speak_mysql_waits: "speak_mysql s role dir x mem n = Inr (x', a, calls) \<Longrightarrow> a < 0 \<Longrightarrow> x' = x \<and> a = - 1 \<and> calls = []"
  by (auto simp: speak_mysql_def Let_def split: if_splits)

lemma speak_mysql_msgs:
  "speak_mysql s role dir x mem n = Inr (x', a, calls) \<Longrightarrow> dir' \<noteq> dir \<Longrightarrow> msgs dir' (map Log calls) = []"
  by (auto simp: speak_mysql_def Let_def msg_sys_def split: if_splits)

lemma mysql_pp_read:
  assumes "d = Mysqlc \<or> d = Mysqls"
  shows "pp_read d junk s (DMysql w) mem n =
     rbind (speak_mysql s (mysql_role d) PP_READ (mysql_read w) mem n) (\<lambda>(x, a, calls). Inr (DMysql (w\<lparr>mysql_read := x\<rparr>), a, calls))"
  using assms by (cases "speak_mysql s (mysql_role d) PP_READ (mysql_read w) mem n")
     (auto simp: as_state_def pp_mysqlc_read_def pp_mysqls_read_def)

lemma told_present:
  assumes d: "d = Mysqlc \<or> d = Mysqls" and "present_pp s st = Inr st'" and "told d s base W st"
    and "vf_dispatcher (vfd_tab st s) = Some d" and "length (rbuf (vfd_tab st s)) = VBUFSIZE" and "rbuflen (vfd_tab st s) \<le> int VBUFSIZE"
  shows "told d s base W st'"
proof (cases "rbuflen (vfd_tab st s) - rbufofs (vfd_tab st s) = 0")
  case True
  then show ?thesis using assms(2,3) by (simp add: present_pp_def Let_def)
next
  case False
  define v where "v = vfd_tab st s"
  define n where "n = nat (rbuflen v - rbufofs v)"
  define mem where "mem = drop (nat (rbufofs v)) (rbuf v)"
  from assms(3) obtain w R rc wc where t: "vf_data v = DMysql w" "k_got st s = R @ rd_unread s st"
      "mysql_run s (mysql_role d) PP_READ mysql_side0 R = Inr (mysql_read w, [], 0, rc)"
      "mysql_run s (mysql_role d) PP_WRITE mysql_side0 W = Inr (mysql_write w, untaken s st, wbuflen v, wc)"
      "msgs PP_READ (px_log st) = base PP_READ @ msgs PP_READ (map Log rc)"
      "msgs PP_WRITE (px_log st) = base PP_WRITE @ msgs PP_WRITE (map Log wc)"
    by (auto simp: told_def v_def)
  have ofs: "\<not> (rbuflen v - rbufofs v < 0 \<or> rbufofs v < 0)" and z: "rbuflen v - rbufofs v \<noteq> 0"
    using assms(2,4) False by (auto simp: present_pp_def v_def Let_def split: if_splits)
  then have n: "0 < n" "n \<le> length mem" "int n = rbuflen v - rbufofs v"
    using assms(5,6) by (auto simp: n_def mem_def v_def)
  have un: "rd_unread s st = take n mem" by (simp add: rd_unread_def v_def n_def mem_def peek_def Let_def)
  obtain x a calls where sp: "speak_mysql s (mysql_role d) PP_READ (mysql_read w) mem n = Inr (x, a, calls)"
    using assms(2,4) ofs z
    by (cases "speak_mysql s (mysql_role d) PP_READ (mysql_read w) mem n")
       (auto simp: present_pp_def Let_def v_def [symmetric] t(1) mysql_pp_read [OF d] mem_def n_def)
  have rd: "pp_read d (px_junk st) s (DMysql w) mem n = Inr (DMysql (w\<lparr>mysql_read := x\<rparr>), a, calls)"
    by (simp add: mysql_pp_read [OF d] sp)
  note unf = present_pp_def [of s st, folded v_def, unfolded Let_def, folded mem_def n_def, unfolded t(1)]
  have other: "msgs PP_WRITE (map Log calls) = []" by (rule speak_mysql_msgs [OF sp]) simp
  show ?thesis
  proof (cases "a < 0")
    case True
    with speak_mysql_waits [OF sp] have w: "w\<lparr>mysql_read := x\<rparr> = w" "calls = []" by simp_all
    have "told d s base W st' = told d s base W st"
      using assms(2,4) ofs z True
      by (intro told_cong) (auto simp: unf v_def [symmetric] rd w t(1) rd_unread_def untaken_def Let_def)
    then show ?thesis using assms(3) by simp
  next
    case False
    then have a: "0 \<le> a" "\<not> a < 0" by simp_all
    have le: "nat a \<le> n"
      using sp a by (auto simp: speak_mysql_def Let_def split: if_splits)
    let ?R = "R @ take (nat a) mem"
    from speak_mysql_run [OF sp n(1,2) a(1)] have run: "mysql_run s (mysql_role d) PP_READ (mysql_read w) (take (nat a) mem) = Inr (x, [], 0, calls)" .
    have st': "vfd_tab st' s = v\<lparr>ppwantmore := False, vf_data := DMysql (w\<lparr>mysql_read := x\<rparr>), rbufofs := rbufofs v + a, tosend := rbufofs v + a - rlastlen v\<rparr>"
      "k_got st' = k_got st" "\<And>dir. msgs dir (px_log st') = msgs dir (px_log st) @ msgs dir (map Log calls)"
      using assms(2,4) ofs z a by (auto simp: unf v_def [symmetric] rd msg_sys_def)
    have "nat (rbufofs v + a) = nat (rbufofs v) + nat a" "nat (rbuflen v - (rbufofs v + a)) = n - nat a"
      using ofs a le n(3) by linarith+
    then have un': "rd_unread s st' = drop (nat a) (take n mem)"
      by (simp add: rd_unread_def st'(1) Let_def peek_def mem_def drop_take add.commute)
    have "take n mem = take (nat a) mem @ drop (nat a) (take n mem)" using le by (metis append_take_drop_id min_def take_take)
    then have "k_got st' s = ?R @ rd_unread s st'" using t(2) un un' by (simp add: st'(2))
    moreover have "mysql_run s (mysql_role d) PP_READ mysql_side0 ?R = Inr (x, [], 0, rc @ calls)"
      by (simp add: mysql_run_append t(3) run)
    moreover have "untaken s st' = untaken s st" "wbuflen (vfd_tab st' s) = wbuflen v"
      by (simp_all add: untaken_def st'(1) v_def)
    ultimately show ?thesis
      using t(4-6) other unfolding told_def
      by (intro exI [of _ "w\<lparr>mysql_read := x\<rparr>"] exI [of _ ?R] exI [of _ "rc @ calls"] exI [of _ wc]) (simp add: st'(1,3))
  qed
qed


lemma told_refill_and_give:
  assumes d: "d = Mysqlc \<or> d = Mysqls" and "refill_and_give strict s len ans st = Inr (r, out, st')"
    and "given d s st" and "told d s base W st"
  shows "told d s base W st'"
proof -
  from shift_ok [OF assms(3)] obtain st1 where st1: "buf_shift s st = Inr st1" "given d s st1" "k_got st1 = k_got st" by blast
  have t1: "told d s base W st1" by (rule told_shift [OF st1(1) assms(3,4)])
  define v where "v = vfd_tab st1 s"
  have g: "rd_ok d s st1" "vf_dispatcher v = Some d" "0 \<le> rbuflen v" "rbuflen v \<le> int VBUFSIZE" "length (rbuf v) = VBUFSIZE"
    using st1(2) by (auto simp: given_def rd_ok_def v_def Let_def)
  obtain r0 got st2 where rr: "real_read s (VBUFSIZE - nat (rbuflen v)) ans st1 = (r0, got, st2)" by (metis prod_cases3)
  note unf = assms(2) [unfolded refill_and_give_def st1(1) Let_def, simplified, folded v_def]
  have rd: "vfd_tab st2 = vfd_tab st1" "px_log st2 = px_log st1" "k_got st2 s = k_got st1 s @ got"
    "r0 \<le> 0 \<Longrightarrow> got = []" "0 < r0 \<Longrightarrow> r0 = int (length got)" "length got \<le> VBUFSIZE - nat (rbuflen v)"
    using rr by (auto simp: real_read_def min_def split: rdret.splits if_splits)
  show ?thesis
  proof (cases "r0 \<le> 0")
    case True
    then have "st' = st2" using unf g(3,4) rr by (auto elim!: rbind_InrE)
    moreover have "told d s base W st2 = told d s base W st1"
      by (rule told_cong) (simp_all add: rd rd(4) [OF True] rd_unread_def untaken_def)
    ultimately show ?thesis using t1 by simp
  next
    case False
    define st3 where "st3 = show_buffer ''BUF_REFILLED'' s
        (upd_vfd s (\<lambda>v. v\<lparr>rbuf := poke (rbuf v) (nat (rbuflen v)) got, rbuflen := rbuflen v + r0\<rparr>) st2)"
    have r0: "r0 = int (length got)" using rd(5) False by simp
    have fit: "rbuflen v + int (length got) \<le> int VBUFSIZE" "nat (rbuflen v) + length got \<le> length (rbuf v)"
      using rd(6) g(3-5) by linarith+
    have t3: "told d s base W st3"
      by (rule told_refill [OF t1 g(1), where got = got])
         (use fit(1) rd(1-3) in \<open>simp_all add: st3_def r0 v_def\<close>)
    have v3: "vf_dispatcher (vfd_tab st3 s) = Some d" "length (rbuf (vfd_tab st3 s)) = VBUFSIZE" "rbuflen (vfd_tab st3 s) \<le> int VBUFSIZE"
      using g fit by (simp_all add: st3_def r0 rd(1) v_def)
    from unf False g(3,4) rr obtain st4 where "present_pp s st3 = Inr st4" "give s len st4 = Inr (r, out, st')"
      by (auto simp: st3_def elim!: rbind_InrE)
    then show ?thesis using told_present [OF d _ t3 v3] told_give by blast
  qed
qed

lemma told_virtual_input:
  assumes d: "d = Mysqlc \<or> d = Mysqls" and "virtual_input strict s len ans st = Inr (r, out, st')"
    and "rd_ok d s st" and "told d s base W st"
  shows "told d s base W st'"
proof -
  define st0 where "st0 = show_buffer ''BUF_PRE'' s st"
  have ok: "rd_ok d s st0" using assms(3) view_cong(1) [of st0 s st] by (simp add: st0_def)
  have t0: "told d s base W st0" using assms(4) by (simp add: st0_def)
  have v0: "vf_dispatcher (vfd_tab st0 s) = Some d" "length (rbuf (vfd_tab st0 s)) = VBUFSIZE" "rbuflen (vfd_tab st0 s) \<le> int VBUFSIZE"
    using ok by (simp_all add: rd_ok_def Let_def)
  note unf = assms(2) [unfolded virtual_input_def Let_def, folded st0_def]
  consider (short) "tosend (vfd_tab st0 s) \<noteq> 0"
    | (unshown) "tosend (vfd_tab st0 s) = 0" "rbufofs (vfd_tab st0 s) < rbuflen (vfd_tab st0 s)" "\<not> ppwantmore (vfd_tab st0 s)"
    | (refill) "tosend (vfd_tab st0 s) = 0" "\<not> (rbufofs (vfd_tab st0 s) < rbuflen (vfd_tab st0 s) \<and> \<not> ppwantmore (vfd_tab st0 s))" by blast
  then show ?thesis
  proof cases
    case short
    then show ?thesis using unf t0 told_give [of s len "short_log ''BUF_SHORT1'' s st0"] by simp
  next
    case unshown
    from unf unshown obtain st1 where p: "present_pp s st0 = Inr st1" by (auto elim!: rbind_InrE)
    have t1: "told d s base W st1" by (rule told_present [OF d p t0 v0])
    have "unseen d s st0" using ok unshown by (auto simp: rd_ok_def unseen_def Let_def)
    moreover have "framed d" using d by (auto simp: framed_def)
    ultimately have "tosend (vfd_tab st1 s) \<noteq> 0" using present_ok [of d s st0] p by simp
    then show ?thesis using unf unshown p t1 told_give [of s len "short_log ''BUF_SHORT2'' s st1"] by simp
  next
    case refill
    have "given d s st0" using ok refill by (auto simp: given_def rd_ok_def Let_def)
    then show ?thesis using unf refill told_refill_and_give [OF d _ _ t0] by auto
  qed
qed

lemma told_wrap_read:
  assumes d: "d = Mysqlc \<or> d = Mysqls" and "wrap_read s len ans st = Inr (r, out, st')"
    and "rd_ok d s st" and "\<not> untraced s st" and "told d s base W st"
  shows "told d s base W st'"
proof -
  let ?st1 = "logs [Log (LOGBINii (SYS ''READ_BEGIN'') 0 s (int len))] st"
  have ok: "rd_ok d s ?st1" using assms(3) view_cong(1) [of ?st1 s st] by simp
  have t: "told d s base W ?st1" using assms(5) by (simp add: msg_sys_def)
  have "vf_dispatcher (vfd_tab st s) \<noteq> None" using assms(3) by (auto simp: rd_ok_def Let_def)
  with assms(2,4) obtain st2 where v: "virtual_input True s len ans ?st1 = Inr (r, out, st2)"
    "st' = logs [Log (LOGBINii (SYS ''READ'') r s (int len))] st2"
    by (auto simp: wrap_read_def wrap_input_def virtual_read_def elim!: rbind_InrE)
  from told_virtual_input [OF d v(1) ok t] show ?thesis by (simp add: v(2) msg_sys_def)
qed


section \<open>Writing\<close>

text \<open>A run of the plugin by its presentations: bodies log nothing, headers log.\<close>

lemma mysql_run_induct [consumes 1, case_names stop body header]:
  assumes "mysql_run s role dir x bs = Inr (x', left, n, calls)"
    and stop: "\<And>x. left = [] \<or> my_todo x = 0 \<and> length left < 4 \<Longrightarrow> P x x []"
    and body: "\<And>x y x' calls. P y x' calls \<Longrightarrow> P x x' calls"
    and header: "\<And>x bs y c x' calls. mysql_header s role dir x bs = (y, c) \<Longrightarrow> P y x' calls \<Longrightarrow> P x x' (c @ calls)"
  shows "P x x' calls"
  using assms(1)
proof (induction bs arbitrary: x calls rule: length_induct)
  case (1 bs)
  consider (empty) "bs = []" | (body) "bs \<noteq> []" "0 < my_todo x" | (short) "bs \<noteq> []" "my_todo x = 0" "length bs < 4"
    | (header) "my_todo x = 0" "4 \<le> length bs" by (metis linorder_not_less word_gt_0)
  then show ?case
  proof cases
    case empty
    then show ?thesis using 1(2) stop by simp
  next
    case body
    have "length (drop (unat (my_todo x)) bs) < length bs" using body word_pos_unat [OF body(2)] by simp
    then show ?thesis using 1 mysql_run_body [OF body, of s role dir] assms(3) by metis
  next
    case short
    then show ?thesis using 1(2) mysql_run_wait [OF short] stop by simp
  next
    case header
    obtain y c where h: "mysql_header s role dir x bs = (y, c)" by force
    have l: "length (drop 4 bs) < length bs" using header(2) by simp
    from 1(2) mysql_run_header [OF header, of s role dir] h obtain c2 where
      r: "mysql_run s role dir y (drop 4 bs) = Inr (x', left, n, c2)" "calls = c @ c2"
      by (cases "mysql_run s role dir y (drop 4 bs)") auto
    have "P y x' c2" using 1(1) l r(1) by blast
    with assms(4) h r(2) show ?thesis by blast
  qed
qed

text \<open>It leaves nothing or the beginning of a header, and logs messages of its direction only.\<close>

lemma mysql_run_left: "mysql_run s role dir x bs = Inr (x', left, n, calls) \<Longrightarrow> left = [] \<or> my_todo x' = 0 \<and> length left < 4"
  by (rule mysql_run_induct [where P = "\<lambda>_ x' _. left = [] \<or> my_todo x' = 0 \<and> length left < 4"])

lemma mysql_run_msgs:
  assumes "mysql_run s role dir x bs = Inr (x', left, n, calls)" and "dir' \<noteq> dir"
  shows "msgs dir' (map Log calls) = []"
  using assms
proof (induction rule: mysql_run_induct)
  case (header x bs y c x' calls)
  have "msgs dir' (map Log c) = []"
    using header(1) assms(2) by (auto simp: mysql_header_def split: sum.splits dest: speak_mysql_msgs)
  then show ?case using header by simp
qed simp_all

lemma vwrite_same:
  assumes "vwrite_req s buf len st = Inr st'"
  shows "k_got st' = k_got st \<and> px_junk st' = px_junk st \<and> bb_disable_all st' = bb_disable_all st"
    and "rbuf (vfd_tab st' s) = rbuf (vfd_tab st s) \<and> rbuflen (vfd_tab st' s) = rbuflen (vfd_tab st s) \<and>
      rbufofs (vfd_tab st' s) = rbufofs (vfd_tab st s) \<and> rlastlen (vfd_tab st' s) = rlastlen (vfd_tab st s) \<and>
      tosend (vfd_tab st' s) = tosend (vfd_tab st s) \<and> ppwantmore (vfd_tab st' s) = ppwantmore (vfd_tab st s)"
  using assms by (auto simp: vwrite_req_def Let_def elim!: rbind_InrE split: option.splits if_splits)

lemma asked_mysql:
  assumes "d = Mysqlc \<or> d = Mysqls" and "mysql_read w' = mysql_read w" and "asked d junk s (DMysql w) n"
  shows "asked d junk s (DMysql w') n"
proof -
  from assms(3) obtain mem calls where m: "0 < n" "nat n \<le> length mem" "pp_read d junk s (DMysql w) mem (nat n) = Inr (DMysql w, - 1, calls)"
    by (auto simp: asked_def)
  then obtain x where sp: "speak_mysql s (mysql_role d) PP_READ (mysql_read w) mem (nat n) = Inr (x, - 1, calls)"
    by (cases "speak_mysql s (mysql_role d) PP_READ (mysql_read w) mem (nat n)") (auto simp: mysql_pp_read [OF assms(1)])
  with speak_mysql_waits [OF sp] have "pp_read d junk s (DMysql w') mem (nat n) = Inr (DMysql w', - 1, calls)"
    by (simp add: mysql_pp_read [OF assms(1)] assms(2))
  then show ?thesis using m(1,2) by (auto simp: asked_def)
qed

text \<open>A connection with everything the calls rely on and what they keep.\<close>

definition speaking :: "pp_dispatcher \<Rightarrow> int \<Rightarrow> (pp_direction \<Rightarrow> logcall list) \<Rightarrow> string \<Rightarrow> proc \<Rightarrow> bool" where
  "speaking d s base W st \<longleftrightarrow> (d = Mysqlc \<or> d = Mysqls) \<and> rd_ok d s st \<and> wr_ok d s st \<and> \<not> untraced s st \<and> told d s base W st"

lemma speaking_vwrite:
  assumes "speaking d s base W st" and "0 < n" and "n \<le> length buf" and "n + 4 \<le> VBUFSIZE"
  shows "\<exists>st'. vwrite_req s buf (int n) st = Inr st' \<and> speaking d s base (W @ take n buf) st' \<and> k_got st' s = k_got st s \<and> held s st' = held s st"
proof -
  from assms(1) obtain w R rc wc where t: "vf_data (vfd_tab st s) = DMysql w" "k_got st s = R @ rd_unread s st"
      "mysql_run s (mysql_role d) PP_READ mysql_side0 R = Inr (mysql_read w, [], 0, rc)"
      "mysql_run s (mysql_role d) PP_WRITE mysql_side0 W = Inr (mysql_write w, untaken s st, wbuflen (vfd_tab st s), wc)"
      "msgs PP_READ (px_log st) = base PP_READ @ msgs PP_READ (map Log rc)"
      "msgs PP_WRITE (px_log st) = base PP_WRITE @ msgs PP_WRITE (map Log wc)"
    and d: "d = Mysqlc \<or> d = Mysqls" and ok: "rd_ok d s st" "wr_ok d s st" "\<not> untraced s st"
    by (auto simp: speaking_def told_def)
  define p where "p = untaken s st"
  have lp: "wbuflen (vfd_tab st s) = length p" "length p < 4"
  proof -
    show "wbuflen (vfd_tab st s) = length p" using ok(2) by (simp add: p_def untaken_def wr_ok_def Let_def)
    show "length p < 4" using mysql_run_left [OF t(4)] by (auto simp: p_def)
  qed
  have conn: "mysql_conn d s w p st" using d ok(2) t(1) lp by (simp add: mysql_conn_def p_def)
  obtain x left calls where r: "mysql_run s (mysql_role d) PP_WRITE (mysql_write w) (p @ take n buf) = Inr (x, left, length left, calls)"
    using mysql_run_total by blast
  have ll: "length left \<le> VBUFSIZE" using mysql_run_left [OF r] by (auto simp: VBUFSIZE_def)
  have fit: "length p + n \<le> VBUFSIZE" using lp(2) assms(4) by simp
  from vwrite_mysql [OF conn assms(2,3) fit r ll] obtain st' where
    st': "vwrite_req s buf (int n) st = Inr st'" "mysql_conn d s (w\<lparr>mysql_write := x\<rparr>) left st'" "px_log st' = px_log st @ map Log calls" by blast
  have c: "vf_data (vfd_tab st' s) = DMysql (w\<lparr>mysql_write := x\<rparr>)" "untaken s st' = left" "wbuflen (vfd_tab st' s) = length left" "wr_ok d s st'"
    using st'(2) by (simp_all add: mysql_conn_def)
  note frame = vwrite_same [OF st'(1)]
  have same: "k_got st' s = k_got st s" "rd_unread s st' = rd_unread s st" "held s st' = held s st" "untraced s st' = untraced s st"
    by (simp_all add: frame rd_unread_def held_def untraced_def Let_def)
  have "mysql_run s (mysql_role d) PP_WRITE mysql_side0 (W @ take n buf) = Inr (x, left, length left, wc @ calls)"
    using t(4) r by (simp add: mysql_run_append p_def [symmetric])
  moreover have "msgs PP_READ (map Log calls) = []" by (rule mysql_run_msgs [OF r]) simp
  ultimately have told: "told d s base (W @ take n buf) st'"
    using t unfolding told_def
    by (intro exI [of _ "w\<lparr>mysql_write := x\<rparr>"] exI [of _ R] exI [of _ rc] exI [of _ "wc @ calls"]) (simp add: c same st'(3))
  have "rd_ok d s st'"
    using ok(1) c(1,4) asked_mysql [OF d, of "w\<lparr>mysql_write := x\<rparr>" w] t(1)
    by (auto simp: rd_ok_def wr_ok_def Let_def frame split: if_splits)
  then show ?thesis using st'(1) d c(4) ok(3) told same by (auto simp: speaking_def)
qed


section \<open>The program's calls\<close>

text \<open>A \<^verbatim>\<open>read\<close> with the kernel's answer, or a \<^verbatim>\<open>write\<close> with its return value.\<close>

datatype io = Read_call nat rdret | Write_call string int

fun run_io :: "int \<Rightarrow> io list \<Rightarrow> proc \<Rightarrow> (string \<times> proc) result" where
  "run_io s [] st = Inr ([], st)"
| "run_io s (Read_call len ans # ios) st =
     rbind (wrap_read s len ans st) (\<lambda>(_, out, st1). rbind (run_io s ios st1) (\<lambda>(outs, st2). Inr (out @ outs, st2)))"
| "run_io s (Write_call buf r # ios) st = rbind (wrap_write s buf r st) (\<lambda>(_, st1). run_io s ios st1)"

text \<open>Lengths fit an \<^verbatim>\<open>int\<close>; a write takes at most its data, and less than the copy holds.\<close>

fun io_ok :: "io \<Rightarrow> bool" where
  "io_ok (Read_call len ans) \<longleftrightarrow> len < 2 ^ 31"
| "io_ok (Write_call buf r) \<longleftrightarrow> - 1 \<le> r \<and> r \<le> int (length buf) \<and> r + 4 \<le> int VBUFSIZE"

fun written :: "io \<Rightarrow> string" where
  "written (Read_call len ans) = []"
| "written (Write_call buf r) = take (nat r) buf"

lemma speaking_read:
  assumes "speaking d s base W st" and "len < 2 ^ 31"
  shows "\<exists>r out st'. wrap_read s len ans st = Inr (r, out, st') \<and> speaking d s base W st' \<and>
     (\<exists>new. k_got st' s = k_got st s @ new \<and> held s st @ new = out @ held s st')"
proof -
  have d: "d = Mysqlc \<or> d = Mysqls" and ok: "rd_ok d s st" "wr_ok d s st" "\<not> untraced s st" "told d s base W st"
    using assms(1) by (simp_all add: speaking_def)
  have "framed d" using d by (auto simp: framed_def)
  note w = wrap_read_ok [OF this ok(1) assms(2) ok(3), of ans]
  have "\<not> pp_fails d st s e" for e
    using d by (auto simp: pp_fails_def as_state_def of_data_inverse pp_mysqlc_read_def pp_mysqls_read_def speak_mysql_def Let_def split: if_splits)
  with w obtain r out st' where r: "wrap_read s len ans st = Inr (r, out, st')" by (cases "wrap_read s len ans st") auto
  with w have k: "rd_ok d s st'" "reads_only s st st'" "read_fair s len ans st r out st'" "\<not> untraced s st'" by simp_all
  have "data_ok d (vf_data (vfd_tab st' s))" using k(1) by (simp add: rd_ok_def Let_def)
  then have "wr_ok d s st'" using ok(2) k(2) by (simp add: wr_ok_def reads_only_def Let_def)
  moreover have "told d s base W st'" by (rule told_wrap_read [OF d r ok(1,3,4)])
  ultimately show ?thesis using d r k by (auto simp: speaking_def read_fair_def)
qed

lemma speaking_same:
  assumes "speaking d s base W st" and "vfd_tab st' = vfd_tab st" and "k_got st' = k_got st" and "px_junk st' = px_junk st"
    and "bb_disable_all st' = bb_disable_all st" and "\<And>dir. msgs dir (px_log st') = msgs dir (px_log st)"
  shows "speaking d s base W st'"
proof -
  have "told d s base W st' = told d s base W st" by (rule told_cong) (simp_all add: assms rd_unread_def untaken_def)
  then show ?thesis using assms(1) view_cong(1) [of st' s st] by (simp add: speaking_def wr_ok_def untraced_def assms)
qed

lemma speaking_write:
  assumes "speaking d s base W st" and "io_ok (Write_call buf r)"
  shows "\<exists>x st'. wrap_write s buf r st = Inr (x, st') \<and> speaking d s base (W @ take (nat r) buf) st' \<and>
     k_got st' s = k_got st s \<and> held s st' = held s st"
proof -
  let ?st1 = "logs [Log (LOGBINii (SYS ''WRITE_BEGIN'') 0 s (int (length buf)))] st"
  have un: "\<not> untraced s st" using assms(1) by (simp add: speaking_def)
  have sp: "speaking d s base W ?st1" by (rule speaking_same [OF assms(1)]) (simp_all add: msg_sys_def)
  have r: "to_int32 r = r" using assms(2) by (intro to_int32_id) (simp_all add: VBUFSIZE_def)
  have "\<exists>st2. vwrite_req s buf r ?st1 = Inr st2 \<and> speaking d s base (W @ take (nat r) buf) st2 \<and> k_got st2 s = k_got st s \<and> held s st2 = held s st"
  proof (cases "0 < r")
    case True
    then have "0 < nat r" "nat r \<le> length buf" "nat r + 4 \<le> VBUFSIZE" "int (nat r) = r" using assms(2) by auto
    with speaking_vwrite [OF sp, of "nat r" buf] show ?thesis by (auto simp: held_def)
  next
    case False
    then have "vwrite_req s buf r ?st1 = Inr ?st1" by (simp add: vwrite_req_def Let_def split: option.splits)
    then show ?thesis using sp False by (simp add: held_def)
  qed
  then obtain st2 where st2: "vwrite_req s buf r ?st1 = Inr st2" "speaking d s base (W @ take (nat r) buf) st2"
    "k_got st2 s = k_got st s" "held s st2 = held s st" by blast
  let ?st3 = "logs [Log (LOGBINii (SYS ''WRITE'') r s (int (length buf)))] (clear_writable_cache s st2)"
  have "speaking d s base (W @ take (nat r) buf) ?st3" by (rule speaking_same [OF st2(2)]) (simp_all add: msg_sys_def)
  moreover have "wrap_write s buf r st = Inr (r, ?st3)" using un st2(1) by (simp add: wrap_write_def wrap_output_def r)
  ultimately show ?thesis using st2(3,4) by (simp add: held_def)
qed

lemma run_io_speaking:
  assumes "speaking d s base W st" and "list_all io_ok ios"
  shows "\<exists>got st'. run_io s ios st = Inr (got, st') \<and> speaking d s base (W @ concat (map written ios)) st' \<and>
     (\<exists>new. k_got st' s = k_got st s @ new \<and> held s st @ new = got @ held s st')"
  using assms
proof (induction ios arbitrary: W st)
  case (Cons c ios)
  show ?case
  proof (cases c)
    case (Read_call len ans)
    with speaking_read [OF Cons.prems(1), of len ans] Cons.prems(2) obtain r out st1 new where
      1: "wrap_read s len ans st = Inr (r, out, st1)" "speaking d s base W st1" "k_got st1 s = k_got st s @ new" "held s st @ new = out @ held s st1"
      by auto
    from Cons.IH [OF 1(2)] Cons.prems(2) obtain got st2 new2 where
      2: "run_io s ios st1 = Inr (got, st2)" "speaking d s base (W @ concat (map written ios)) st2"
        "k_got st2 s = k_got st1 s @ new2" "held s st1 @ new2 = got @ held s st2" by auto
    have "held s st @ (new @ new2) = (out @ got) @ held s st2" using 1(4) 2(4) by (metis append.assoc)
    then show ?thesis using 1 2 Read_call by auto
  next
    case (Write_call buf r)
    with speaking_write [OF Cons.prems(1), of buf r] Cons.prems(2) obtain x st1 where
      1: "wrap_write s buf r st = Inr (x, st1)" "speaking d s base (W @ take (nat r) buf) st1" "k_got st1 s = k_got st s" "held s st1 = held s st"
      by auto
    from Cons.IH [OF 1(2)] Cons.prems(2) show ?thesis using 1 Write_call by auto
  qed
qed simp


section \<open>What the events are\<close>

lemma fresh_speaking:
  assumes "d = Mysqlc \<or> d = Mysqls" and "fresh_conn d s st" and "vf_data (vfd_tab st s) = DMysql pp_mysql_common_init"
  shows "speaking d s (\<lambda>dir. msgs dir (px_log st)) [] st"
proof -
  have "told d s (\<lambda>dir. msgs dir (px_log st)) [] st" using assms(2,3)
    by (auto simp: told_def fresh_conn_def rd_unread_def untaken_def pp_mysql_common_init_def Let_def intro!: exI [of _ "[] :: string"])
  then show ?thesis using assms fresh_rd_ok(1) fresh_wr_ok(1) by (auto simp: speaking_def fresh_conn_def)
qed

text \<open>A run over whole packets.\<close>

lemma packets_run:
  assumes "list_all mysql_packet_ok ps" and "mysql_run s role dir mysql_side0 (concat (map mysql_packet ps)) = Inr (x, left, n, calls)"
  shows "left = []" and "msgs dir (map Log calls) = concat (map (mysql_event s role dir) ps)"
  using mysql_run_packets [OF assms(1), of mysql_side0 s role dir] assms(2) msgs_packet_logs by (auto simp: mysql_side0_def)

lemma write_msgs:
  assumes "speaking d s base W st" and "list_all mysql_packet_ok qs" and "W = concat (map mysql_packet qs)"
  shows "msgs PP_WRITE (px_log st) = base PP_WRITE @ concat (map (mysql_event s (mysql_role d) PP_WRITE) qs)"
  using assms packets_run(2) [OF assms(2)] by (auto simp: speaking_def told_def)

text \<open>
  When the program is owed nothing, the plugin has taken exactly what the program was given, or the program was given more: then
  the rest is the beginning of a header, and no whole packets.
\<close>

lemma read_msgs:
  assumes "speaking d s base W st" and "k_got st s = got @ held s st"
    and "list_all mysql_packet_ok ps" and "got = concat (map mysql_packet ps)" and "tosend (vfd_tab st s) = 0"
  shows "msgs PP_READ (px_log st) = base PP_READ @ concat (map (mysql_event s (mysql_role d) PP_READ) ps)"
proof -
  have d: "d = Mysqlc \<or> d = Mysqls" and ok: "rd_ok d s st" using assms(1) by (simp_all add: speaking_def)
  from assms(1) obtain w R rc where t: "vf_data (vfd_tab st s) = DMysql w" "k_got st s = R @ rd_unread s st"
      "mysql_run s (mysql_role d) PP_READ mysql_side0 R = Inr (mysql_read w, [], 0, rc)"
      "msgs PP_READ (px_log st) = base PP_READ @ msgs PP_READ (map Log rc)"
    by (auto simp: speaking_def told_def)
  have "R = got"
  proof (cases "ppwantmore (vfd_tab st s)")
    case False
    then have "rd_unread s st = held s st" using ok assms(5) by (simp add: rd_ok_def rd_unread_def held_def Let_def)
    then show ?thesis using t(2) assms(2) by simp
  next
    case True
    then have "held s st = []" "asked d (px_junk st) s (DMysql w) (int (length (rd_unread s st)))"
      using ok assms(5) t(1) by (auto simp: rd_ok_def rd_unread_def held_def Let_def)
    then obtain mem calls x where "0 < length (rd_unread s st)"
      "speak_mysql s (mysql_role d) PP_READ (mysql_read w) mem (length (rd_unread s st)) = Inr (x, - 1, calls)"
      by (auto simp: asked_def mysql_pp_read [OF d] elim!: rbind_InrE)
    then have "rd_unread s st \<noteq> []" "my_todo (mysql_read w) = 0" "length (rd_unread s st) < 4"
      by (auto simp: speak_mysql_def Let_def word_gt_0 split: if_splits)
    from mysql_run_wait [OF this] have "mysql_run s (mysql_role d) PP_READ mysql_side0 (R @ rd_unread s st) =
        Inr (mysql_read w, rd_unread s st, length (rd_unread s st), rc)"
      by (simp add: mysql_run_append t(3))
    moreover have "R @ rd_unread s st = concat (map mysql_packet ps)" using t(2) assms(2,4) \<open>held s st = []\<close> by simp
    ultimately show ?thesis using packets_run(1) [OF assms(3)] \<open>rd_unread s st \<noteq> []\<close> by metis
  qed
  then show ?thesis using packets_run(2) [OF assms(3)] t(3,4) assms(4) by simp
qed

section \<open>Properties\<close>

text \<open>
  C31: the messages of a MySQL connection are logged, one event per packet, as long as the packets and the calls are such that the
  plugin can follow.  On a connection that has just got
  its MySQL plugin, any sequence of reads, and of writes of which the kernel takes up to 65532 bytes each (\<open>io_ok\<close>: together with the part of a header held back these
  fit the copy of 64 KiB), returns, whatever lengths the program asks for and however the
  kernel cuts both streams.  When the program has read the packets \<open>ps\<close> and is owed nothing, the receive events
  logged are those of \<open>ps\<close> in order; when it has written the packets \<open>qs\<close>, the send events are those of \<open>qs\<close>.  The packets
  are those whose three length bytes are below 128 (\<open>mysql_packet_ok\<close>): of any larger byte the plugin takes the sign for the sign of the length
  (\<open>mysql_size_sign_extended\<close>) and does not find the end of the packet.
\<close>
theorem mysql_connection_logged:
  assumes "d = Mysqlc \<or> d = Mysqls" and "fresh_conn d s st" and "vf_data (vfd_tab st s) = DMysql pp_mysql_common_init"
    and "list_all io_ok ios"
  shows "\<exists>got st'. run_io s ios st = Inr (got, st') \<and>
     (\<forall>ps. list_all mysql_packet_ok ps \<and> got = concat (map mysql_packet ps) \<and> tosend (vfd_tab st' s) = 0 \<longrightarrow>
        msgs PP_READ (px_log st') = msgs PP_READ (px_log st) @ concat (map (mysql_event s (mysql_role d) PP_READ) ps)) \<and>
     (\<forall>qs. list_all mysql_packet_ok qs \<and> concat (map written ios) = concat (map mysql_packet qs) \<longrightarrow>
        msgs PP_WRITE (px_log st') = msgs PP_WRITE (px_log st) @ concat (map (mysql_event s (mysql_role d) PP_WRITE) qs))"
proof -
  from run_io_speaking [OF fresh_speaking [OF assms(1-3)] assms(4)] obtain got st' where
    run: "run_io s ios st = Inr (got, st')" and sp: "speaking d s (\<lambda>dir. msgs dir (px_log st)) (concat (map written ios)) st'"
    and k: "k_got st' s = got @ held s st'" using fresh_rd_ok(2) [OF assms(2)] assms(2) by (auto simp: fresh_conn_def)
  show ?thesis using run read_msgs [OF sp k] write_msgs [OF sp] by blast
qed


text \<open>A client that reads one packet, which arrives in one piece and is handed over in two, and sends one.\<close>

definition sample_ios :: "io list" where
  "sample_ios = [Read_call 9 (RdBytes (mysql_packet (2, ''r''))), Read_call 9 RdErr, Write_call (mysql_packet (0, ''q'')) 5]"

lemma sample_packets:
  "mysql_packet (0, ''q'') = [CHR 0x01, CHR 0x00, CHR 0x00, CHR 0x00, CHR ''q'']"
  "mysql_packet (2, ''r'') = [CHR 0x01, CHR 0x00, CHR 0x00, CHR 0x02, CHR ''r'']"
  by code_simp+

lemma sample_header:
  "speak_mysql 5 PP_MYSQLC_ID PP_READ mysql_side0 (CHR 0x01 # CHR 0x00 # CHR 0x00 # CHR 0x02 # rest) 5 =
     Inr (\<lparr>my_todo = 1, my_id = 2\<rparr>, 4, mysql_packet_logs 5 PP_MYSQLC_ID PP_READ (2, ''r''))"
  by (simp add: speak_mysql_def mysql_side0_def get_mysql_size_def schar_def Let_def mysql_packet_logs_def show_d_def show_int_def)

lemma sample_body: "speak_mysql 5 PP_MYSQLC_ID PP_READ \<lparr>my_todo = 1, my_id = 2\<rparr> mem (Suc 0) = Inr (\<lparr>my_todo = 0, my_id = 2\<rparr>, 1, [])"
  by (simp add: speak_mysql_def)

lemmas sample_unfold = wrap_read_def wrap_input_def untraced_def MAX_FDS_def virtual_read_def virtual_input_def refill_and_give_def
  buf_shift_def real_read_def present_pp_def give_def buf_ret_def Let_def VBUFSIZE_def poke_def peek_def as_state_def pp_mysqlc_read_def

lemma set_cache_debug: "debug_events (set_readable_cache s st) = debug_events st" "debug_events (clear_readable_cache s st) = debug_events st"
  by (simp_all add: set_readable_cache_def clear_readable_cache_def)

lemma quiet [simp]: "\<not> debug_events st \<Longrightarrow> show_buffer sc s st = st" "\<not> debug_events st \<Longrightarrow> short_log sc s st = st"
  by (simp_all add: show_buffer_def short_log_def Let_def)

definition read_calls :: "int \<Rightarrow> logcall list \<Rightarrow> logcall list" where
  "read_calls r calls = LOGBINii (SYS ''READ_BEGIN'') 0 5 9 # calls @ [LOGBINii (SYS ''READ'') r 5 9]"

definition sample_calls :: "logcall list" where
  "sample_calls = read_calls 4 (mysql_packet_logs 5 PP_MYSQLC_ID PP_READ (2, ''r'') @ [LOGBINii (SYS ''PP_ISO_READ'') 0 4 5]) @ read_calls 1 [] @
     [LOGBINii (SYS ''WRITE_BEGIN'') 0 5 5] @ mysql_packet_logs 5 PP_MYSQLC_ID PP_WRITE (0, ''q'') @ [LOGBINii (SYS ''WRITE'') 5 5 5]"

lemma sample_reads:
  "\<exists>st1 st2. wrap_read 5 9 (RdBytes (mysql_packet (2, ''r''))) sample_proc = Inr (4, [CHR 0x01, CHR 0x00, CHR 0x00, CHR 0x02], st1) \<and>
     wrap_read 5 9 RdErr st1 = Inr (1, ''r'', st2) \<and> tosend (vfd_tab st2 5) = 0 \<and>
     px_log st2 = map Log (read_calls 4 (mysql_packet_logs 5 PP_MYSQLC_ID PP_READ (2, ''r'') @ [LOGBINii (SYS ''PP_ISO_READ'') 0 4 5]) @ read_calls 1 [])"
proof -
  have i: "to_int32 9 = 9" by (rule to_int32_id) simp_all
  have v: "vfd_tab sample_proc 5 = vfd0\<lparr>vf_dispatcher := Some Mysqlc, vf_data := DMysql pp_mysql_common_init\<rparr>" "\<not> bb_disable_all sample_proc"
    "\<not> debug_events sample_proc" "px_log sample_proc = []"
    by (simp_all add: sample_proc_def proc0_def)
  have "\<exists>st1 rest. wrap_read 5 9 (RdBytes (mysql_packet (2, ''r''))) sample_proc = Inr (4, [CHR 0x01, CHR 0x00, CHR 0x00, CHR 0x02], st1) \<and>
     vfd_tab st1 5 = (vfd_tab sample_proc 5)\<lparr>rbuf := mysql_packet (2, ''r'') @ rest, rbuflen := 5, rbufofs := 4, rlastlen := 4,
        vf_data := DMysql (pp_mysql_common_init\<lparr>mysql_read := \<lparr>my_todo = 1, my_id = 2\<rparr>\<rparr>)\<rparr> \<and> bb_disable_all st1 = False \<and> debug_events st1 = False \<and>
     px_log st1 = map Log (read_calls 4 (mysql_packet_logs 5 PP_MYSQLC_ID PP_READ (2, ''r'') @ [LOGBINii (SYS ''PP_ISO_READ'') 0 4 5]))"
    by (simp add: sample_unfold v vfd0_def sample_packets sample_header pp_mysql_common_init_def i set_cache_debug read_calls_def)
  then obtain st1 rest where 1: "wrap_read 5 9 (RdBytes (mysql_packet (2, ''r''))) sample_proc = Inr (4, [CHR 0x01, CHR 0x00, CHR 0x00, CHR 0x02], st1)"
    "vfd_tab st1 5 = (vfd_tab sample_proc 5)\<lparr>rbuf := mysql_packet (2, ''r'') @ rest, rbuflen := 5, rbufofs := 4, rlastlen := 4,
        vf_data := DMysql (pp_mysql_common_init\<lparr>mysql_read := \<lparr>my_todo = 1, my_id = 2\<rparr>\<rparr>)\<rparr>" "bb_disable_all st1 = False" "debug_events st1 = False"
    "px_log st1 = map Log (read_calls 4 (mysql_packet_logs 5 PP_MYSQLC_ID PP_READ (2, ''r'') @ [LOGBINii (SYS ''PP_ISO_READ'') 0 4 5]))" by blast
  have "\<exists>st2. wrap_read 5 9 RdErr st1 = Inr (1, ''r'', st2) \<and> tosend (vfd_tab st2 5) = 0 \<and> px_log st2 = px_log st1 @ map Log (read_calls 1 [])"
    by (simp add: sample_unfold 1(2-4) v vfd0_def sample_packets sample_body i pp_mysql_common_init_def set_cache_debug read_calls_def)
  then show ?thesis using 1(1,5) by auto
qed

lemma wrap_write_tosend: "wrap_write s buf r st = Inr (x, st') \<Longrightarrow> tosend (vfd_tab st' s) = tosend (vfd_tab st s)"
  by (auto simp: wrap_write_def wrap_output_def elim!: rbind_InrE split: if_splits dest!: vwrite_same(2))

text \<open>The first packet that is written in one piece.\<close>

lemma first_write_logs:
  assumes "speaking d s base [] st" and "mysql_packet_ok p" and "length (mysql_packet p) + 4 \<le> VBUFSIZE"
    and "wrap_write s (mysql_packet p) (int (length (mysql_packet p))) st = Inr (x, st')"
  shows "px_log st' = px_log st @ map Log ([LOGBINii (SYS ''WRITE_BEGIN'') 0 s (int (length (mysql_packet p)))] @
     mysql_packet_logs s (mysql_role d) PP_WRITE p @ [LOGBINii (SYS ''WRITE'') (int (length (mysql_packet p))) s (int (length (mysql_packet p)))])"
proof -
  let ?m = "mysql_packet p"
  let ?n = "length ?m"
  let ?st1 = "logs [Log (LOGBINii (SYS ''WRITE_BEGIN'') 0 s (int ?n))] st"
  have sp: "speaking d s base [] ?st1" by (rule speaking_same [OF assms(1)]) (simp_all add: msg_sys_def)
  then obtain w where w: "vf_data (vfd_tab st s) = DMysql w" "mysql_write w = mysql_side0" "untaken s st = []" "wbuflen (vfd_tab st s) = 0"
      "wr_ok d s ?st1" "d = Mysqlc \<or> d = Mysqls" "\<not> untraced s st"
    by (auto simp: speaking_def told_def untaken_def untraced_def)
  have conn: "mysql_conn d s w [] ?st1" using w by (simp add: mysql_conn_def untaken_def)
  have pos: "0 < ?n" by (simp add: mysql_packet_def)
  from mysql_run_packets [of "[p]" mysql_side0 s "mysql_role d" PP_WRITE] assms(2) obtain y where
    "mysql_run s (mysql_role d) PP_WRITE mysql_side0 ?m = Inr (y, [], 0, mysql_packet_logs s (mysql_role d) PP_WRITE p)"
    by (auto simp: mysql_side0_def)
  with vwrite_mysql [OF conn pos order_refl, where x = y and left = "[]"] assms(3) w(2) obtain st2 where
    v: "vwrite_req s ?m (int ?n) ?st1 = Inr st2" "px_log st2 = px_log ?st1 @ map Log (mysql_packet_logs s (mysql_role d) PP_WRITE p)" by auto
  have "to_int32 (int ?n) = int ?n" using assms(3) by (intro to_int32_id) (simp_all add: VBUFSIZE_def)
  with assms(4) w(7) v show ?thesis by (auto simp: wrap_write_def wrap_output_def)
qed

lemma sample_run:
  "\<exists>st'. run_io 5 sample_ios sample_proc = Inr (mysql_packet (2, ''r''), st') \<and> tosend (vfd_tab st' 5) = 0 \<and> px_log st' = map Log sample_calls"
proof -
  obtain st1 st2 where r: "wrap_read 5 9 (RdBytes (mysql_packet (2, ''r''))) sample_proc = Inr (4, [CHR 0x01, CHR 0x00, CHR 0x00, CHR 0x02], st1)"
    "wrap_read 5 9 RdErr st1 = Inr (1, ''r'', st2)" "tosend (vfd_tab st2 5) = 0"
    "px_log st2 = map Log (read_calls 4 (mysql_packet_logs 5 PP_MYSQLC_ID PP_READ (2, ''r'') @ [LOGBINii (SYS ''PP_ISO_READ'') 0 4 5]) @ read_calls 1 [])"
    using sample_reads by blast
  let ?base = "\<lambda>dir. msgs dir (px_log sample_proc)"
  have "speaking Mysqlc 5 ?base [] sample_proc" by (rule fresh_speaking [OF _ sample_fresh]) (simp_all add: sample_proc_def)
  from speaking_read [OF this, of 9 "RdBytes (mysql_packet (2, ''r''))"] have "speaking Mysqlc 5 ?base [] st1"
    by (simp add: r(1) del: One_nat_def)
  from speaking_read [OF this, of 9 RdErr] have sp: "speaking Mysqlc 5 ?base [] st2" by (simp add: r(2))
  have w: "mysql_packet_ok (0, ''q'')" "length (mysql_packet (0, ''q'')) = 5" by (simp_all add: mysql_packet_ok_def plain_size_def sample_packets)
  from speaking_write [OF sp, of "mysql_packet (0, ''q'')" 5] w(2) obtain x st3 where
    3: "wrap_write 5 (mysql_packet (0, ''q'')) 5 st2 = Inr (x, st3)" by (auto simp: VBUFSIZE_def)
  from first_write_logs [OF sp w(1)] w(2) 3 have "px_log st3 = map Log sample_calls"
    by (simp add: sample_calls_def r(4) VBUFSIZE_def)
  moreover have "tosend (vfd_tab st3 5) = 0" using wrap_write_tosend [OF 3] r(3) by simp
  moreover have "run_io 5 sample_ios sample_proc = Inr (mysql_packet (2, ''r''), st3)"
    using 3 by (simp add: sample_ios_def sample_packets r(1,2) [unfolded sample_packets])
  ultimately show ?thesis by blast
qed

theorem mysql_connection_logged_witness:
  "\<exists>st'. run_io 5 sample_ios sample_proc = Inr (mysql_packet (2, ''r''), st') \<and>
     msgs PP_READ (px_log st') = [LOGBINiiis (SYS ''PP_MSG_RECV'') 0 PP_MYSQLC_ID 5 2 ''mysqlc''] \<and>
     msgs PP_WRITE (px_log st') = [LOGBINiiis (SYS ''PP_MSG_SEND'') 0 PP_MYSQLC_ID 5 0 ''mysqlc'']"
proof -
  have d: "vf_data (vfd_tab sample_proc 5) = DMysql pp_mysql_common_init" "px_log sample_proc = []"
    by (simp_all add: sample_proc_def proc0_def)
  have ok: "list_all io_ok sample_ios" by (simp add: sample_ios_def sample_packets VBUFSIZE_def)
  obtain st' where run: "run_io 5 sample_ios sample_proc = Inr (mysql_packet (2, ''r''), st')" "tosend (vfd_tab st' 5) = 0" using sample_run by blast
  from mysql_connection_logged [OF _ sample_fresh d(1) ok] run(1) have
    rd: "list_all mysql_packet_ok ps \<Longrightarrow> mysql_packet (2, ''r'') = concat (map mysql_packet ps) \<Longrightarrow> tosend (vfd_tab st' 5) = 0 \<Longrightarrow>
        msgs PP_READ (px_log st') = concat (map (mysql_event 5 (mysql_role Mysqlc) PP_READ) ps)"
    and wr: "list_all mysql_packet_ok qs \<Longrightarrow> concat (map written sample_ios) = concat (map mysql_packet qs) \<Longrightarrow>
        msgs PP_WRITE (px_log st') = concat (map (mysql_event 5 (mysql_role Mysqlc) PP_WRITE) qs)" for ps qs
    by (auto simp: d(2))
  have p: "mysql_packet_ok (2, ''r'')" "mysql_packet_ok (0, ''q'')" by (simp_all add: mysql_packet_ok_def plain_size_def)
  have w: "concat (map written sample_ios) = concat (map mysql_packet [(0, ''q'')])" by (simp add: sample_ios_def sample_packets)
  show ?thesis using run rd [of "[(2, ''r'')]"] wr [of "[(0, ''q'')]"] p w
    by (simp add: mysql_event_def mysql_log_def Let_def PP_MYSQLC_ID_def PP_MYSQLS_ID_def)
qed

end
