(* ===== verification/Pf_Module.thy ===== *)
theory Pf_Module
  imports Timeval
begin

text \<open>
  The kernel module \<^verbatim>\<open>src/pfdura/pfdura-mod.c\<close>: it keeps a bit vector of the processes to watch, which the
  files \<^verbatim>\<open>on\<close> and \<^verbatim>\<open>off\<close> of its debugfs directory change, and writes a record to a relay channel when a
  watched process enters and leaves the page fault handler.

  \<^verbatim>\<open>PID_MAX_DEFAULT\<close> and \<^verbatim>\<open>simple_strtol\<close> belong to the kernel and are parameters, \<open>pmax\<close> and \<open>strtol_k\<close>.
  The latter gives for the bytes it is applied to the value and the number of bytes converted.
  What the kernel answers to an allocation is an argument.
\<close>

section \<open>State\<close>

record pfdura_t =
  pfd_tgid :: int
  pfd_pid :: int
  pfd_complete :: int
  pfd_tv :: timeval

text \<open>
  \<open>debugfs\<close> lists the entries the module has in the file system, \<open>pm_relay\<close> the records in the channel.
  A pointer of the source is whether it is set.
\<close>

record pfmod =
  track_pids :: "64 word list"
  chan :: bool
  dir :: bool
  pid_on :: bool
  pid_off :: bool
  entry_suspended :: bool
  exit_suspended :: bool
  kp_entry :: bool
  kp_exit :: bool
  debugfs :: "string list"
  pm_relay :: "pfdura_t list"
  printk :: "string list"

definition say :: "string \<Rightarrow> pfmod \<Rightarrow> pfmod" where
  "say msg st = st\<lparr>printk := printk st @ [''pfdura-mod: '' @ msg @ [LF]]\<rparr>"

definition EINVAL :: int where "EINVAL = 22"
definition EFAULT :: int where "EFAULT = 14"
definition ENOMEM :: int where "ENOMEM = 12"

section \<open>The bit vector\<close>

text \<open>The number of words of \<^verbatim>\<open>track_pids\<close>.\<close>

definition pid_words :: "nat \<Rightarrow> nat" where
  "pid_words pmax = pmax div 8 div 8"

definition no_pids :: "nat \<Rightarrow> 64 word list" where
  "no_pids pmax = replicate (pid_words pmax) 0"

text \<open>A bit number outside the vector is an access outside the array.\<close>

definition at_bit :: "int \<Rightarrow> 64 word list \<Rightarrow> 'a \<Rightarrow> 'a result" where
  "at_bit nr v r = (if 0 \<le> nr \<and> nr < 64 * int (length v) then Inr r else Inl OutOfBounds)"

definition set_pid :: "nat \<Rightarrow> 64 word list \<Rightarrow> 64 word list" where
  "set_pid n v = v[n div 64 := Bit_Operations.set_bit (n mod 64) (v ! (n div 64))]"

definition clear_pid :: "nat \<Rightarrow> 64 word list \<Rightarrow> 64 word list" where
  "clear_pid n v = v[n div 64 := unset_bit (n mod 64) (v ! (n div 64))]"

definition test_pid :: "nat \<Rightarrow> 64 word list \<Rightarrow> bool" where
  "test_pid n v \<longleftrightarrow> bit (v ! (n div 64)) (n mod 64)"

section \<open>The control files\<close>

text \<open>
  \<^verbatim>\<open>get_pid_from_buf\<close>: the number returned, as the \<^verbatim>\<open>size_t\<close> it is, and what is stored in \<^verbatim>\<open>*pid\<close>.  Sixteen
  bytes leave no terminator in \<^verbatim>\<open>buf\<close>: if the conversion does not stop inside the array it reads on.
  \<open>uncopied\<close> is the answer of \<^verbatim>\<open>copy_from_user\<close>.
\<close>

definition get_pid_from_buf :: "(string \<Rightarrow> int \<times> nat) \<Rightarrow> string \<Rightarrow> nat \<Rightarrow> (64 word \<times> int option) result" where
  "get_pid_from_buf strtol_k buffer uncopied =
     (let count = length buffer in
      if 16 < count then Inr (word_of_int (- EINVAL), None)
      else let buf = buffer @ replicate (16 - count) NUL in
      if uncopied \<noteq> 0 then Inr (word_of_int (- EFAULT), None)
      else case strtol_k buf of (pid, tmp) \<Rightarrow>
        if length buf \<le> tmp then Inl OutOfBounds
        else if tmp = 0 then Inr (word_of_int (- EINVAL), Some pid)
        else Inr (of_nat count, Some pid))"

text \<open>\<open>with_pid\<close> is the common beginning of the two handlers: the error returns and the range check.
  A \<open>count\<close> that equals an error number would go on with a \<^verbatim>\<open>pid\<close> that was never stored.\<close>

definition with_pid ::
  "(string \<Rightarrow> int \<times> nat) \<Rightarrow> nat \<Rightarrow> string \<Rightarrow> nat \<Rightarrow> pfmod \<Rightarrow> (int \<Rightarrow> (int \<times> pfmod) result) \<Rightarrow> (int \<times> pfmod) result" where
  "with_pid strtol_k pmax buffer uncopied st act =
     rbind (get_pid_from_buf strtol_k buffer uncopied) (\<lambda>(r, pid).
       if r \<noteq> of_nat (length buffer) then Inr (sint r, st)
       else case pid of None \<Rightarrow> Inl OutOfBounds
            | Some p \<Rightarrow> if int pmax \<le> p then Inr (- EINVAL, say ''invalid PID'' st) else act p)"

definition pid_on_write :: "(string \<Rightarrow> int \<times> nat) \<Rightarrow> nat \<Rightarrow> string \<Rightarrow> nat \<Rightarrow> pfmod \<Rightarrow> (int \<times> pfmod) result" where
  "pid_on_write strtol_k pmax buffer uncopied st =
     with_pid strtol_k pmax buffer uncopied st (\<lambda>pid.
       at_bit pid (track_pids st)
         (int (length buffer), say (''tracking '' @ show_int pid) (st\<lparr>track_pids := set_pid (nat pid) (track_pids st)\<rparr>)))"

definition pid_off_write :: "(string \<Rightarrow> int \<times> nat) \<Rightarrow> nat \<Rightarrow> string \<Rightarrow> nat \<Rightarrow> pfmod \<Rightarrow> (int \<times> pfmod) result" where
  "pid_off_write strtol_k pmax buffer uncopied st =
     with_pid strtol_k pmax buffer uncopied st (\<lambda>pid.
       if pid = 0
       then Inr (int (length buffer), say ''stopped tracking all PIDs'' (st\<lparr>track_pids := no_pids pmax\<rparr>))
       else at_bit pid (track_pids st)
         (if \<not> test_pid (nat pid) (track_pids st)
          then (- EINVAL, say (''error: not tracking PID '' @ show_int pid) st)
          else (int (length buffer), say (''stopped tracking '' @ show_int pid) (st\<lparr>track_pids := clear_pid (nat pid) (track_pids st)\<rparr>))))"

section \<open>The probes\<close>

text \<open>
  The task that runs, \<^verbatim>\<open>current\<close>, and the clock are arguments, and so is the answer of the kernel to \<^verbatim>\<open>relay_write\<close>:
  a channel whose buffers are all full and not yet read drops the record, and the module is not told.
\<close>

definition relay_write :: "bool \<Rightarrow> pfdura_t \<Rightarrow> pfmod \<Rightarrow> pfmod" where
  "relay_write room pfd st = (if room then st\<lparr>pm_relay := pm_relay st @ [pfd]\<rparr> else st)"

definition entry_probe :: "nat \<Rightarrow> int \<Rightarrow> int \<Rightarrow> timeval \<Rightarrow> bool \<Rightarrow> pfmod \<Rightarrow> pfmod result" where
  "entry_probe pmax tgid pid now room st =
     (if int pmax \<le> tgid
      then Inr (if entry_suspended st then st else say ''current PID is out of range!'' st\<lparr>entry_suspended := True\<rparr>)
      else let st1 = st\<lparr>entry_suspended := False\<rparr> in
        at_bit tgid (track_pids st)
          (if \<not> test_pid (nat tgid) (track_pids st) then st1
           else relay_write room \<lparr>pfd_tgid = tgid, pfd_pid = pid, pfd_complete = 0, pfd_tv = now\<rparr> st1))"

definition exit_probe :: "nat \<Rightarrow> int \<Rightarrow> int \<Rightarrow> timeval \<Rightarrow> bool \<Rightarrow> pfmod \<Rightarrow> pfmod result" where
  "exit_probe pmax tgid pid now room st =
     (if int pmax \<le> tgid
      then Inr (if exit_suspended st then st else say ''current PID is out of range!'' st\<lparr>exit_suspended := True\<rparr>)
      else let st1 = st\<lparr>exit_suspended := False\<rparr> in
        at_bit tgid (track_pids st)
          (if \<not> test_pid (nat tgid) (track_pids st) then st1
           else relay_write room \<lparr>pfd_tgid = tgid, pfd_pid = pid, pfd_complete = 1, pfd_tv = now\<rparr> st1))"

section \<open>Loading and unloading\<close>

text \<open>\<^verbatim>\<open>debugfs_remove\<close>: a directory that is not empty stays, without a word.  The files of the module are in its directory.\<close>

definition debugfs_remove :: "string \<Rightarrow> pfmod \<Rightarrow> pfmod" where
  "debugfs_remove f st =
     (let others = filter (\<lambda>g. g \<noteq> f) (debugfs st)
      in if f = ''pfdura'' \<and> others \<noteq> [] then st else st\<lparr>debugfs := others\<rparr>)"

definition create_buf_file_handler :: "string \<Rightarrow> bool \<Rightarrow> pfmod \<Rightarrow> bool \<times> pfmod" where
  "create_buf_file_handler filename ok st = (ok, if ok then st\<lparr>debugfs := debugfs st @ [filename]\<rparr> else st)"

definition remove_buf_file_handler :: "string \<Rightarrow> pfmod \<Rightarrow> int \<times> pfmod" where
  "remove_buf_file_handler filename st = (0, debugfs_remove filename st)"

definition cleanup_all :: "pfmod \<Rightarrow> pfmod" where
  "cleanup_all st =
     (let st1 = (if pid_on st then (debugfs_remove ''on'' st)\<lparr>pid_on := False\<rparr> else st);
          st2 = (if pid_off st1 then (debugfs_remove ''off'' st1)\<lparr>pid_off := False\<rparr> else st1)
      in if dir st2 then (debugfs_remove ''pfdura'' st2)\<lparr>dir := False\<rparr> else st2)"

lemma debugfs_remove_simps [simp]:
  "track_pids (debugfs_remove f st) = track_pids st" "chan (debugfs_remove f st) = chan st" "dir (debugfs_remove f st) = dir st"
  "pid_on (debugfs_remove f st) = pid_on st" "pid_off (debugfs_remove f st) = pid_off st"
  "kp_entry (debugfs_remove f st) = kp_entry st" "kp_exit (debugfs_remove f st) = kp_exit st" "pm_relay (debugfs_remove f st) = pm_relay st"
  by (simp_all add: debugfs_remove_def Let_def)

lemma debugfs_removed [simp]:
  "debugfs (debugfs_remove f st) =
     (if f = ''pfdura'' \<and> filter (\<lambda>g. g \<noteq> f) (debugfs st) \<noteq> [] then debugfs st else filter (\<lambda>g. g \<noteq> f) (debugfs st))"
  (is "_ = (if ?full then _ else _)")
proof (cases ?full)
  case True
  have "debugfs_remove f st = st" unfolding debugfs_remove_def Let_def using True by (rule if_P)
  then show ?thesis by (simp only: if_P [OF True])
next
  case False
  have "debugfs_remove f st = st\<lparr>debugfs := filter (\<lambda>g. g \<noteq> f) (debugfs st)\<rparr>"
    unfolding debugfs_remove_def Let_def using False by (rule if_not_P)
  then have "debugfs (debugfs_remove f st) = filter (\<lambda>g. g \<noteq> f) (debugfs st)" by simp
  then show ?thesis by (simp only: if_not_P [OF False])
qed

text \<open>
  What the kernel answers while the module is loaded: whether each object can be created.  The relay
  channel calls back for the file of its buffer and cannot be opened without it.  Whether the probes are in place
  afterwards is not looked at.
\<close>

record loading =
  ld_dir :: bool
  ld_on :: bool
  ld_off :: bool
  ld_buf :: bool
  ld_chan :: bool
  ld_kp_entry :: bool
  ld_kp_exit :: bool

definition init_module :: "nat \<Rightarrow> loading \<Rightarrow> pfmod \<Rightarrow> int \<times> pfmod" where
  "init_module pmax k st =
     (let fail = (\<lambda>msg s. (- ENOMEM, cleanup_all (say msg s)));
          st0 = st\<lparr>track_pids := no_pids pmax\<rparr>;
          st1 = st0\<lparr>dir := ld_dir k, debugfs := debugfs st0 @ (if ld_dir k then [''pfdura''] else [])\<rparr>
      in if \<not> ld_dir k then fail ''debugfs_create_dir() failed'' st1
      else let st2 = st1\<lparr>pid_on := ld_on k, debugfs := debugfs st1 @ (if ld_on k then [''on''] else [])\<rparr>
      in if \<not> ld_on k then fail ''debugfs_create_file() failed'' st2
      else let st3 = st2\<lparr>pid_off := ld_off k, debugfs := debugfs st2 @ (if ld_off k then [''off''] else [])\<rparr>
      in if \<not> ld_off k then fail ''debugfs_create_file() failed'' st3
      else let (buf, st4) = (if ld_chan k then create_buf_file_handler ''cpu0'' (ld_buf k) st3 else (False, st3));
               st5 = st4\<lparr>chan := buf\<rparr>
      in if \<not> buf then fail ''relay_open() failed'' st5
      else (0, say ''probes registered'' (st5\<lparr>kp_entry := ld_kp_entry k, kp_exit := ld_kp_exit k\<rparr>)))"

text \<open>Closing the channel removes its file through the callback and drops the records.\<close>

definition relay_close :: "pfmod \<Rightarrow> pfmod" where
  "relay_close st = (snd (remove_buf_file_handler ''cpu0'' st))\<lparr>pm_relay := []\<rparr>"

definition cleanup_module :: "nat \<Rightarrow> pfmod \<Rightarrow> pfmod" where
  "cleanup_module pmax st =
     (let st1 = st\<lparr>kp_entry := False, kp_exit := False, track_pids := no_pids pmax\<rparr>;
          st2 = (relay_close st1)\<lparr>chan := False\<rparr>
      in say ''probes unregistered'' (cleanup_all st2))"

section \<open>The bit vector is a set of process numbers\<close>

text \<open>What the module relies on: a vector for the numbers below \<open>cap\<close> with insertion, removal and test.\<close>

locale pid_vector =
  fixes wf :: "'v \<Rightarrow> bool" and cap :: nat and emp :: 'v
    and ins del :: "nat \<Rightarrow> 'v \<Rightarrow> 'v" and mem :: "nat \<Rightarrow> 'v \<Rightarrow> bool"
  assumes wf_emp: "wf emp"
    and wf_ins: "wf v \<Longrightarrow> n < cap \<Longrightarrow> wf (ins n v)"
    and wf_del: "wf v \<Longrightarrow> n < cap \<Longrightarrow> wf (del n v)"
    and mem_emp: "n < cap \<Longrightarrow> \<not> mem n emp"
    and mem_ins: "wf v \<Longrightarrow> n < cap \<Longrightarrow> m < cap \<Longrightarrow> mem m (ins n v) \<longleftrightarrow> m = n \<or> mem m v"
    and mem_del: "wf v \<Longrightarrow> n < cap \<Longrightarrow> m < cap \<Longrightarrow> mem m (del n v) \<longleftrightarrow> m \<noteq> n \<and> mem m v"
begin

lemma members_emp: "{m. m < cap \<and> mem m emp} = {}"
  using mem_emp by auto

lemma members_ins: "wf v \<Longrightarrow> n < cap \<Longrightarrow> {m. m < cap \<and> mem m (ins n v)} = insert n {m. m < cap \<and> mem m v}"
  using mem_ins by auto

lemma members_del: "wf v \<Longrightarrow> n < cap \<Longrightarrow> {m. m < cap \<and> mem m (del n v)} = {m. m < cap \<and> mem m v} - {n}"
  using mem_del by auto

end

definition pids_ok :: "nat \<Rightarrow> 64 word list \<Rightarrow> bool" where
  "pids_ok pmax v \<longleftrightarrow> length v = pid_words pmax"

definition members :: "64 word list \<Rightarrow> nat set" where
  "members v = {n. n < 64 * length v \<and> test_pid n v}"

lemma same_bit:
  fixes m n :: nat
  shows "m div 64 = n div 64 \<Longrightarrow> m mod 64 = n mod 64 \<longleftrightarrow> m = n"
  by (metis div_mult_mod_eq)

lemma test_set_pid: "n < 64 * length v \<Longrightarrow> test_pid m (set_pid n v) \<longleftrightarrow> m = n \<or> test_pid m v"
  using same_bit [of m n]
  by (cases "m div 64 = n div 64") (auto simp: test_pid_def set_pid_def bit_simps less_mult_imp_div_less mult.commute)

lemma test_clear_pid: "n < 64 * length v \<Longrightarrow> test_pid m (clear_pid n v) \<longleftrightarrow> m \<noteq> n \<and> test_pid m v"
  using same_bit [of m n]
  by (cases "m div 64 = n div 64") (auto simp: test_pid_def clear_pid_def bit_simps less_mult_imp_div_less mult.commute)

interpretation pids: pid_vector "pids_ok pmax" "64 * pid_words pmax" "no_pids pmax" set_pid clear_pid test_pid
proof unfold_locales
  show "\<not> test_pid n (no_pids pmax)" if "n < 64 * pid_words pmax" for n
    using that by (simp add: test_pid_def no_pids_def less_mult_imp_div_less mult.commute)
qed (simp_all add: pids_ok_def no_pids_def test_set_pid test_clear_pid, simp_all add: set_pid_def clear_pid_def)

lemma members_eq: "pids_ok pmax v \<Longrightarrow> members v = {n. n < 64 * pid_words pmax \<and> test_pid n v}"
  by (simp add: members_def pids_ok_def)

lemma members_no_pids [simp]: "members (no_pids pmax) = {}"
  using members_eq [OF pids.wf_emp] pids.members_emp by simp

section \<open>The module in operation\<close>

text \<open>
  The documented behaviour of the kernel that the module relies on: decimal digits are converted up to the first
  byte that is not a digit, and the largest process number is a multiple of 64, at most four millions
  (\<^verbatim>\<open>PID_MAX_LIMIT\<close>).
\<close>

definition converts_decimal :: "(string \<Rightarrow> int \<times> nat) \<Rightarrow> bool" where
  "converts_decimal strtol_k \<longleftrightarrow>
     (\<forall>n t. n < 2 ^ 63 \<longrightarrow> t \<noteq> [] \<longrightarrow> \<not> is_digit (hd t) \<longrightarrow> strtol_k (show_nat n @ t) = (int n, length (show_nat n)))"

definition pid_limit :: "nat \<Rightarrow> bool" where
  "pid_limit pmax \<longleftrightarrow> 64 dvd pmax \<and> pmax \<le> 2 ^ 22"

definition unloaded :: "pfmod \<Rightarrow> bool" where
  "unloaded st \<longleftrightarrow> \<not> chan st \<and> \<not> dir st \<and> \<not> pid_on st \<and> \<not> pid_off st \<and> \<not> kp_entry st \<and> \<not> kp_exit st \<and>
     debugfs st = [] \<and> pm_relay st = [] \<and> members (track_pids st) = {}"

definition installed :: "pfmod \<Rightarrow> bool" where
  "installed st \<longleftrightarrow> chan st \<and> dir st \<and> pid_on st \<and> pid_off st \<and> debugfs st = [''pfdura'', ''on'', ''off'', ''cpu0'']"

text \<open>What happens to a loaded module: bytes are written to a control file, or a task begins or ends a page fault, with or without room in the channel.\<close>

datatype mod_call = OnWrite string nat | OffWrite string nat | Enter int int timeval bool | Leave int int timeval bool

fun mod_step :: "(string \<Rightarrow> int \<times> nat) \<Rightarrow> nat \<Rightarrow> mod_call \<Rightarrow> pfmod \<Rightarrow> pfmod result" where
  "mod_step strtol_k pmax (OnWrite b u) st = rbind (pid_on_write strtol_k pmax b u st) (\<lambda>(r, st'). Inr st')"
| "mod_step strtol_k pmax (OffWrite b u) st = rbind (pid_off_write strtol_k pmax b u st) (\<lambda>(r, st'). Inr st')"
| "mod_step strtol_k pmax (Enter t p tv room) st = (if kp_entry st then entry_probe pmax t p tv room st else Inr st)"
| "mod_step strtol_k pmax (Leave t p tv room) st = (if kp_exit st then exit_probe pmax t p tv room st else Inr st)"

text \<open>The calls that a use of the module consists of: the numbers are written as the programs write them.\<close>

datatype watch_event = Watch nat | Unwatch nat | Begin nat int timeval bool | End nat int timeval bool

fun call_of :: "watch_event \<Rightarrow> mod_call" where
  "call_of (Watch n) = OnWrite (show_int (int n)) 0"
| "call_of (Unwatch n) = OffWrite (show_int (int n)) 0"
| "call_of (Begin t p tv room) = Enter (int t) p tv room"
| "call_of (End t p tv room) = Leave (int t) p tv room"

text \<open>What it means: a set of processes and the records of the faults of its members, of those there was room for.\<close>

fun watching :: "watch_event \<Rightarrow> nat set \<times> pfdura_t list \<Rightarrow> nat set \<times> pfdura_t list" where
  "watching (Watch n) (S, R) = (insert n S, R)"
| "watching (Unwatch n) (S, R) = (if n = 0 then {} else S - {n}, R)"
| "watching (Begin t p tv room) (S, R) = (S, R @ (if t \<in> S \<and> room then [\<lparr>pfd_tgid = int t, pfd_pid = p, pfd_complete = 0, pfd_tv = tv\<rparr>] else []))"
| "watching (End t p tv room) (S, R) = (S, R @ (if t \<in> S \<and> room then [\<lparr>pfd_tgid = int t, pfd_pid = p, pfd_complete = 1, pfd_tv = tv\<rparr>] else []))"

fun event_pid :: "watch_event \<Rightarrow> nat" where
  "event_pid (Watch n) = n"
| "event_pid (Unwatch n) = n"
| "event_pid (Begin t p tv room) = t"
| "event_pid (End t p tv room) = t"

lemma say_simps [simp]:
  "track_pids (say m st) = track_pids st" "chan (say m st) = chan st" "dir (say m st) = dir st"
  "pid_on (say m st) = pid_on st" "pid_off (say m st) = pid_off st" "kp_entry (say m st) = kp_entry st"
  "kp_exit (say m st) = kp_exit st" "debugfs (say m st) = debugfs st" "pm_relay (say m st) = pm_relay st"
  by (simp_all add: say_def)

lemma length_show_nat: "n < 10 ^ k \<Longrightarrow> 0 < k \<Longrightarrow> length (show_nat n) \<le> k"
proof (induction n arbitrary: k rule: show_nat.induct)
  case (1 n)
  show ?case
  proof (cases "n < 10")
    case False
    then have "1 < k" using "1.prems" by (cases "k = 1") auto
    then obtain k' where k: "k = Suc k'" "0 < k'" by (cases k) auto
    then have "n div 10 < 10 ^ k'" using "1.prems" by (simp add: less_mult_imp_div_less mult.commute)
    with "1.IH" False k show ?thesis by (simp add: show_nat.simps [of n])
  qed (use "1.prems" in \<open>simp add: show_nat.simps [of n]\<close>)
qed

lemma converts_decimalD:
  "converts_decimal strtol_k \<Longrightarrow> n < 2 ^ 63 \<Longrightarrow> t \<noteq> [] \<Longrightarrow> \<not> is_digit (hd t) \<Longrightarrow>
   strtol_k (show_nat n @ t) = (int n, length (show_nat n))"
  unfolding converts_decimal_def by blast

lemma get_pid_decimal:
  assumes "converts_decimal strtol_k" and "pid_limit pmax" and "n < pmax"
  shows "get_pid_from_buf strtol_k (show_nat n) 0 = Inr (of_nat (length (show_nat n)), Some (int n))"
proof -
  have n: "n < 2 ^ 22" using assms(2,3) by (simp add: pid_limit_def)
  then have l: "length (show_nat n) \<le> 7" by (intro length_show_nat) simp_all
  have "\<not> is_digit NUL" by (simp add: is_digit_def)
  then have "strtol_k (show_nat n @ replicate (16 - length (show_nat n)) NUL) = (int n, length (show_nat n))"
    using n l by (intro converts_decimalD [OF assms(1)]) (auto simp: hd_replicate)
  with l show ?thesis by (simp add: get_pid_from_buf_def)
qed

lemma with_pid_decimal:
  assumes "converts_decimal strtol_k" and "pid_limit pmax" and "n < pmax"
  shows "with_pid strtol_k pmax (show_nat n) 0 st act = act (int n)"
  using assms(3) by (simp add: with_pid_def get_pid_decimal [OF assms])

lemma pid_capacity: "pid_limit pmax \<Longrightarrow> 64 * pid_words pmax = pmax"
  by (auto simp: pid_limit_def pid_words_def div_mult2_eq [symmetric])

text \<open>One event of a loaded module is one event of the set.\<close>

definition in_service :: "nat \<Rightarrow> pfmod \<Rightarrow> bool" where
  "in_service pmax st \<longleftrightarrow> installed st \<and> kp_entry st \<and> kp_exit st \<and> pids_ok pmax (track_pids st)"

definition watch_state :: "pfmod \<Rightarrow> nat set \<times> pfdura_t list" where
  "watch_state st = (members (track_pids st), pm_relay st)"

lemma mod_step_watching:
  assumes "converts_decimal strtol_k" and "pid_limit pmax" and "in_service pmax st" and "event_pid ev < pmax"
  shows "\<exists>st'. mod_step strtol_k pmax (call_of ev) st = Inr st' \<and> in_service pmax st' \<and> watch_state st' = watching ev (watch_state st)"
proof -
  let ?v = "track_pids st"
  note cap = pid_capacity [OF assms(2)]
  have ok: "pids_ok pmax ?v" and here: "event_pid ev < 64 * length ?v"
    using assms(3,4) cap by (simp_all add: in_service_def pids_ok_def)
  note m = members_eq [OF ok, unfolded cap] members_eq [OF pids.wf_ins [OF ok, unfolded cap], unfolded cap]
    members_eq [OF pids.wf_del [OF ok, unfolded cap], unfolded cap]
  note sets = pids.members_ins [OF ok, unfolded cap] pids.members_del [OF ok, unfolded cap]
  note defs = at_bit_def in_service_def installed_def watch_state_def show_int_def with_pid_decimal [OF assms(1,2)] m
  show ?thesis
  proof (cases ev)
    case (Watch n)
    then show ?thesis using assms(3,4) here pids.wf_ins [OF ok, of n] cap sets
      by (simp add: pid_on_write_def defs)
  next
    case (Unwatch n)
    then show ?thesis using assms(3,4) here pids.wf_del [OF ok, of n] pids.wf_emp [of pmax] cap sets
      by (auto simp: pid_off_write_def defs)
  next
    case (Begin t p tv room)
    then show ?thesis using assms(3,4) here cap by (auto simp: entry_probe_def relay_write_def Let_def defs)
  next
    case (End t p tv room)
    then show ?thesis using assms(3,4) here cap by (auto simp: exit_probe_def relay_write_def Let_def defs)
  qed
qed

lemma mod_run_watching:
  assumes "converts_decimal strtol_k" and "pid_limit pmax" and "in_service pmax st" and "list_all (\<lambda>ev. event_pid ev < pmax) evs"
  shows "\<exists>st'. run_all (mod_step strtol_k pmax) (map call_of evs) st = Inr st' \<and> in_service pmax st' \<and>
     watch_state st' = fold watching evs (watch_state st)"
  using assms(3,4)
proof (induction evs arbitrary: st)
  case (Cons ev evs)
  from mod_step_watching [OF assms(1,2) Cons.prems(1), of ev] Cons.prems(2) obtain st1 where
    "mod_step strtol_k pmax (call_of ev) st = Inr st1" "in_service pmax st1" "watch_state st1 = watching ev (watch_state st)" by auto
  with Cons.IH [of st1] Cons.prems(2) show ?case by simp
qed simp

section \<open>Loading and unloading\<close>

lemma init_module_cases:
  assumes "unloaded st"
  shows "case init_module pmax k st of (r, st') \<Rightarrow>
     if ld_dir k \<and> ld_on k \<and> ld_off k \<and> ld_chan k \<and> ld_buf k
     then r = 0 \<and> installed st' \<and> kp_entry st' = ld_kp_entry k \<and> kp_exit st' = ld_kp_exit k \<and> track_pids st' = no_pids pmax \<and> pm_relay st' = []
     else r = - ENOMEM \<and> unloaded st'"
  using assms
  by (auto simp: init_module_def create_buf_file_handler_def cleanup_all_def unloaded_def installed_def Let_def split: prod.splits)

lemma write_keeps_installed:
  assumes "with_pid strtol_k pmax b u st act = Inr (r, st')" and "installed st"
    and "\<And>p r st'. act p = Inr (r, st') \<Longrightarrow> installed st'"
  shows "installed st'"
  using assms(1,2) assms(3) [of _ r st']
  by (auto simp: with_pid_def installed_def split: if_splits prod.splits option.splits elim!: rbind_InrE)

lemma mod_step_installed:
  assumes "mod_step strtol_k pmax c st = Inr st'" and "installed st"
  shows "installed st'"
proof (cases c)
  case (OnWrite b u)
  with assms show ?thesis
    by (auto simp: pid_on_write_def elim!: rbind_InrE write_keeps_installed) (auto simp: at_bit_def installed_def split: if_splits)
next
  case (OffWrite b u)
  with assms show ?thesis
    by (auto simp: pid_off_write_def elim!: rbind_InrE write_keeps_installed) (auto simp: at_bit_def installed_def split: if_splits)
qed (use assms in \<open>auto simp: entry_probe_def exit_probe_def relay_write_def at_bit_def installed_def Let_def split: if_splits\<close>)

lemma mod_run_installed: "run_all (mod_step strtol_k pmax) cs st = Inr st' \<Longrightarrow> installed st \<Longrightarrow> installed st'"
  by (induction cs arbitrary: st) (auto elim!: rbind_InrE dest: mod_step_installed)

lemma cleanup_module_unloaded: "installed st \<Longrightarrow> unloaded (cleanup_module pmax st)"
  by (simp add: cleanup_module_def relay_close_def remove_buf_file_handler_def cleanup_all_def installed_def unloaded_def)

section \<open>Properties\<close>

text \<open>
  C20: the module is a set of processes with a list of their page faults.  After the module was loaded and its
  probes were placed, any sequence of process numbers written to \<^verbatim>\<open>on\<close> and \<^verbatim>\<open>off\<close>, in the notation of the programs that write
  them, and of page faults leaves exactly the processes in the vector that were switched on and not off since (0
  switches all off), and exactly the records of the faults of processes that were on at that time, in order, but for those the relay channel had no
  room for; no access leaves the vector.
\<close>
theorem module_watches_set:
  assumes "converts_decimal strtol_k" and "pid_limit pmax" and "unloaded st" and "init_module pmax k st = (0, st1)"
    and "ld_kp_entry k \<and> ld_kp_exit k" and "list_all (\<lambda>ev. event_pid ev < pmax) evs"
  shows "\<exists>st2. run_all (mod_step strtol_k pmax) (map call_of evs) st1 = Inr st2 \<and> watch_state st2 = fold watching evs ({}, [])"
proof -
  have "installed st1 \<and> kp_entry st1 \<and> kp_exit st1 \<and> track_pids st1 = no_pids pmax \<and> pm_relay st1 = []"
    using init_module_cases [OF assms(3), where pmax = pmax and k = k] assms(4,5) by (auto simp: ENOMEM_def split: if_splits)
  then have "in_service pmax st1" and "watch_state st1 = ({}, [])"
    using pids.wf_emp [of pmax] by (simp_all add: in_service_def watch_state_def)
  with mod_run_watching [OF assms(1,2) _ assms(6), of st1] show ?thesis by auto
qed

definition k_strtol :: "string \<Rightarrow> int \<times> nat" where
  "k_strtol s =
     (let neg = (s \<noteq> [] \<and> hd s = CHR ''-''); ds = takeWhile is_digit (if neg then tl s else s) in
      (if neg then - int (dec_val ds) else int (dec_val ds), (if neg then 1 else 0) + length ds))"

lemma k_strtol_converts: "converts_decimal k_strtol"
proof -
  have "k_strtol (show_nat n @ t) = (int n, length (show_nat n))" if "t \<noteq> []" "\<not> is_digit (hd t)" for n t
  proof -
    obtain c cs where c: "show_nat n = c # cs" by (cases "show_nat n") auto
    then have "c \<noteq> CHR ''-''" using show_nat_digits [of c n] is_digit_not_sign by auto
    moreover have "takeWhile is_digit (show_nat n @ t) = show_nat n"
      using that by (cases t) (simp_all add: takeWhile_append2 show_nat_digits)
    ultimately show ?thesis using dec_val_show_nat [of n] by (simp add: k_strtol_def c)
  qed
  then show ?thesis by (simp add: converts_decimal_def)
qed

definition module0 :: pfmod where
  "module0 = \<lparr> track_pids = no_pids 32768, chan = False, dir = False, pid_on = False, pid_off = False, entry_suspended = False,
     exit_suspended = False, kp_entry = False, kp_exit = False, debugfs = [], pm_relay = [], printk = [] \<rparr>"

definition loads :: loading where
  "loads = \<lparr> ld_dir = True, ld_on = True, ld_off = True, ld_buf = True, ld_chan = True, ld_kp_entry = True, ld_kp_exit = True \<rparr>"

lemma module0_unloaded: "unloaded module0"
  by (simp add: unloaded_def module0_def)

lemma module0_loads: "init_module 32768 loads module0 = (0, snd (init_module 32768 loads module0))"
  using init_module_cases [OF module0_unloaded, where pmax = 32768 and k = loads] by (simp add: loads_def split: prod.splits)

theorem module_watches_set_witness:
  "\<exists>st2. run_all (mod_step k_strtol 32768) (map call_of [Begin 70 71 (Timeval 5 1) True, Watch 70, Begin 70 71 (Timeval 5 2) True, Begin 8 8 (Timeval 5 3) True,
       End 70 71 (Timeval 5 9) True, Begin 70 71 (Timeval 5 12) False, Unwatch 70, Begin 70 70 (Timeval 6 0) True]) (snd (init_module 32768 loads module0)) = Inr st2 \<and>
     watch_state st2 = ({}, [\<lparr>pfd_tgid = 70, pfd_pid = 71, pfd_complete = 0, pfd_tv = Timeval 5 2\<rparr>,
                             \<lparr>pfd_tgid = 70, pfd_pid = 71, pfd_complete = 1, pfd_tv = Timeval 5 9\<rparr>])"
proof -
  have "pid_limit 32768" "ld_kp_entry loads \<and> ld_kp_exit loads" by (simp_all add: pid_limit_def loads_def)
  from module_watches_set [OF k_strtol_converts this(1) module0_unloaded module0_loads this(2),
      of "[Begin 70 71 (Timeval 5 1) True, Watch 70, Begin 70 71 (Timeval 5 2) True, Begin 8 8 (Timeval 5 3) True,
       End 70 71 (Timeval 5 9) True, Begin 70 71 (Timeval 5 12) False, Unwatch 70, Begin 70 70 (Timeval 6 0) True]"]
  show ?thesis by (simp del: map_eq_Cons_conv list.map)
qed

text \<open>
  C21: loading is all or nothing, and unloading removes everything.  If one of the objects cannot be created, \<^verbatim>\<open>init_module\<close>
  reports \<^verbatim>\<open>-ENOMEM\<close> and leaves no file, no channel, no probe and no tracked process; otherwise,
  after whatever was written to the control files, well formed or not, and whatever faults
  occurred, \<^verbatim>\<open>cleanup_module\<close> leaves nothing behind.
\<close>
theorem module_leaves_nothing:
  assumes "unloaded st" and "init_module pmax k st = (r, st1)"
  shows "if r = 0 then \<forall>cs st2. run_all (mod_step strtol_k pmax) cs st1 = Inr st2 \<longrightarrow> unloaded (cleanup_module pmax st2)
         else r = - ENOMEM \<and> unloaded st1"
  using init_module_cases [OF assms(1), where pmax = pmax and k = k] assms(2) mod_run_installed cleanup_module_unloaded
  by (auto simp: ENOMEM_def split: if_splits)

theorem module_leaves_nothing_witness:
  "unloaded (cleanup_module 32768 (snd (init_module 32768 loads module0))) \<and>
   fst (init_module 32768 (loads\<lparr>ld_off := False\<rparr>) module0) = - ENOMEM \<and> unloaded (snd (init_module 32768 (loads\<lparr>ld_off := False\<rparr>) module0))"
proof -
  have f: "fst (init_module 32768 (loads\<lparr>ld_off := False\<rparr>) module0) = - ENOMEM"
    using init_module_cases [OF module0_unloaded, where pmax = 32768 and k = "loads\<lparr>ld_off := False\<rparr>"] by (simp add: loads_def split: prod.splits)
  moreover have "unloaded (cleanup_module 32768 (snd (init_module 32768 loads module0)))"
    using module_leaves_nothing [OF module0_unloaded module0_loads, where strtol_k = k_strtol] run_all.simps(1) by (metis (full_types))
  moreover have "unloaded (snd (init_module 32768 (loads\<lparr>ld_off := False\<rparr>) module0))"
    using module_leaves_nothing [OF module0_unloaded, where pmax = 32768 and k = "loads\<lparr>ld_off := False\<rparr>" and r = "- ENOMEM" and strtol_k = k_strtol] f
    by (cases "init_module 32768 (loads\<lparr>ld_off := False\<rparr>) module0") (auto simp: ENOMEM_def)
  ultimately show ?thesis by simp
qed

text \<open>
  The range check of the control files has no lower bound.  A negative number
  that the kernel converts from at most sixteen bytes makes either handler access a bit before the beginning of the vector.
\<close>
lemma negative_pid_leaves_vector:
  assumes "length b \<le> 16" and "strtol_k (b @ replicate (16 - length b) NUL) = (p, n)" and "0 < n" and "n < 16" and "p < 0"
  shows "pid_on_write strtol_k pmax b 0 st = Inl OutOfBounds \<and> pid_off_write strtol_k pmax b 0 st = Inl OutOfBounds"
  using assms by (simp add: pid_on_write_def pid_off_write_def with_pid_def get_pid_from_buf_def at_bit_def)

end
