(* ===== verification/Pf_Feed.thy ===== *)
theory Pf_Feed
  imports Pf_Module Vfd_Proc
begin

text \<open>
  The two readers of the records of the page fault module: \<^verbatim>\<open>src/trace/pf.c\<close>, which sends the slow faults as log
  entries to the log daemon, and \<^verbatim>\<open>src/pfdura/pfdura.c\<close>, which prints the faults of one process.  The lemmas
  show which entries \<^verbatim>\<open>pf\<close> sends and that a session of \<^verbatim>\<open>pfdura\<close> switches its process on and off.
\<close>

section \<open>Reading the feed\<close>

text \<open>
  The answers to \<^verbatim>\<open>read\<close>: a whole record, fewer bytes, the end of what there is, or an error number.  A read that
  does not fail leaves \<^verbatim>\<open>errno\<close> alone, and \<^verbatim>\<open>errno\<close> decides about a short read as well.
\<close>

datatype feedret = Record pfdura_t | ShortRead nat | FeedEnd | FeedErr int

definition EINTR :: int where "EINTR = 4"

text \<open>The checks both readers make: the record, nothing (the loop goes on), or the exit, and \<^verbatim>\<open>errno\<close>.\<close>

definition feed_read :: "feedret \<Rightarrow> int \<Rightarrow> (pfdura_t option \<times> int) result" where
  "feed_read rc errno =
     (case rc of
        Record pfd \<Rightarrow> Inr (Some pfd, errno)
      | FeedEnd \<Rightarrow> Inr (None, errno)
      | ShortRead n \<Rightarrow> if n = 0 \<or> errno = EINTR then Inr (None, errno) else Inl (Exit 1)
      | FeedErr e \<Rightarrow> if e = EINTR then Inr (None, e) else Inl (Exit 1))"

section \<open>pf.c\<close>

datatype wret = WErr int | WOk nat

text \<open>\<open>last_tvs\<close> is the array of 65536 times; \<open>pf_sent\<close> what the socket of the log has taken.\<close>

record pf =
  logfd :: int
  last_tvs :: "nat \<Rightarrow> timeval"
  pf_errno :: int
  pf_conn :: "(string \<times> nat) list"
  pf_writes :: "wret list"
  pf_sent :: string

definition at_tgid :: "int \<Rightarrow> 'a result \<Rightarrow> 'a result" where
  "at_tgid tgid r = (if 0 \<le> tgid \<and> tgid < 65536 then r else Inl OutOfBounds)"

text \<open>\<^verbatim>\<open>write(logfd, buf, sz)\<close>: the result is not looked at.\<close>

definition pf_write :: "string \<Rightarrow> pf \<Rightarrow> pf result" where
  "pf_write buf st =
     (case pf_writes st of
        [] \<Rightarrow> Inl Blocked
      | WErr e # ws \<Rightarrow> Inr (st\<lparr>pf_writes := ws, pf_errno := e\<rparr>)
      | WOk n # ws \<Rightarrow> Inr (st\<lparr>pf_writes := ws, pf_sent := pf_sent st @ take n buf\<rparr>))"

text \<open>The entry of a record at a time; \<^verbatim>\<open>memset\<close> has cleared the rest.\<close>

definition fault_entry :: "(sysid \<Rightarrow> int) \<Rightarrow> string \<Rightarrow> pfdura_t \<Rightarrow> timeval \<Rightarrow> logentry_thaw" where
  "fault_entry sysno name pfd tv =
     \<lparr> th_fz = \<lparr> fz_tid = word_of_int (pfd_pid pfd), fz_pid = word_of_int (pfd_tgid pfd),
                 fz_cycle_high = word_of_int (tv_sec tv), fz_cycle_low = word_of_int (tv_usec tv),
                 fz_sc = word_of_int (sysno (SYS name)), fz_rv = 0, fz_nm = CHR ''_'', fz_arg_len = 0, fz_str_len = 0,
                 fz_padding = replicate 4 NUL \<rparr>,
       th_str = None, th_arg = [0, 0, 0] \<rparr>"

definition fault_us :: "timeval \<Rightarrow> timeval \<Rightarrow> int" where
  "fault_us prev tv =
     (let diff_sec = tv_sec tv - tv_sec prev;
          us = (if diff_sec > 0 then diff_sec * 1000 * 1000 else 0)
      in us + (tv_usec tv - tv_usec prev))"

definition send_fault :: "(sysid \<Rightarrow> int) \<Rightarrow> pfdura_t \<Rightarrow> timeval \<Rightarrow> pf \<Rightarrow> pf result" where
  "send_fault sysno pfd prev st =
     (let le = fault_entry sysno ''PAGEFAULT_BEGIN'' pfd prev;
          sz = frozen_size (th_fz le)
      in rbind (freeze le sz) (\<lambda>buf.
         rbind (pf_write buf st) (\<lambda>st1.
         rbind (freeze (fault_entry sysno ''PAGEFAULT_END'' pfd (pfd_tv pfd)) sz) (\<lambda>buf'.
           pf_write buf' st1))))"

text \<open>The body of the loop of \<^verbatim>\<open>reader_thr\<close>.\<close>

definition pf_step :: "(sysid \<Rightarrow> int) \<Rightarrow> feedret \<Rightarrow> pf \<Rightarrow> pf result" where
  "pf_step sysno rc st =
     rbind (feed_read rc (pf_errno st)) (\<lambda>(r, errno).
       let st1 = st\<lparr>pf_errno := errno\<rparr> in
       case r of None \<Rightarrow> Inr st1
       | Some pfd \<Rightarrow> at_tgid (pfd_tgid pfd)
           (let i = nat (pfd_tgid pfd) in
            if pfd_complete pfd = 0 then Inr (st1\<lparr>last_tvs := (last_tvs st1)(i := pfd_tv pfd)\<rparr>)
            else if fault_us (last_tvs st1 i) (pfd_tv pfd) > 100 then send_fault sysno pfd (last_tvs st1 i) st1
            else Inr st1))"

text \<open>Before the loop: the connection to the log daemon, and the times are cleared.\<close>

definition pf_connect :: "string list \<Rightarrow> kernel \<Rightarrow> pf \<Rightarrow> pf result" where
  "pf_connect env k st =
     (if k_socket k < 0 then Inl (Exit (- 1))
      else if k_connect k < 0 then Inl (Exit (- 1))
      else Inr (st\<lparr>logfd := k_socket k, pf_conn := pf_conn st @ [logd_addr env], last_tvs := (\<lambda>_. Timeval 0 0)\<rparr>))"

definition pf_reader_thr :: "(sysid \<Rightarrow> int) \<Rightarrow> string list \<Rightarrow> kernel \<Rightarrow> feedret list \<Rightarrow> pf \<Rightarrow> pf result" where
  "pf_reader_thr sysno env k feed st = rbind (pf_connect env k st) (run_all (pf_step sysno) feed)"

text \<open>
  \<^verbatim>\<open>main\<close>: the status and the descriptors it closes.  \<open>sigs\<close> are the answers of \<^verbatim>\<open>sigwait\<close>, its return value and the signal;
  \<open>lfd\<close> is the value of \<^verbatim>\<open>logfd\<close> when the signal arrives.
\<close>

definition SIGINT :: int where "SIGINT = 2"
definition SIGTERM :: int where "SIGTERM = 15"

fun pf_wait :: "int \<Rightarrow> int \<Rightarrow> (int \<times> int) list \<Rightarrow> (int \<times> int list) result" where
  "pf_wait rfd lfd [] = Inl Blocked"
| "pf_wait rfd lfd ((r, sig) # sigs) =
     (if r \<noteq> 0 then Inr (0, [])
      else if sig = SIGINT \<or> sig = SIGTERM then Inr (0, (if lfd > 0 then [lfd] else []) @ [rfd])
      else pf_wait rfd lfd sigs)"

definition pf_main :: "int \<Rightarrow> int \<Rightarrow> int \<Rightarrow> (int \<times> int) list \<Rightarrow> (int \<times> int list) result" where
  "pf_main rfd created lfd sigs =
     (if rfd < 0 then Inr (- 1, [])
      else if created < 0 then Inr (- 1, [rfd])
      else pf_wait rfd lfd sigs)"

section \<open>pfdura.c\<close>

text \<open>The state of the program: \<^verbatim>\<open>errno\<close> and what it has printed.\<close>

definition pfdura_line :: "pfdura_t \<Rightarrow> string" where
  "pfdura_line pfd =
     ''TGID: '' @ show_int (pfd_tgid pfd) @ [TAB] @ ''PID: '' @ show_int (pfd_pid pfd) @ [TAB] @
     (if pfd_complete pfd \<noteq> 0 then ''end'' else ''begin'') @ [TAB] @
     ''['' @ show_int (tv_sec (pfd_tv pfd)) @ ''.'' @ show_int (tv_usec (pfd_tv pfd)) @ '']'' @ [LF]"

definition pfdura_step :: "feedret \<Rightarrow> int \<times> string \<Rightarrow> (int \<times> string) result" where
  "pfdura_step rc st =
     (case st of (errno, out) \<Rightarrow>
        rbind (feed_read rc errno) (\<lambda>(r, errno').
          Inr (errno', out @ (case r of None \<Rightarrow> [] | Some pfd \<Rightarrow> pfdura_line pfd))))"

text \<open>\<^verbatim>\<open>control_write\<close>: the path and the bytes written; \<open>fd\<close> and \<open>rc\<close> are the answers of \<^verbatim>\<open>open\<close> and \<^verbatim>\<open>write\<close>.\<close>

definition control_write :: "string \<Rightarrow> string \<Rightarrow> int \<Rightarrow> int \<times> int \<Rightarrow> (string \<times> string) result" where
  "control_write dirname filename val ans =
     (case ans of (fd, rc) \<Rightarrow>
        if fd < 0 then Inl (Exit 1)
        else if rc < 0 then Inl (Exit 1)
        else Inr (dirname @ ''/'' @ filename, show_int val))"

definition pfdura_dir :: string where
  "pfdura_dir = ''/mnt/relay/pfdura''"

text \<open>The end of \<^verbatim>\<open>main\<close>: \<open>None\<close> where it is left without a status.\<close>

fun pfdura_wait :: "int \<Rightarrow> int \<times> int \<Rightarrow> (int \<times> int) list \<Rightarrow> (int option \<times> (string \<times> string) list) result" where
  "pfdura_wait pid off [] = Inl Blocked"
| "pfdura_wait pid off ((r, sig) # sigs) =
     (if r \<noteq> 0 then Inr (None, [])
      else if sig = SIGINT \<or> sig = SIGTERM
      then rbind (control_write pfdura_dir ''off'' pid off) (\<lambda>w. Inr (Some 0, [w]))
      else pfdura_wait pid off sigs)"

definition pfdura_main ::
  "string list \<Rightarrow> int \<Rightarrow> int \<Rightarrow> int \<times> int \<Rightarrow> int \<times> int \<Rightarrow> (int \<times> int) list \<Rightarrow> (int option \<times> (string \<times> string) list) result" where
  "pfdura_main argv rfd created on off sigs =
     (if length argv \<noteq> 2 \<or> snd (scan_int (argv ! 1)) = [] then Inl (Exit 0)
      else let pid = strtol (argv ! 1) in
      if rfd < 0 then Inr (Some (- 1), [])
      else if created < 0 then Inr (Some (- 1), [])
      else rbind (control_write pfdura_dir ''on'' pid on) (\<lambda>w.
           rbind (pfdura_wait pid off sigs) (\<lambda>(status, ws). Inr (status, w # ws))))"

section \<open>Which faults are reported\<close>

text \<open>
  The time at which a process was last seen to begin a fault, if it was, and the entries of a fault of more than
  100 microseconds, by its begin and end.  \<open>slow_faults\<close> is what there is to report: the ends that lie late after a
  begin.  \<open>pf_reports\<close> is what \<^verbatim>\<open>pf\<close> takes them for: as its table is cleared to zeros, an end without any begin
  counts as the end of a fault that began at time 0.
\<close>

definition last_begin :: "nat \<Rightarrow> pfdura_t list \<Rightarrow> timeval option" where
  "last_begin t recs = map_option pfd_tv (find (\<lambda>r. pfd_complete r = 0 \<and> pfd_tgid r = int t) (rev recs))"

definition fault_pair :: "(sysid \<Rightarrow> int) \<Rightarrow> pfdura_t \<Rightarrow> timeval \<Rightarrow> logentry_thaw list" where
  "fault_pair sysno r began =
     (if pfd_complete r \<noteq> 0 \<and> 100 < micros (pfd_tv r) - micros began
      then [fault_entry sysno ''PAGEFAULT_BEGIN'' r began, fault_entry sysno ''PAGEFAULT_END'' r (pfd_tv r)] else [])"

definition slow_fault :: "(sysid \<Rightarrow> int) \<Rightarrow> pfdura_t list \<Rightarrow> pfdura_t \<Rightarrow> logentry_thaw list" where
  "slow_fault sysno before r =
     (case last_begin (nat (pfd_tgid r)) before of None \<Rightarrow> [] | Some began \<Rightarrow> fault_pair sysno r began)"

definition table_time :: "nat \<Rightarrow> pfdura_t list \<Rightarrow> timeval" where
  "table_time t recs = (case last_begin t recs of None \<Rightarrow> Timeval 0 0 | Some began \<Rightarrow> began)"

definition reports :: "(sysid \<Rightarrow> int) \<Rightarrow> pfdura_t list \<Rightarrow> pfdura_t \<Rightarrow> logentry_thaw list" where
  "reports sysno before r = fault_pair sysno r (table_time (nat (pfd_tgid r)) before)"

definition along :: "(pfdura_t list \<Rightarrow> pfdura_t \<Rightarrow> logentry_thaw list) \<Rightarrow> pfdura_t list \<Rightarrow> logentry_thaw list" where
  "along f recs = concat (map (\<lambda>i. f (take i recs) (recs ! i)) [0..<length recs])"

definition slow_faults :: "(sysid \<Rightarrow> int) \<Rightarrow> pfdura_t list \<Rightarrow> logentry_thaw list" where
  "slow_faults sysno = along (slow_fault sysno)"

definition pf_reports :: "(sysid \<Rightarrow> int) \<Rightarrow> pfdura_t list \<Rightarrow> logentry_thaw list" where
  "pf_reports sysno = along (reports sysno)"

text \<open>Every end has a begin before it.\<close>

definition all_begun :: "pfdura_t list \<Rightarrow> bool" where
  "all_begun recs \<longleftrightarrow> (\<forall>i < length recs. pfd_complete (recs ! i) \<noteq> 0 \<longrightarrow> last_begin (nat (pfd_tgid (recs ! i))) (take i recs) \<noteq> None)"

lemma along_snoc: "along f (recs @ [r]) = along f recs @ f recs r"
  by (auto simp: along_def nth_append intro!: arg_cong [where f = concat])

lemma along_Nil [simp]: "along f [] = []"
  by (simp add: along_def)

lemma all_begun_reports:
  assumes "all_begun recs"
  shows "pf_reports sysno recs = slow_faults sysno recs"
proof -
  have "reports sysno before r = slow_fault sysno before r" if "pfd_complete r \<noteq> 0 \<longrightarrow> last_begin (nat (pfd_tgid r)) before \<noteq> None" for before r
    using that by (cases "last_begin (nat (pfd_tgid r)) before") (auto simp: reports_def slow_fault_def table_time_def fault_pair_def)
  then have "map (\<lambda>i. reports sysno (take i recs) (recs ! i)) [0..<length recs] = map (\<lambda>i. slow_fault sysno (take i recs) (recs ! i)) [0..<length recs]"
    using assms by (intro map_cong refl) (auto simp: all_begun_def)
  then show ?thesis unfolding pf_reports_def slow_faults_def along_def by (rule arg_cong)
qed

lemma end_without_begin_reported:
  assumes "pfd_complete r \<noteq> 0" and "last_begin (nat (pfd_tgid r)) recs = None" and "100 < micros (pfd_tv r)"
  shows "slow_fault sysno recs r = [] \<and> reports sysno recs r =
     [fault_entry sysno ''PAGEFAULT_BEGIN'' r (Timeval 0 0), fault_entry sysno ''PAGEFAULT_END'' r (pfd_tv r)]"
  using assms by (simp add: slow_fault_def reports_def table_time_def fault_pair_def micros_def)

lemma last_begin_snoc:
  "last_begin t (recs @ [r]) = (if pfd_complete r = 0 \<and> pfd_tgid r = int t then Some (pfd_tv r) else last_begin t recs)"
  by (simp add: last_begin_def)

lemma table_time_snoc:
  "table_time t (recs @ [r]) = (if pfd_complete r = 0 \<and> pfd_tgid r = int t then pfd_tv r else table_time t recs)"
  by (simp add: table_time_def last_begin_snoc)

lemma table_time_cases: "table_time t recs = Timeval 0 0 \<or> table_time t recs \<in> pfd_tv ` set recs"
  by (induction recs rule: rev_induct) (auto simp: table_time_snoc, simp add: table_time_def last_begin_def)

lemma fault_entry_wf [simp]: "wf_thaw (fault_entry sysno name pfd tv)"
  by (simp add: wf_thaw_def wf_frozen_def fault_entry_def arg_count_def str_count_def numeral_3_eq_3)

lemma fault_entry_size: "frozen_size (th_fz (fault_entry sysno name pfd tv)) = 32"
  by (simp add: frozen_size_eq fault_entry_def arg_count_def str_count_def)

lemma pf_reports_wf: "list_all wf_thaw (pf_reports sysno recs)"
  by (auto simp: pf_reports_def along_def reports_def fault_pair_def list_all_iff split: if_splits)

text \<open>Of times in order the computation in the loop gives the distance in microseconds.\<close>

lemma fault_us_micros: "normal a \<Longrightarrow> normal b \<Longrightarrow> a \<le> b \<Longrightarrow> fault_us a b = micros b - micros a"
  by (auto simp: fault_us_def micros_def less_eq_timeval_def)

definition takes_entries :: "pf \<Rightarrow> bool" where
  "takes_entries st \<longleftrightarrow> list_all (\<lambda>w. case w of WErr e \<Rightarrow> False | WOk n \<Rightarrow> 32 \<le> n) (pf_writes st)"

lemma send_fault_sends:
  assumes "takes_entries st" and "2 \<le> length (pf_writes st)"
  shows "\<exists>st'. send_fault sysno pfd begun st = Inr st' \<and> last_tvs st' = last_tvs st \<and> pf_writes st' = drop 2 (pf_writes st) \<and>
     pf_sent st' = pf_sent st @ entry_bytes (fault_entry sysno ''PAGEFAULT_BEGIN'' pfd begun) @ entry_bytes (fault_entry sysno ''PAGEFAULT_END'' pfd (pfd_tv pfd))"
proof -
  obtain a b ws where w: "pf_writes st = WOk a # WOk b # ws" "32 \<le> a" "32 \<le> b"
    using assms by (cases "pf_writes st"; cases "tl (pf_writes st)") (auto simp: takes_entries_def split: wret.splits)
  have f: "freeze (fault_entry sysno name pfd tv) 32 = Inr (entry_bytes (fault_entry sysno name pfd tv))" for name tv
    using freeze_wf [OF fault_entry_wf, of sysno name pfd tv] by (simp add: fault_entry_size)
  have l: "length (entry_bytes (fault_entry sysno name pfd tv)) = 32" for name tv
    using length_entry_bytes [OF fault_entry_wf, of sysno name pfd tv] by (simp add: fault_entry_size)
  show ?thesis using w by (simp add: send_fault_def fault_entry_size f pf_write_def l)
qed

text \<open>A step of the loop on a record, with what was read before as ghost state.\<close>

lemma pf_step_record:
  assumes "takes_entries st" and "2 \<le> length (pf_writes st)" and "\<forall>t. last_tvs st t = table_time t recs"
    and "0 \<le> pfd_tgid r" and "pfd_tgid r < 65536" and "\<forall>q \<in> set (recs @ [r]). normal (pfd_tv q) \<and> 0 \<le> tv_sec (pfd_tv q)"
    and "\<forall>q \<in> set recs. pfd_tv q \<le> pfd_tv r"
  shows "\<exists>st'. pf_step sysno (Record r) st = Inr st' \<and> (\<forall>t. last_tvs st' t = table_time t (recs @ [r])) \<and>
     pf_sent st' = pf_sent st @ concat (map entry_bytes (reports sysno recs r)) \<and>
     takes_entries st' \<and> length (pf_writes st) - 2 \<le> length (pf_writes st')"
proof (cases "pfd_complete r = 0")
  case True
  have "t = nat (pfd_tgid r) \<longleftrightarrow> pfd_tgid r = int t" for t using assms(4) by auto
  then show ?thesis using assms(1-5) True
    by (simp add: pf_step_def feed_read_def at_tgid_def reports_def fault_pair_def table_time_snoc takes_entries_def)
next
  case False
  let ?b = "table_time (nat (pfd_tgid r)) recs"
  have "normal ?b \<and> ?b \<le> pfd_tv r"
    using table_time_cases [of "nat (pfd_tgid r)" recs] assms(6,7) by (auto simp: normal_def less_eq_timeval_def)
  then have us: "fault_us ?b (pfd_tv r) = micros (pfd_tv r) - micros ?b" using assms(6) by (intro fault_us_micros) simp_all
  have t: "table_time t (recs @ [r]) = table_time t recs" for t using False by (simp add: table_time_snoc)
  have tk: "takes_entries (st\<lparr>pf_errno := e\<rparr>)" for e using assms(1) by (simp add: takes_entries_def)
  obtain st' where "send_fault sysno r ?b (st\<lparr>pf_errno := pf_errno st\<rparr>) = Inr st'" "last_tvs st' = last_tvs st" "pf_writes st' = drop 2 (pf_writes st)"
     "pf_sent st' = pf_sent st @ entry_bytes (fault_entry sysno ''PAGEFAULT_BEGIN'' r ?b) @ entry_bytes (fault_entry sysno ''PAGEFAULT_END'' r (pfd_tv r))"
    using send_fault_sends [OF tk [of "pf_errno st"], of sysno r ?b] assms(2) by auto
  moreover have "takes_entries st'" using assms(1) calculation(3) by (auto simp: takes_entries_def list_all_iff dest: in_set_dropD)
  ultimately show ?thesis
    using assms False us by (simp add: pf_step_def feed_read_def at_tgid_def reports_def fault_pair_def t Let_def)
qed

fun feed_records :: "feedret list \<Rightarrow> pfdura_t list" where
  "feed_records [] = []"
| "feed_records (Record r # feed) = r # feed_records feed"
| "feed_records (_ # feed) = feed_records feed"

text \<open>A feed in order: records of processes below 65536 with times of a clock that does not run back, waits and interruptions.\<close>

definition feed_ok :: "feedret \<Rightarrow> bool" where
  "feed_ok rc \<longleftrightarrow>
     (case rc of Record r \<Rightarrow> 0 \<le> pfd_tgid r \<and> pfd_tgid r < 65536 \<and> normal (pfd_tv r) \<and> 0 \<le> tv_sec (pfd_tv r)
      | FeedEnd \<Rightarrow> True | ShortRead n \<Rightarrow> False | FeedErr e \<Rightarrow> e = EINTR)"

lemma pf_step_wait:
  assumes "feed_ok rc" and "feed_records [rc] = []"
  shows "\<exists>e. pf_step sysno rc st = Inr (st\<lparr>pf_errno := e\<rparr>)"
  using assms by (cases rc) (auto simp: pf_step_def feed_read_def feed_ok_def intro: exI [of _ "pf_errno st"])

lemma feed_records_Cons: "feed_records (rc # feed) = feed_records [rc] @ feed_records feed"
  by (cases rc) simp_all

definition sent_faults :: "(sysid \<Rightarrow> int) \<Rightarrow> pfdura_t list \<Rightarrow> string" where
  "sent_faults sysno recs = concat (map entry_bytes (pf_reports sysno recs))"

lemma pf_run:
  assumes "list_all feed_ok feed" and "takes_entries st" and "2 * length feed \<le> length (pf_writes st)"
    and "\<forall>t. last_tvs st t = table_time t recs" and "sorted (map pfd_tv (recs @ feed_records feed))"
    and "\<forall>q \<in> set recs. normal (pfd_tv q) \<and> 0 \<le> tv_sec (pfd_tv q)" and "pf_sent st = base @ sent_faults sysno recs"
  shows "\<exists>st'. run_all (pf_step sysno) feed st = Inr st' \<and> pf_sent st' = base @ sent_faults sysno (recs @ feed_records feed)"
  using assms
proof (induction feed arbitrary: st recs)
  case (Cons rc feed)
  show ?case
  proof (cases "feed_records [rc] = []")
    case True
    with pf_step_wait [of rc sysno st] Cons.prems(1) obtain e where "pf_step sysno rc st = Inr (st\<lparr>pf_errno := e\<rparr>)" by auto
    moreover have "takes_entries (st\<lparr>pf_errno := e\<rparr>)" using Cons.prems(2) by (simp add: takes_entries_def)
    ultimately show ?thesis
      using Cons.IH [of "st\<lparr>pf_errno := e\<rparr>" recs] Cons.prems True feed_records_Cons [of rc feed] by simp
  next
    case False
    then obtain r where rc: "rc = Record r" by (cases rc) auto
    have r: "0 \<le> pfd_tgid r" "pfd_tgid r < 65536" "\<forall>q \<in> set (recs @ [r]). normal (pfd_tv q) \<and> 0 \<le> tv_sec (pfd_tv q)"
      "\<forall>q \<in> set recs. pfd_tv q \<le> pfd_tv r" "2 \<le> length (pf_writes st)"
      using Cons.prems(1,3,5,6) by (auto simp: rc feed_ok_def sorted_append)
    from pf_step_record [OF Cons.prems(2) r(5) Cons.prems(4) r(1-4), of sysno] obtain st1 where
      s: "pf_step sysno rc st = Inr st1" "\<forall>t. last_tvs st1 t = table_time t (recs @ [r])" "takes_entries st1"
        "pf_sent st1 = pf_sent st @ concat (map entry_bytes (reports sysno recs r))" "length (pf_writes st) - 2 \<le> length (pf_writes st1)"
      by (auto simp: rc)
    then have "pf_sent st1 = base @ sent_faults sysno (recs @ [r])"
      using Cons.prems(7) by (simp add: sent_faults_def pf_reports_def along_snoc)
    with Cons.IH [of st1 "recs @ [r]"] s r(3) Cons.prems(1,3,5) show ?thesis by (simp add: rc)
  qed
qed simp

section \<open>Sessions of pfdura\<close>

lemma strtol_show_nat: "n < 2 ^ 63 \<Longrightarrow> strtol (show_nat n) = int n"
  by (simp add: strtol_def scan_int_show_nat)

text \<open>
  A session of \<^verbatim>\<open>pfdura\<close> for a process that ends with a signal writes the number to \<^verbatim>\<open>on\<close> and to \<^verbatim>\<open>off\<close>; in between
  the module records the faults of the process, and afterwards it does not watch it any more.
\<close>

lemma pfdura_session:
  assumes "n < 2 ^ 63" and "0 \<le> rfd" and "0 \<le> created" and "sig = SIGINT \<or> sig = SIGTERM"
  shows "pfdura_main [prog, show_nat n] rfd created (0, 0) (0, 0) [(0, sig)] =
     Inr (Some 0, [(''/mnt/relay/pfdura/on'', show_int (int n)), (''/mnt/relay/pfdura/off'', show_int (int n))])"
  using assms by (auto simp: pfdura_main_def scan_int_show_nat strtol_show_nat control_write_def pfdura_dir_def Let_def)

text \<open>\<^verbatim>\<open>pthread_create\<close> reports an error as a positive number, which neither program takes for one.\<close>

lemma pf_main_ignores_thread_error: "0 \<le> rfd \<Longrightarrow> 0 < created \<Longrightarrow> pf_main rfd created lfd sigs = pf_wait rfd lfd sigs"
  by (simp add: pf_main_def)

text \<open>When the clock is set back during a fault, the seconds do not count and the microseconds alone decide.\<close>

lemma backward_clock_reported: "tv_sec b < tv_sec a \<Longrightarrow> tv_usec a + 100 < tv_usec b \<Longrightarrow> b < a \<and> fault_us a b > 100"
  by (auto simp: fault_us_def less_timeval_def)

text \<open>The table has one time per process: a second thread that begins a fault replaces the first one's time.\<close>

lemma threads_share_begin:
  assumes "pfd_tgid r = int t" and "pfd_complete r = 0" and "pfd_pid r = p" and "pfd_tgid q = int t" and "pfd_complete q = 0" and "pfd_pid q \<noteq> p"
  shows "last_begin t (recs @ [r, q]) = Some (pfd_tv q)"
  using assms last_begin_snoc [of t "recs @ [r]" q] by simp

lemma pf_reader_sends:
  assumes "0 \<le> k_socket k" and "0 \<le> k_connect k" and "list_all feed_ok feed" and "sorted (map pfd_tv (feed_records feed))"
    and "takes_entries st" and "2 * length feed \<le> length (pf_writes st)"
  shows "\<exists>st'. pf_reader_thr sysno env k feed st = Inr st' \<and>
     pf_sent st' = pf_sent st @ concat (map entry_bytes (pf_reports sysno (feed_records feed)))"
proof -
  let ?st = "st\<lparr>logfd := k_socket k, pf_conn := pf_conn st @ [logd_addr env], last_tvs := \<lambda>_. Timeval 0 0\<rparr>"
  have c: "pf_connect env k st = Inr ?st" using assms(1,2) by (simp add: pf_connect_def)
  have "\<exists>st'. run_all (pf_step sysno) feed ?st = Inr st' \<and> pf_sent st' = pf_sent st @ sent_faults sysno ([] @ feed_records feed)"
    by (rule pf_run) (use assms in \<open>simp_all add: takes_entries_def table_time_def last_begin_def sent_faults_def pf_reports_def\<close>)
  then show ?thesis by (simp add: pf_reader_thr_def c sent_faults_def)
qed

section \<open>Properties\<close>

text \<open>
  C22: what \<^verbatim>\<open>pf\<close> sends of the page faults.  Once connected, and as long as the socket takes its writes,
  it follows a feed of records in the order of the clock (of processes below 65536), with waits and interruptions at any place, and sends for every end of a fault
  that lies more than 100 microseconds after the time its table has for the process an entry with that time
  and one with the time of the end, as complete frozen entries, and nothing else.  The time in the table is that of the last begin
  of a fault of the process; when every end has a begin before it, the slow faults and nothing else are sent.  An end without a begin, which the feed has when the
  module starts to watch a process in the middle of a fault, is sent as a fault since time 0 (\<open>end_without_begin_reported\<close>).
\<close>
theorem pf_sends_slow_faults:
  assumes "0 \<le> k_socket k" and "0 \<le> k_connect k" and "list_all feed_ok feed" and "sorted (map pfd_tv (feed_records feed))"
    and "takes_entries st" and "2 * length feed \<le> length (pf_writes st)"
  shows "\<exists>st'. pf_reader_thr sysno env k feed st = Inr st' \<and>
     pf_sent st' = pf_sent st @ concat (map entry_bytes (pf_reports sysno (feed_records feed))) \<and>
     (all_begun (feed_records feed) \<longrightarrow>
        pf_sent st' = pf_sent st @ concat (map entry_bytes (slow_faults sysno (feed_records feed))))"
  using pf_reader_sends [OF assms, of sysno env] all_begun_reports by force

definition pf0 :: pf where
  "pf0 = \<lparr> logfd = - 1, last_tvs = (\<lambda>_. Timeval 0 0), pf_errno = 0, pf_conn = [], pf_writes = replicate 10 (WOk 32), pf_sent = [] \<rparr>"

definition fault_at :: "int \<Rightarrow> timeval \<Rightarrow> pfdura_t" where
  "fault_at c tv = \<lparr>pfd_tgid = 70, pfd_pid = 71, pfd_complete = c, pfd_tv = tv\<rparr>"

definition sample_feed :: "feedret list" where
  "sample_feed = [Record (fault_at 0 (Timeval 5 999990)), FeedEnd, FeedErr EINTR, Record (fault_at 1 (Timeval 6 200))]"

definition answers :: kernel where
  "answers = \<lparr> k_socket = 3, k_connect = 0, k_dup2 = 80, k_relay_open = - 1, k_relay_write = 0 \<rparr>"

lemma sample_feed_facts:
  "list_all feed_ok sample_feed" "sorted (map pfd_tv (feed_records sample_feed))" "length sample_feed = 4"
  "slow_faults sysno (feed_records sample_feed) =
     [fault_entry sysno ''PAGEFAULT_BEGIN'' (fault_at 1 (Timeval 6 200)) (Timeval 5 999990),
      fault_entry sysno ''PAGEFAULT_END'' (fault_at 1 (Timeval 6 200)) (Timeval 6 200)]"
  "all_begun (feed_records sample_feed)"
  by (simp_all add: sample_feed_def feed_ok_def fault_at_def normal_def less_eq_timeval_def slow_faults_def along_def slow_fault_def
      fault_pair_def last_begin_def micros_def all_begun_def less_Suc_eq upt_rec)

theorem pf_sends_slow_faults_witness:
  "\<exists>st'. pf_reader_thr (\<lambda>_. 90) [] answers sample_feed pf0 = Inr st' \<and>
     pf_sent st' = entry_bytes (fault_entry (\<lambda>_. 90) ''PAGEFAULT_BEGIN'' (fault_at 1 (Timeval 6 200)) (Timeval 5 999990)) @
                   entry_bytes (fault_entry (\<lambda>_. 90) ''PAGEFAULT_END'' (fault_at 1 (Timeval 6 200)) (Timeval 6 200))"
proof -
  have "0 \<le> k_socket answers" "0 \<le> k_connect answers" "takes_entries pf0" "2 * length sample_feed \<le> length (pf_writes pf0)"
    by (simp_all add: answers_def takes_entries_def pf0_def sample_feed_facts list_all_iff)
  from pf_sends_slow_faults [OF this(1,2) sample_feed_facts(1,2) this(3,4), of "\<lambda>_. 90" "[]"]
  show ?thesis by (auto simp: sample_feed_facts pf0_def)
qed

section \<open>The library and the module\<close>

text \<open>
  What the traced process writes to the relay when it starts and exits (\<^verbatim>\<open>pfdura\<close> of \<^verbatim>\<open>vfd.c\<close>) are the
  calls by which the module is told to watch it and to stop.
\<close>

definition relay_call :: "bool \<times> string \<Rightarrow> mod_call" where
  "relay_call w = (if fst w then OnWrite (snd w) 0 else OffWrite (snd w) 0)"

lemma library_watches:
  assumes "pfdura on (int n) k st = Inr st'" and "0 \<le> k_relay_open k"
  shows "map relay_call (tp_relay st') = map relay_call (tp_relay st) @ [call_of (if on then Watch n else Unwatch n)]"
  using assms by (auto simp: pfdura_def relay_call_def split: if_splits)

end
