(* ===== verification/Log_Threads.thy ===== *)
theory Log_Threads
  imports Binlog
begin

text \<open>
  The log of a process with several threads (\<^verbatim>\<open>src/logd/binlog.c\<close> with \<^verbatim>\<open>logd_init\<close> and \<^verbatim>\<open>start_routine_wrapper\<close> of
  \<^verbatim>\<open>src/trace/vfd.c\<close>).  Every thread has a context with a buffer of its own, found through a key of the
  thread library; all of them write to the same descriptor, which \<^verbatim>\<open>logd_init\<close> puts on a
  new connection whenever a thread starts.  The threads are interleaved: a step of a schedule is a log call, the
  beginning or the end of a flush, or one call of \<^verbatim>\<open>write\<close> in between.
\<close>

section \<open>State\<close>

text \<open>
  Where a thread is: outside of the logging code, or in the loop of \<^verbatim>\<open>lb_flush\<close> with the bytes from \<^verbatim>\<open>start\<close> on
  still to be written, and the log call that needs the room if there is one.
\<close>

datatype pc = Idle | Flushing string "(timeval \<times> logcall) option"

text \<open>
  \<open>lp_ctx\<close> is \<^verbatim>\<open>pthread_getspecific(ctx_key)\<close> for each thread.  \<open>lp_conns\<close> are the bytes that went into
  each connection to the log daemon, the one behind the descriptor last.
\<close>

record lproc =
  lp_ctx :: "64 word \<Rightarrow> thread_ctx option"
  lp_pc :: "64 word \<Rightarrow> pc"
  lp_conns :: "string list"

definition lproc0 :: lproc where
  "lproc0 = \<lparr> lp_ctx = (\<lambda>_. None), lp_pc = (\<lambda>_. Idle), lp_conns = [] \<rparr>"

definition get_ctx :: "64 word \<Rightarrow> lproc \<Rightarrow> thread_ctx result" where
  "get_ctx t st = (case lp_ctx st t of None \<Rightarrow> Inl NullDeref | Some ctx \<Rightarrow> Inr ctx)"

definition set_ctx :: "64 word \<Rightarrow> thread_ctx option \<Rightarrow> lproc \<Rightarrow> lproc" where
  "set_ctx t ctx st = st\<lparr>lp_ctx := (lp_ctx st)(t := ctx)\<rparr>"

definition set_pc :: "64 word \<Rightarrow> pc \<Rightarrow> lproc \<Rightarrow> lproc" where
  "set_pc t p st = st\<lparr>lp_pc := (lp_pc st)(t := p)\<rparr>"

section \<open>Steps\<close>

datatype tev =
    Start string                      \<comment> \<open>\<^verbatim>\<open>logd_init\<close>, with what \<^verbatim>\<open>malloc\<close> left in the buffer\<close>
  | Call timeval logcall              \<comment> \<open>\<^verbatim>\<open>LOGBIN_gen\<close>, up to its flush if it needs one\<close>
  | Flush_Log                         \<comment> \<open>\<^verbatim>\<open>lb_flush\<close>, up to its loop\<close>
  | Write_Log nat                     \<comment> \<open>one \<^verbatim>\<open>write\<close> of the loop and the number of bytes it takes\<close>
  | Flushed                           \<comment> \<open>the end of the loop and what was waiting for it\<close>
  | Finish                            \<comment> \<open>the end of the thread: \<^verbatim>\<open>ctx_destroy\<close>\<close>

text \<open>A log call into a buffer that has room does not look at the descriptor.\<close>

definition no_sink :: logsink where
  "no_sink = \<lparr> sk_script = [], sk_out = [] \<rparr>"

definition store_call :: "(sysid \<Rightarrow> int) \<Rightarrow> char \<Rightarrow> timeval \<times> logcall \<Rightarrow> thread_ctx \<Rightarrow> thread_ctx result" where
  "store_call sysno nm nc ctx = rbind (LOGBIN_gen sysno nm (fst nc) (snd nc) (ctx, no_sink)) (\<lambda>(ctx', _). Inr ctx')"

definition has_room :: "logcall \<Rightarrow> thread_ctx \<Rightarrow> bool" where
  "has_room c ctx \<longleftrightarrow> int (ctx_lbptr ctx) + predict_size (int (lc_num c)) (int (length (logged_str c))) \<le> int PIPE_BUF - 1"

text \<open>\<^verbatim>\<open>lb_alloc_bytes\<close> looks at the size before it looks at the room: what no buffer holds ends the process.\<close>

definition too_big :: "logcall \<Rightarrow> bool" where
  "too_big c \<longleftrightarrow> int PIPE_BUF < predict_size (int (lc_num c)) (int (length (logged_str c)))"

lemma fits_not_too_big [simp]: "logcall_fits c \<Longrightarrow> \<not> too_big c"
  using predict_size_fits [of c] by (auto simp: too_big_def logcall_fits_def)

fun thread_step :: "(sysid \<Rightarrow> int) \<Rightarrow> char \<Rightarrow> 32 word \<Rightarrow> 64 word \<times> tev \<Rightarrow> lproc \<Rightarrow> lproc result" where
  "thread_step sysno nm pid (t, Start junk) st =
     Inr (set_ctx t (Some (alloc_ctx pid 79 t junk)) (st\<lparr>lp_conns := lp_conns st @ [[]]\<rparr>))"
| "thread_step sysno nm pid (t, Call now c) st =
     (if lp_pc st t \<noteq> Idle then Inl Blocked
      else rbind (get_ctx t st) (\<lambda>ctx.
        if too_big c then Inl (Exit 1)
        else if has_room c ctx
        then rbind (store_call sysno nm (now, c) ctx) (\<lambda>ctx'. Inr (set_ctx t (Some ctx') st))
        else Inr (set_pc t (Flushing (take (ctx_lbptr ctx) (ctx_lb ctx)) (Some (now, c))) st)))"
| "thread_step sysno nm pid (t, Flush_Log) st =
     (if lp_pc st t \<noteq> Idle then Inl Blocked
      else rbind (get_ctx t st) (\<lambda>ctx. Inr (set_pc t (Flushing (take (ctx_lbptr ctx) (ctx_lb ctx)) None) st)))"
| "thread_step sysno nm pid (t, Write_Log n) st =
     (case lp_pc st t of
        Idle \<Rightarrow> Inl Blocked
      | Flushing b op \<Rightarrow>
          if b = [] \<or> n = 0 \<or> length b < n \<or> lp_conns st = [] then Inl Blocked
          else Inr (set_pc t (Flushing (drop n b) op)
                 (st\<lparr>lp_conns := butlast (lp_conns st) @ [last (lp_conns st) @ take n b]\<rparr>)))"
| "thread_step sysno nm pid (t, Flushed) st =
     (case lp_pc st t of
        Idle \<Rightarrow> Inl Blocked
      | Flushing b op \<Rightarrow>
          if b \<noteq> [] then Inl Blocked
          else rbind (get_ctx t st) (\<lambda>ctx.
            let ctx0 = ctx\<lparr>ctx_lbptr := 0\<rparr> in
            rbind (case op of None \<Rightarrow> Inr ctx0 | Some nc \<Rightarrow> store_call sysno nm nc ctx0) (\<lambda>ctx'.
              Inr (set_pc t Idle (set_ctx t (Some ctx') st)))))"
| "thread_step sysno nm pid (t, Finish) st =
     (if lp_pc st t \<noteq> Idle then Inl Blocked else Inr (set_ctx t None st))"

definition run_threads :: "(sysid \<Rightarrow> int) \<Rightarrow> char \<Rightarrow> 32 word \<Rightarrow> (64 word \<times> tev) list \<Rightarrow> lproc \<Rightarrow> lproc result" where
  "run_threads sysno nm pid sched = run_all (thread_step sysno nm pid) sched"

section \<open>A thread on its own\<close>

text \<open>
  Without other threads in between, the steps of a log call are \<^verbatim>\<open>LOGBIN_gen\<close> on the context and the current
  connection, for any numbers of bytes the descriptor takes.
\<close>

definition sink_of :: "lproc \<Rightarrow> nat list \<Rightarrow> logsink" where
  "sink_of st ns = \<lparr> sk_script = map SysOk ns, sk_out = last (lp_conns st) \<rparr>"

fun writes_of :: "string \<Rightarrow> nat list \<Rightarrow> bool" where
  "writes_of b [] \<longleftrightarrow> b = []"
| "writes_of b (n # ns) \<longleftrightarrow> b \<noteq> [] \<and> 0 < n \<and> n \<le> length b \<and> writes_of (drop n b) ns"

lemma set_simps [simp]:
  "lp_ctx (set_ctx t c st) = (lp_ctx st)(t := c)" "lp_pc (set_ctx t c st) = lp_pc st" "lp_conns (set_ctx t c st) = lp_conns st"
  "lp_ctx (set_pc t p st) = lp_ctx st" "lp_pc (set_pc t p st) = (lp_pc st)(t := p)" "lp_conns (set_pc t p st) = lp_conns st"
  by (simp_all add: set_ctx_def set_pc_def)

lemma writes_flush_loop: "writes_of b ns \<Longrightarrow> flush_loop b (map SysOk ns) out = Inr ([], out @ b)"
proof (induction ns arbitrary: b out)
  case (Cons n ns)
  then obtain c cs where "b = c # cs" by (cases b) auto
  with Cons show ?case using append_take_drop_id [of n b] by (simp del: append_take_drop_id)
qed simp

lemma run_writes:
  assumes "lp_pc st t = Flushing b op" and "lp_conns st \<noteq> []" and "writes_of b ns"
  shows "run_all (thread_step sysno nm pid) (map (\<lambda>n. (t, Write_Log n)) ns) st =
     Inr (set_pc t (Flushing [] op) (st\<lparr>lp_conns := butlast (lp_conns st) @ [last (lp_conns st) @ b]\<rparr>))"
  using assms
proof (induction ns arbitrary: b st)
  case Nil
  then have "st = set_pc t (Flushing [] op) (st\<lparr>lp_conns := butlast (lp_conns st) @ [last (lp_conns st) @ b]\<rparr>)"
    by (simp add: set_pc_def fun_upd_idem)
  then show ?case by simp
next
  case (Cons n ns)
  let ?st = "set_pc t (Flushing (drop n b) op) (st\<lparr>lp_conns := butlast (lp_conns st) @ [last (lp_conns st) @ take n b]\<rparr>)"
  have "thread_step sysno nm pid (t, Write_Log n) st = Inr ?st" using Cons.prems by simp
  with Cons.IH [of ?st "drop n b"] Cons.prems show ?case by (simp add: set_pc_def)
qed

lemma LOGBIN_gen_room:
  assumes "logcall_fits c" and "has_room c ctx"
  shows "LOGBIN_gen sysno nm now c (ctx, sk) = rbind (store_call sysno nm (now, c) ctx) (\<lambda>ctx'. Inr (ctx', sk))"
  using assms(2) predict_size_fits [OF assms(1)]
  by (simp add: store_call_def LOGBIN_gen_def bb_disable_log_check_def lb_alloc_entry_def lb_alloc_bytes_def has_room_def
      logged_str_def [symmetric] Let_def)

lemma LOGBIN_gen_no_room:
  assumes "logcall_fits c" and "\<not> has_room c ctx" and "lb_flush (ctx, sk) = Inr (ctx\<lparr>ctx_lbptr := 0\<rparr>, sk')"
  shows "LOGBIN_gen sysno nm now c (ctx, sk) = rbind (store_call sysno nm (now, c) (ctx\<lparr>ctx_lbptr := 0\<rparr>)) (\<lambda>ctx'. Inr (ctx', sk'))"
proof -
  have "lb_flush (ctx\<lparr>ctx_lbptr := 0\<rparr>, no_sink) = Inr (ctx\<lparr>ctx_lbptr := 0\<rparr>, no_sink)"
    by (simp add: lb_flush_def bb_disable_log_check_def no_sink_def)
  then show ?thesis
    using assms predict_size_fits [OF assms(1)]
    by (simp add: store_call_def LOGBIN_gen_def bb_disable_log_check_def lb_alloc_entry_def lb_alloc_bytes_def has_room_def
        logged_str_def [symmetric] logcall_fits_def Let_def)
qed

lemma store_call_Inr:
  assumes "logcall_fits c" and "ctx_wf ctx" and "has_room c ctx \<or> ctx_lbptr ctx = 0"
  shows "\<exists>ctx' pad. store_call sysno nm (now, c) ctx = Inr ctx' \<and> ctx_wf ctx' \<and> length pad = 4 \<and>
     take (ctx_lbptr ctx') (ctx_lb ctx') = take (ctx_lbptr ctx) (ctx_lb ctx) @ entry_bytes (logged_entry sysno nm now ctx c pad) \<and>
     ctx_tid ctx' = ctx_tid ctx \<and> ctx_pid ctx' = ctx_pid ctx \<and> ctx_fz_high ctx' = ctx_fz_high ctx \<and> ctx_fz_low ctx' = ctx_fz_low ctx"
proof -
  have "\<exists>ctx'. LOGBIN_gen sysno nm now c (ctx, no_sink) = Inr (ctx', no_sink)"
    using assms(1,3) predict_size_fits [OF assms(1)]
    by (auto simp: LOGBIN_gen_def bb_disable_log_check_def lb_alloc_entry_def lb_alloc_bytes_def has_room_def lb_flush_def no_sink_def
        logged_str_def [symmetric] logcall_fits_def Let_def)
  then obtain ctx' where l: "LOGBIN_gen sysno nm now c (ctx, no_sink) = Inr (ctx', no_sink)" ..
  then have "store_call sysno nm (now, c) ctx = Inr ctx'" by (simp add: store_call_def)
  moreover from LOGBIN_gen_appends [OF assms(1,2) l] have "ctx_wf ctx'"
    "\<exists>pad. length pad = 4 \<and> take (ctx_lbptr ctx') (ctx_lb ctx') = take (ctx_lbptr ctx) (ctx_lb ctx) @ entry_bytes (logged_entry sysno nm now ctx c pad)"
    "ctx_tid ctx' = ctx_tid ctx \<and> ctx_pid ctx' = ctx_pid ctx \<and> ctx_fz_high ctx' = ctx_fz_high ctx \<and> ctx_fz_low ctx' = ctx_fz_low ctx"
    by (simp_all add: log_stream_def no_sink_def)
  ultimately show ?thesis by blast
qed

text \<open>The steps of a thread that is left alone, for the calls with and without room.\<close>

lemma call_alone:
  assumes "lp_pc st t = Idle" and "lp_ctx st t = Some ctx" and "lp_conns st \<noteq> []" and "logcall_fits c"
    and "if has_room c ctx then ns = [] else writes_of (take (ctx_lbptr ctx) (ctx_lb ctx)) ns"
  shows "run_threads sysno nm pid
       ([(t, Call now c)] @ (if has_room c ctx then [] else map (\<lambda>n. (t, Write_Log n)) ns @ [(t, Flushed)])) st =
     rbind (LOGBIN_gen sysno nm now c (ctx, sink_of st ns)) (\<lambda>(ctx', sk).
       Inr (set_ctx t (Some ctx') (st\<lparr>lp_conns := butlast (lp_conns st) @ [sk_out sk]\<rparr>)))"
proof (cases "has_room c ctx")
  case True
  with assms(1-3) show ?thesis
    by (simp add: run_threads_def get_ctx_def assms(4) LOGBIN_gen_room [OF assms(4)] sink_of_def rbind_def set_ctx_def split: sum.splits)
next
  case False
  let ?b = "take (ctx_lbptr ctx) (ctx_lb ctx)"
  let ?st = "set_pc t (Flushing ?b (Some (now, c))) st"
  have w: "writes_of ?b ns" using assms(5) False by simp
  have f: "lb_flush (ctx, sink_of st ns) = Inr (ctx\<lparr>ctx_lbptr := 0\<rparr>, \<lparr> sk_script = [], sk_out = last (lp_conns st) @ ?b \<rparr>)"
    by (simp add: lb_flush_def bb_disable_log_check_def sink_of_def writes_flush_loop [OF w])
  have "thread_step sysno nm pid (t, Call now c) st = Inr ?st" using assms(1,2,4) False by (simp add: get_ctx_def)
  moreover have "run_all (thread_step sysno nm pid) (map (\<lambda>n. (t, Write_Log n)) ns) ?st =
      Inr (set_pc t (Flushing [] (Some (now, c))) (?st\<lparr>lp_conns := butlast (lp_conns ?st) @ [last (lp_conns ?st) @ ?b]\<rparr>))"
    using assms(3) by (intro run_writes) (simp_all add: w)
  ultimately show ?thesis using assms(1,2) False
    by (simp add: run_threads_def run_all_append LOGBIN_gen_no_room [OF assms(4) False f] get_ctx_def rbind_def set_ctx_def set_pc_def
        fun_upd_idem split: sum.splits)
qed

section \<open>Threads side by side\<close>

text \<open>
  A schedule is orderly when a thread starts without a context, ends with a flushed buffer (as \<^verbatim>\<open>start_routine_wrapper\<close> flushes
  before it returns), makes calls that fit the buffer, and every \<^verbatim>\<open>write\<close> takes what it is given.
\<close>

fun orderly_ev :: "64 word \<times> tev \<Rightarrow> lproc \<Rightarrow> bool" where
  "orderly_ev (t, Start junk) st \<longleftrightarrow> lp_ctx st t = None \<and> length junk = PIPE_BUF"
| "orderly_ev (t, Call now c) st \<longleftrightarrow> logcall_fits c"
| "orderly_ev (t, Write_Log n) st \<longleftrightarrow> (case lp_pc st t of Idle \<Rightarrow> True | Flushing b op \<Rightarrow> n = length b)"
| "orderly_ev (t, Finish) st \<longleftrightarrow> (case lp_ctx st t of None \<Rightarrow> True | Some ctx \<Rightarrow> ctx_lbptr ctx = 0)"
| "orderly_ev _ st \<longleftrightarrow> True"

fun orderly :: "(sysid \<Rightarrow> int) \<Rightarrow> char \<Rightarrow> 32 word \<Rightarrow> (64 word \<times> tev) list \<Rightarrow> lproc \<Rightarrow> bool" where
  "orderly sysno nm pid [] st \<longleftrightarrow> True"
| "orderly sysno nm pid (ev # evs) st \<longleftrightarrow> orderly_ev ev st \<and>
     (case thread_step sysno nm pid ev st of Inl e \<Rightarrow> True | Inr st' \<Rightarrow> orderly sysno nm pid evs st')"

fun calls_of :: "64 word \<Rightarrow> (64 word \<times> tev) list \<Rightarrow> (timeval \<times> logcall) list" where
  "calls_of t [] = []"
| "calls_of t ((u, Call now c) # evs) = (if u = t then [(now, c)] else []) @ calls_of t evs"
| "calls_of t (_ # evs) = calls_of t evs"

text \<open>The call a thread is flushing for.\<close>

definition in_progress :: "64 word \<Rightarrow> lproc \<Rightarrow> (timeval \<times> logcall) list" where
  "in_progress t st = (case lp_pc st t of Flushing b (Some nc) \<Rightarrow> [nc] | _ \<Rightarrow> [])"

text \<open>Entries tagged with their thread: the bytes of a connection, and what it has of a thread.\<close>

definition conn_bytes :: "(64 word \<times> logentry_thaw) list \<Rightarrow> string" where
  "conn_bytes L = concat (map (\<lambda>te. entry_bytes (snd te)) L)"

definition entries_of :: "64 word \<Rightarrow> (64 word \<times> logentry_thaw) list \<Rightarrow> logentry_thaw list" where
  "entries_of t L = map snd (filter (\<lambda>te. fst te = t) L)"

definition encoded :: "(sysid \<Rightarrow> int) \<Rightarrow> char \<Rightarrow> 32 word \<Rightarrow> 64 word \<Rightarrow> (timeval \<times> logcall) list \<Rightarrow> logentry_thaw list \<Rightarrow> bool" where
  "encoded sysno nm pid t calls es \<longleftrightarrow> list_all2 (\<lambda>nc e. call_encoded sysno nm (alloc_ctx pid 79 t [], no_sink) nc [e]) calls es"

lemma entries_of_append: "entries_of t (L @ M) = entries_of t L @ entries_of t M"
  by (simp add: entries_of_def)

lemma entries_of_tagged: "entries_of u (map (Pair t) es) = (if u = t then es else [])"
  by (induction es) (auto simp: entries_of_def)

lemma conn_bytes_append: "conn_bytes (L @ M) = conn_bytes L @ conn_bytes M"
  by (simp add: conn_bytes_def)

lemma conn_bytes_tagged: "conn_bytes (map (Pair t) es) = concat (map entry_bytes es)"
  by (induction es) (simp_all add: conn_bytes_def)

lemma calls_of_Cons: "calls_of t (ev # evs) = calls_of t [ev] @ calls_of t evs"
  by (cases ev; cases "snd ev") auto

lemma entry_bytes_nonempty: "entry_bytes e \<noteq> []"
  by (simp add: entry_bytes_def frozen_bytes_def)

lemma encoded_snoc:
  assumes "encoded sysno nm pid t calls es" and "length pad = 4" and "ctx_tid ctx = t" "ctx_pid ctx = pid" "ctx_fz_high ctx = 0" "ctx_fz_low ctx = 0"
  shows "encoded sysno nm pid t (calls @ [(now, c)]) (es @ [logged_entry sysno nm now ctx c pad])"
  using assms
  by (auto simp: encoded_def call_encoded_def alloc_ctx_def logged_entry_def logged_frozen_def intro!: list_all2_appendI)

text \<open>The state of one thread: its buffer holds the entries \<open>B\<close>, and a flush has all of them or none left to write.\<close>

definition thread_ok :: "32 word \<Rightarrow> lproc \<Rightarrow> 64 word \<Rightarrow> logentry_thaw list \<Rightarrow> bool" where
  "thread_ok pid st t B \<longleftrightarrow> list_all wf_thaw B \<and>
     (case lp_ctx st t of
        None \<Rightarrow> B = [] \<and> lp_pc st t = Idle
      | Some ctx \<Rightarrow> ctx_wf ctx \<and> ctx_tid ctx = t \<and> ctx_pid ctx = pid \<and> ctx_fz_high ctx = 0 \<and> ctx_fz_low ctx = 0 \<and>
          (case lp_pc st t of
             Idle \<Rightarrow> take (ctx_lbptr ctx) (ctx_lb ctx) = concat (map entry_bytes B)
           | Flushing b op \<Rightarrow> b = concat (map entry_bytes B) \<and> (\<forall>nc. op = Some nc \<longrightarrow> logcall_fits (snd nc))))"

text \<open>The ghost state: the entries of each connection, the entries in each buffer, and the calls that are complete.\<close>

definition threads_ok ::
  "(sysid \<Rightarrow> int) \<Rightarrow> char \<Rightarrow> 32 word \<Rightarrow> lproc \<Rightarrow> (64 word \<times> logentry_thaw) list list \<Rightarrow> (64 word \<Rightarrow> logentry_thaw list) \<Rightarrow>
   (64 word \<Rightarrow> (timeval \<times> logcall) list) \<Rightarrow> bool" where
  "threads_ok sysno nm pid st Ls B C \<longleftrightarrow>
     lp_conns st = map conn_bytes Ls \<and> (\<forall>te \<in> set (concat Ls). wf_thaw (snd te)) \<and>
     (\<forall>t. thread_ok pid st t (B t) \<and> encoded sysno nm pid t (C t) (entries_of t (concat Ls) @ B t))"

lemma thread_ok_other:
  assumes "thread_ok pid st u B" and "lp_ctx st' u = lp_ctx st u" and "lp_pc st' u = lp_pc st u"
  shows "thread_ok pid st' u B"
  using assms(1) unfolding thread_ok_def assms(2,3) .

lemma thread_ok_store:
  assumes "thread_ok pid st t B" and "encoded sysno nm pid t C (D @ B)" and "lp_ctx st t = Some ctx" and "logcall_fits c"
    and "has_room c ctx0 \<or> ctx_lbptr ctx0 = 0" and "ctx0 = ctx\<lparr>ctx_lbptr := n\<rparr>" and "n \<le> PIPE_BUF"
    and "take n (ctx_lb ctx) = concat (map entry_bytes B)" and "store_call sysno nm (now, c) ctx0 = Inr ctx'"
    and "lp_ctx st' t = Some ctx'" and "lp_pc st' t = Idle"
  shows "\<exists>e. thread_ok pid st' t (B @ [e]) \<and> encoded sysno nm pid t (C @ [(now, c)]) (D @ B @ [e])"
proof -
  have ctx: "ctx_wf ctx0" "ctx_tid ctx0 = t" "ctx_pid ctx0 = pid" "ctx_fz_high ctx0 = 0" "ctx_fz_low ctx0 = 0" "list_all wf_thaw B"
    using assms(1,3,6,7) by (simp_all add: thread_ok_def ctx_wf_def)
  from store_call_Inr [OF assms(4) ctx(1) assms(5), of sysno nm now] assms(9) obtain pad where
    s: "ctx_wf ctx'" "length pad = 4"
      "take (ctx_lbptr ctx') (ctx_lb ctx') = take (ctx_lbptr ctx0) (ctx_lb ctx0) @ entry_bytes (logged_entry sysno nm now ctx0 c pad)"
      "ctx_tid ctx' = t" "ctx_pid ctx' = pid" "ctx_fz_high ctx' = 0" "ctx_fz_low ctx' = 0" using ctx by auto
  let ?e = "logged_entry sysno nm now ctx0 c pad"
  have "thread_ok pid st' t (B @ [?e])"
    using s assms(6,8,10,11) ctx(6) logged_entry_wf [OF assms(4) s(2)] by (simp add: thread_ok_def)
  moreover have "encoded sysno nm pid t (C @ [(now, c)]) ((D @ B) @ [?e])"
    using encoded_snoc [OF assms(2) s(2) ctx(2-5)] .
  ultimately show ?thesis by auto
qed

lemma threads_ok_update:
  assumes "threads_ok sysno nm pid st Ls B C" and "lp_conns st' = map conn_bytes Ls'" and "\<forall>te \<in> set (concat Ls'). wf_thaw (snd te)"
    and "\<And>u. u \<noteq> t \<Longrightarrow> lp_ctx st' u = lp_ctx st u \<and> lp_pc st' u = lp_pc st u \<and> entries_of u (concat Ls') = entries_of u (concat Ls)"
    and "thread_ok pid st' t Bt" and "encoded sysno nm pid t Ct (entries_of t (concat Ls') @ Bt)"
  shows "threads_ok sysno nm pid st' Ls' (B(t := Bt)) (C(t := Ct))"
  using assms(1-3,5,6) assms(4) thread_ok_other [of pid st _ _ st'] by (simp add: threads_ok_def)

text \<open>A step of a thread keeps the ghost state; the calls that are complete or in progress are those made so far.\<close>

definition step_keeps ::
  "(sysid \<Rightarrow> int) \<Rightarrow> char \<Rightarrow> 32 word \<Rightarrow> 64 word \<times> tev \<Rightarrow> lproc \<Rightarrow> lproc \<Rightarrow> (64 word \<Rightarrow> (timeval \<times> logcall) list) \<Rightarrow> bool" where
  "step_keeps sysno nm pid ev st st' C \<longleftrightarrow> (\<exists>Ls' B' C'. threads_ok sysno nm pid st' Ls' B' C' \<and>
     (\<forall>u. C' u @ in_progress u st' = C u @ in_progress u st @ calls_of u [ev]))"

lemma step_keepsI:
  assumes "threads_ok sysno nm pid st Ls B C" and "lp_conns st' = map conn_bytes Ls'" and "\<forall>te \<in> set (concat Ls'). wf_thaw (snd te)"
    and "\<And>u. u \<noteq> t \<Longrightarrow> lp_ctx st' u = lp_ctx st u \<and> lp_pc st' u = lp_pc st u \<and> entries_of u (concat Ls') = entries_of u (concat Ls)"
    and "thread_ok pid st' t Bt" and "encoded sysno nm pid t Ct (entries_of t (concat Ls') @ Bt)"
    and "Ct @ in_progress t st' = C t @ in_progress t st @ calls_of t [(t, ev)]"
  shows "step_keeps sysno nm pid (t, ev) st st' C"
proof -
  have "calls_of u [(t, ev)] = []" if "u \<noteq> t" for u using that by (cases ev) auto
  then have "(C(t := Ct)) u @ in_progress u st' = C u @ in_progress u st @ calls_of u [(t, ev)]" for u
    using assms(4,7) by (simp add: in_progress_def)
  then show ?thesis using threads_ok_update [OF assms(1-6)] unfolding step_keeps_def by blast
qed

lemma step_start:
  assumes "threads_ok sysno nm pid st Ls B C" and "lp_ctx st t = None" and "length junk = PIPE_BUF"
    and "thread_step sysno nm pid (t, Start junk) st = Inr st'"
  shows "step_keeps sysno nm pid (t, Start junk) st st' C"
proof (rule step_keepsI [OF assms(1), where Ls' = "Ls @ [[]]" and Bt = "[]" and Ct = "C t"])
  have t: "B t = []" "lp_pc st t = Idle" using assms(1,2) by (auto simp: threads_ok_def thread_ok_def split: option.splits dest: spec [of _ t])
  then show "thread_ok pid st' t []" using assms(3,4) by (auto simp: thread_ok_def alloc_ctx_def ctx_wf_def)
  show "encoded sysno nm pid t (C t) (entries_of t (concat (Ls @ [[]])) @ [])"
    using assms(1) t(1) unfolding threads_ok_def by (metis append_Nil2 concat.simps concat_append)
  show "C t @ in_progress t st' = C t @ in_progress t st @ calls_of t [(t, Start junk)]"
    using assms(4) by (auto simp: in_progress_def)
qed (use assms in \<open>auto simp: threads_ok_def conn_bytes_def\<close>)

lemma step_call:
  assumes "threads_ok sysno nm pid st Ls B C" and "logcall_fits c" and "thread_step sysno nm pid (t, Call now c) st = Inr st'"
  shows "step_keeps sysno nm pid (t, Call now c) st st' C"
proof -
  from assms(3) obtain ctx where i: "lp_pc st t = Idle" "lp_ctx st t = Some ctx"
    by (auto simp: get_ctx_def split: if_splits option.splits)
  have ok: "thread_ok pid st t (B t)" "encoded sysno nm pid t (C t) (entries_of t (concat Ls) @ B t)"
    using assms(1) by (simp_all add: threads_ok_def)
  then have b: "take (ctx_lbptr ctx) (ctx_lb ctx) = concat (map entry_bytes (B t))" "ctx_lbptr ctx \<le> PIPE_BUF"
    using i by (simp_all add: thread_ok_def ctx_wf_def)
  show ?thesis
  proof (cases "has_room c ctx")
    case True
    with assms(2,3) i obtain ctx' where s: "store_call sysno nm (now, c) ctx = Inr ctx'" "st' = set_ctx t (Some ctx') st"
      by (auto simp: get_ctx_def elim!: rbind_InrE)
    have "\<exists>e. thread_ok pid st' t (B t @ [e]) \<and> encoded sysno nm pid t (C t @ [(now, c)]) (entries_of t (concat Ls) @ B t @ [e])"
      by (rule thread_ok_store [OF ok i(2) assms(2), of ctx]) (use True b s i in simp_all)
    then obtain e where e: "thread_ok pid st' t (B t @ [e])" "encoded sysno nm pid t (C t @ [(now, c)]) (entries_of t (concat Ls) @ B t @ [e])" by blast
    show ?thesis
      by (rule step_keepsI [OF assms(1) _ _ _ e]) (use assms(1) i in \<open>auto simp: threads_ok_def s(2) in_progress_def\<close>)
  next
    case False
    with assms(2,3) i have st': "st' = set_pc t (Flushing (take (ctx_lbptr ctx) (ctx_lb ctx)) (Some (now, c))) st"
      by (simp add: get_ctx_def)
    have ok': "thread_ok pid st' t (B t)" using ok(1) i b assms(2) by (simp add: thread_ok_def st')
    show ?thesis
      by (rule step_keepsI [OF assms(1) _ _ _ ok' ok(2)]) (use assms(1) i in \<open>auto simp: threads_ok_def st' in_progress_def\<close>)
  qed
qed

lemma step_flush_log:
  assumes "threads_ok sysno nm pid st Ls B C" and "thread_step sysno nm pid (t, Flush_Log) st = Inr st'"
  shows "step_keeps sysno nm pid (t, Flush_Log) st st' C"
proof -
  from assms(2) obtain ctx where i: "lp_pc st t = Idle" "lp_ctx st t = Some ctx"
    and st': "st' = set_pc t (Flushing (take (ctx_lbptr ctx) (ctx_lb ctx)) None) st"
    by (auto simp: get_ctx_def split: if_splits option.splits)
  have ok: "thread_ok pid st t (B t)" "encoded sysno nm pid t (C t) (entries_of t (concat Ls) @ B t)"
    using assms(1) by (simp_all add: threads_ok_def)
  have ok': "thread_ok pid st' t (B t)" using ok(1) i by (simp add: thread_ok_def st')
  show ?thesis
    by (rule step_keepsI [OF assms(1) _ _ _ ok' ok(2)]) (use assms(1) i in \<open>auto simp: threads_ok_def st' in_progress_def\<close>)
qed

lemma step_write_log:
  assumes "threads_ok sysno nm pid st Ls B C" and "orderly_ev (t, Write_Log n) st" and "thread_step sysno nm pid (t, Write_Log n) st = Inr st'"
  shows "step_keeps sysno nm pid (t, Write_Log n) st st' C"
proof -
  from assms(2,3) obtain b op where f: "lp_pc st t = Flushing b op" "b \<noteq> []" "lp_conns st \<noteq> []"
    and st': "st' = set_pc t (Flushing [] op) (st\<lparr>lp_conns := butlast (lp_conns st) @ [last (lp_conns st) @ b]\<rparr>)"
    by (auto split: pc.splits if_splits)
  have ok: "thread_ok pid st t (B t)" "encoded sysno nm pid t (C t) (entries_of t (concat Ls) @ B t)" "lp_conns st = map conn_bytes Ls"
    "\<forall>te \<in> set (concat Ls). wf_thaw (snd te)"
    using assms(1) by (simp_all add: threads_ok_def)
  from f ok(1) obtain ctx where c: "lp_ctx st t = Some ctx" "b = concat (map entry_bytes (B t))" "list_all wf_thaw (B t)"
    by (auto simp: thread_ok_def split: option.splits)
  let ?Ls = "butlast Ls @ [last Ls @ map (Pair t) (B t)]"
  have Ls: "Ls \<noteq> []" using f(3) ok(3) by auto
  have cc: "concat ?Ls = concat Ls @ map (Pair t) (B t)"
    using append_butlast_last_id [OF Ls] by (metis append.assoc concat.simps concat_append append_Nil2)
  show ?thesis
  proof (rule step_keepsI [OF assms(1), where Ls' = ?Ls and Bt = "[]" and Ct = "C t"])
    show "lp_conns st' = map conn_bytes ?Ls"
      using Ls by (simp add: st' ok(3) map_butlast last_map conn_bytes_append conn_bytes_tagged c(2))
    show "thread_ok pid st' t []" using ok(1) f(1) c by (simp add: thread_ok_def st')
    show "encoded sysno nm pid t (C t) (entries_of t (concat ?Ls) @ [])"
      unfolding cc using ok(2) by (simp add: entries_of_append entries_of_tagged)
    show "\<forall>te \<in> set (concat ?Ls). wf_thaw (snd te)" unfolding cc using ok(4) c(3) by (auto simp: list_all_iff)
    show "lp_ctx st' u = lp_ctx st u \<and> lp_pc st' u = lp_pc st u \<and> entries_of u (concat ?Ls) = entries_of u (concat Ls)" if "u \<noteq> t" for u
      unfolding cc using that by (simp add: st' entries_of_append entries_of_tagged)
  qed (simp add: st' in_progress_def f(1))
qed

lemma step_flushed:
  assumes "threads_ok sysno nm pid st Ls B C" and "thread_step sysno nm pid (t, Flushed) st = Inr st'"
  shows "step_keeps sysno nm pid (t, Flushed) st st' C"
proof -
  from assms(2) obtain ctx op ctx' where f: "lp_pc st t = Flushing [] op" "lp_ctx st t = Some ctx"
    and s: "(case op of None \<Rightarrow> Inr (ctx\<lparr>ctx_lbptr := 0\<rparr>) | Some nc \<Rightarrow> store_call sysno nm nc (ctx\<lparr>ctx_lbptr := 0\<rparr>)) = Inr ctx'"
    and st': "st' = set_pc t Idle (set_ctx t (Some ctx') st)"
    by (auto simp: get_ctx_def Let_def split: pc.splits if_splits option.splits elim!: rbind_InrE)
  have ok: "thread_ok pid st t (B t)" "encoded sysno nm pid t (C t) (entries_of t (concat Ls) @ B t)"
    using assms(1) by (simp_all add: threads_ok_def)
  then have b: "B t = []" and fits: "\<forall>nc. op = Some nc \<longrightarrow> logcall_fits (snd nc)"
    using f entry_bytes_nonempty by (auto simp: thread_ok_def neq_Nil_conv concat_eq_Nil_conv intro: list.exhaust [of "B t"])
  show ?thesis
  proof (cases op)
    case None
    have ok': "thread_ok pid st' t (B t)" using ok(1) f s None b by (auto simp: thread_ok_def st' ctx_wf_def)
    show ?thesis
      by (rule step_keepsI [OF assms(1) _ _ _ ok' ok(2)]) (use assms(1) f None in \<open>auto simp: threads_ok_def st' in_progress_def\<close>)
  next
    case (Some nc)
    have "\<exists>e. thread_ok pid st' t (B t @ [e]) \<and> encoded sysno nm pid t (C t @ [(fst nc, snd nc)]) (entries_of t (concat Ls) @ B t @ [e])"
      by (rule thread_ok_store [OF ok f(2), where n = 0]) (use fits s Some b in \<open>simp_all add: st'\<close>)
    then obtain e where e: "thread_ok pid st' t (B t @ [e])" "encoded sysno nm pid t (C t @ [nc]) (entries_of t (concat Ls) @ B t @ [e])" by auto
    show ?thesis
      by (rule step_keepsI [OF assms(1) _ _ _ e]) (use assms(1) f Some in \<open>auto simp: threads_ok_def st' in_progress_def\<close>)
  qed
qed

lemma step_finish:
  assumes "threads_ok sysno nm pid st Ls B C" and "orderly_ev (t, Finish) st" and "thread_step sysno nm pid (t, Finish) st = Inr st'"
  shows "step_keeps sysno nm pid (t, Finish) st st' C"
proof -
  from assms(3) have i: "lp_pc st t = Idle" and st': "st' = set_ctx t None st" by (auto split: if_splits)
  have ok: "thread_ok pid st t (B t)" "encoded sysno nm pid t (C t) (entries_of t (concat Ls) @ B t)"
    using assms(1) by (simp_all add: threads_ok_def)
  have b: "B t = []"
    using ok(1) i assms(2) entry_bytes_nonempty by (cases "B t") (auto simp: thread_ok_def split: option.splits)
  then have ok': "thread_ok pid st' t (B t)" using i by (simp add: thread_ok_def st')
  show ?thesis
    by (rule step_keepsI [OF assms(1) _ _ _ ok' ok(2)]) (use assms(1) i in \<open>auto simp: threads_ok_def st' in_progress_def\<close>)
qed

lemma step_keeps_orderly:
  assumes "threads_ok sysno nm pid st Ls B C" and "orderly_ev ev st" and "thread_step sysno nm pid ev st = Inr st'"
  shows "step_keeps sysno nm pid ev st st' C"
proof -
  obtain t e where ev: "ev = (t, e)" by (cases ev)
  show ?thesis using assms step_start step_call step_flush_log step_write_log step_flushed step_finish
    unfolding ev by (cases e) auto
qed

lemma run_threads_keeps:
  assumes "threads_ok sysno nm pid st Ls B C" and "orderly sysno nm pid sched st" and "run_threads sysno nm pid sched st = Inr st'"
  shows "\<exists>Ls' B' C'. threads_ok sysno nm pid st' Ls' B' C' \<and> (\<forall>u. C' u @ in_progress u st' = C u @ in_progress u st @ calls_of u sched)"
  using assms
proof (induction sched arbitrary: st Ls B C)
  case (Cons ev evs)
  from Cons.prems(3) obtain st1 where s: "thread_step sysno nm pid ev st = Inr st1" "run_threads sysno nm pid evs st1 = Inr st'"
    by (auto simp: run_threads_def elim!: rbind_InrE)
  from step_keeps_orderly [OF Cons.prems(1) _ s(1)] Cons.prems(2) obtain Ls1 B1 C1 where
    k: "threads_ok sysno nm pid st1 Ls1 B1 C1" "\<forall>u. C1 u @ in_progress u st1 = C u @ in_progress u st @ calls_of u [ev]"
    by (auto simp: step_keeps_def)
  have "orderly sysno nm pid evs st1" using Cons.prems(2) s(1) by simp
  from Cons.IH [OF k(1) this s(2)] obtain Ls' B' C' where
    "threads_ok sysno nm pid st' Ls' B' C'" "\<forall>u. C' u @ in_progress u st' = C1 u @ in_progress u st1 @ calls_of u evs" by blast
  with k(2) show ?case using calls_of_Cons [of _ ev evs] by (metis append.assoc)
qed (auto simp: run_threads_def)

lemma threads_ok_lproc0: "threads_ok sysno nm pid lproc0 [] (\<lambda>_. []) (\<lambda>_. [])"
  by (simp add: threads_ok_def lproc0_def thread_ok_def encoded_def entries_of_def)

text \<open>A thread that ends without a flush, as with \<^verbatim>\<open>pthread_exit\<close>, takes the entries of its buffer with it.\<close>

lemma finish_drops_buffer:
  assumes "lp_pc st t = Idle"
  shows "\<exists>st'. thread_step sysno nm pid (t, Finish) st = Inr st' \<and> lp_ctx st' t = None \<and> lp_conns st' = lp_conns st"
  using assms by simp

lemma threads_log:
  assumes "orderly sysno nm pid sched lproc0" and "run_threads sysno nm pid sched lproc0 = Inr st"
  shows "\<exists>Ls B. lp_conns st = map conn_bytes Ls \<and> (\<forall>te \<in> set (concat Ls). wf_thaw (snd te)) \<and>
     (\<forall>t. (\<exists>C. calls_of t sched = C @ in_progress t st \<and> encoded sysno nm pid t C (entries_of t (concat Ls) @ B t)) \<and>
        (case lp_ctx st t of None \<Rightarrow> B t = []
         | Some ctx \<Rightarrow> lp_pc st t = Idle \<longrightarrow> take (ctx_lbptr ctx) (ctx_lb ctx) = concat (map entry_bytes (B t))))"
proof -
  from run_threads_keeps [OF threads_ok_lproc0 assms] obtain Ls B C where
    ok: "threads_ok sysno nm pid st Ls B C" and c: "\<forall>u. calls_of u sched = C u @ in_progress u st"
    by (auto simp: in_progress_def lproc0_def)
  have "\<exists>C. calls_of t sched = C @ in_progress t st \<and> encoded sysno nm pid t C (entries_of t (concat Ls) @ B t)" for t
    using ok c by (auto simp: threads_ok_def)
  moreover have "case lp_ctx st t of None \<Rightarrow> B t = []
      | Some ctx \<Rightarrow> lp_pc st t = Idle \<longrightarrow> take (ctx_lbptr ctx) (ctx_lb ctx) = concat (map entry_bytes (B t))" for t
    using ok unfolding threads_ok_def thread_ok_def by (auto split: option.splits dest: spec [of _ t])
  ultimately show ?thesis using ok unfolding threads_ok_def by blast
qed

section \<open>Properties\<close>

text \<open>
  C5: the threads of a process share the log without damage in every orderly schedule.  However the starts, log calls, flushes,
  writes and ends of any number of threads are interleaved, and
  whichever connections their starts put behind the descriptor, every connection has received whole entries, and for each
  thread the entries of all connections together, followed by those in its buffer, are exactly the entries of its
  calls, in order and under its own number; only a call that is waiting for a flush is still missing.

  Orderly means: every \<^verbatim>\<open>write\<close> takes all it is given and none fails (\<open>short_write_mixes_threads\<close> is what a short one
  does), every call fits a buffer (a larger one ends the process), a thread starts when it has no context, and it ends
  with a flushed buffer, as the end of \<^verbatim>\<open>start_routine_wrapper\<close> brings about; a thread that ends in another way, by
  \<^verbatim>\<open>pthread_exit\<close>, loses what its buffer holds (\<open>finish_drops_buffer\<close>).
\<close>
theorem threads_share_log:
  assumes "orderly sysno nm pid sched lproc0" and "run_threads sysno nm pid sched lproc0 = Inr st"
  shows "\<exists>Ls B. lp_conns st = map conn_bytes Ls \<and> (\<forall>te \<in> set (concat Ls). wf_thaw (snd te)) \<and>
     (\<forall>t. (\<exists>C. calls_of t sched = C @ in_progress t st \<and> encoded sysno nm pid t C (entries_of t (concat Ls) @ B t)) \<and>
        (case lp_ctx st t of None \<Rightarrow> B t = []
         | Some ctx \<Rightarrow> lp_pc st t = Idle \<longrightarrow> take (ctx_lbptr ctx) (ctx_lb ctx) = concat (map entry_bytes (B t))))"
  by (rule threads_log [OF assms])

text \<open>Two threads that log one call each; the first flushes while the second is between its call and its flush.\<close>

definition two_threads :: "(64 word \<times> tev) list" where
  "two_threads =
     [(1, Start (replicate PIPE_BUF NUL)), (2, Start (replicate PIPE_BUF NUL)), (1, Call (Timeval 9 8) sample_call),
      (2, Call (Timeval 9 9) sample_call), (1, Flush_Log), (2, Flush_Log), (2, Write_Log 40), (1, Write_Log 40), (1, Flushed)]"

lemma first_call:
  obtains ctx e where "store_call sysno nm (now, sample_call) (alloc_ctx pid 79 t (replicate PIPE_BUF NUL)) = Inr ctx"
    and "take (ctx_lbptr ctx) (ctx_lb ctx) = entry_bytes e" and "length (entry_bytes e) = 40" and "wf_thaw e"
proof -
  let ?ctx = "alloc_ctx pid 79 t (replicate PIPE_BUF NUL)"
  have "ctx_wf ?ctx" "ctx_lbptr ?ctx = 0" by (simp_all add: alloc_ctx_def ctx_wf_def)
  from store_call_Inr [OF sample_call_fits this(1), of sysno nm now] this(2) obtain ctx pad where
    s: "store_call sysno nm (now, sample_call) ?ctx = Inr ctx" "length pad = 4"
      "take (ctx_lbptr ctx) (ctx_lb ctx) = entry_bytes (logged_entry sysno nm now ?ctx sample_call pad)" by auto
  have "int (length (entry_bytes (logged_entry sysno nm now ?ctx sample_call pad))) = 40"
    using length_entry_bytes [OF logged_entry_wf [OF sample_call_fits s(2)]]
    by (simp add: frozen_size_eq logged_entry_def arg_count_def str_count_def logged_frozen_def sample_call_def LOGBINii_def logcall_gen_def logged_str_def)
  with s that logged_entry_wf [OF sample_call_fits s(2)] show thesis by simp
qed

lemma fresh_room: "has_room sample_call (alloc_ctx pid 79 t junk)"
  using predict_size_fits [OF sample_call_fits]
  by (simp add: has_room_def alloc_ctx_def) (simp add: sample_call_def LOGBINii_def logcall_gen_def logged_str_def PIPE_BUF_def)

lemma two_threads_run:
  "\<exists>st. run_threads sysno nm pid two_threads lproc0 = Inr st \<and> orderly sysno nm pid two_threads lproc0 \<and>
     length (lp_conns st) = 2 \<and> lp_conns st ! 0 = [] \<and> length (lp_conns st ! 1) = 80"
proof -
  obtain c1 e1 where 1: "store_call sysno nm (Timeval 9 8, sample_call) (alloc_ctx pid 79 1 (replicate PIPE_BUF NUL)) = Inr c1"
    "take (ctx_lbptr c1) (ctx_lb c1) = entry_bytes e1" "length (entry_bytes e1) = 40" by (rule first_call)
  obtain c2 e2 where 2: "store_call sysno nm (Timeval 9 9, sample_call) (alloc_ctx pid 79 2 (replicate PIPE_BUF NUL)) = Inr c2"
    "take (ctx_lbptr c2) (ctx_lb c2) = entry_bytes e2" "length (entry_bytes e2) = 40" by (rule first_call)
  note ne = entry_bytes_nonempty
  note defs = two_threads_def lproc0_def get_ctx_def fresh_room sample_call_fits 1 2 ne Let_def
  show ?thesis unfolding run_threads_def by (simp add: defs)
qed

theorem threads_share_log_witness:
  "\<exists>st Ls es. run_threads (\<lambda>_. 17) CHR ''h'' 4321 two_threads lproc0 = Inr st \<and> lp_conns st = map conn_bytes Ls \<and>
     encoded (\<lambda>_. 17) CHR ''h'' 4321 1 [(Timeval 9 8, sample_call)] (entries_of 1 (concat Ls) @ es)"
proof -
  from two_threads_run obtain st where st: "run_threads (\<lambda>_. 17) CHR ''h'' 4321 two_threads lproc0 = Inr st"
    "orderly (\<lambda>_. 17) CHR ''h'' 4321 two_threads lproc0" by blast
  have "in_progress 1 st = []"
  proof -
    have "lp_pc st 1 = Idle"
      using st(1) unfolding run_threads_def two_threads_def
      by (auto simp: Let_def elim!: rbind_InrE split: pc.splits if_splits)
    then show ?thesis by (simp add: in_progress_def)
  qed
  moreover have "calls_of 1 two_threads = [(Timeval 9 8, sample_call)]" by (simp add: two_threads_def)
  moreover from threads_share_log [OF st(2,1)] obtain Ls B where "lp_conns st = map conn_bytes Ls"
    "\<exists>C. calls_of 1 two_threads = C @ in_progress 1 st \<and> encoded (\<lambda>_. 17) CHR ''h'' 4321 1 C (entries_of 1 (concat Ls) @ B 1)"
    by (elim exE conjE) (drule spec [of _ 1], elim conjE, rule that)
  ultimately have "lp_conns st = map conn_bytes Ls \<and>
      encoded (\<lambda>_. 17) CHR ''h'' 4321 1 [(Timeval 9 8, sample_call)] (entries_of 1 (concat Ls) @ B 1)" by auto
  with st(1) show ?thesis by blast
qed

text \<open>A flush of \<open>u\<close>, of \<open>m\<close> bytes, between the two writes of a flush of \<open>t\<close>, of \<open>n\<close> bytes.\<close>

definition mixed_flushes :: "64 word \<Rightarrow> 64 word \<Rightarrow> nat \<Rightarrow> nat \<Rightarrow> nat \<Rightarrow> (64 word \<times> tev) list" where
  "mixed_flushes t u k n m =
     [(t, Flush_Log), (t, Write_Log k), (u, Flush_Log), (u, Write_Log m), (u, Flushed), (t, Write_Log (n - k)), (t, Flushed)]"

text \<open>
  C39: a short write lets the entries of two threads run into each other.  Let two threads be outside of the logging code,
  with entries in their buffers.  The first begins a flush and its first \<^verbatim>\<open>write\<close> takes only a part of a header; then
  the second begins, does and ends a whole flush; then the first goes on and ends its own.  Nothing in \<^verbatim>\<open>lb_flush\<close> keeps the second
  out: all steps succeed, both buffers are empty, and the connection has the bytes of the second thread between those of the header.
  A reader that has read what was there before takes a header that is neither thread's: the
  beginning is from the first entry of the first thread, the rest from the first entry of the second.
\<close>
theorem short_write_mixes_threads:
  assumes "t \<noteq> u" and "lp_pc st t = Idle" and "lp_pc st u = Idle" and "lp_ctx st t = Some ct" and "lp_ctx st u = Some cu"
    and "take (ctx_lbptr ct) (ctx_lb ct) = entry_bytes e1 @ r1" and "take (ctx_lbptr cu) (ctx_lb cu) = entry_bytes e2 @ r2"
    and "wf_thaw e1" and "wf_thaw e2" and "lp_conns st = conns @ [conn]" and "0 < k" and "k < 32"
  shows "\<exists>st'. run_threads sysno nm pid (mixed_flushes t u k (length (entry_bytes e1 @ r1)) (length (entry_bytes e2 @ r2))) st = Inr st' \<and>
     lp_ctx st' t = Some (ct\<lparr>ctx_lbptr := 0\<rparr>) \<and> lp_ctx st' u = Some (cu\<lparr>ctx_lbptr := 0\<rparr>) \<and>
     lp_pc st' = lp_pc st \<and>
     lp_conns st' = conns @ [conn @ take k (entry_bytes e1) @ entry_bytes e2 @ r2 @ drop k (entry_bytes e1) @ r1] \<and>
     thaw1 (drop (length conn) (last (lp_conns st'))) = Inr (frozen_of_bytes (take k (entry_bytes e1) @ take (32 - k) (entry_bytes e2)))"
proof -
  have l: "32 \<le> length (entry_bytes e1)" "32 \<le> length (entry_bytes e2)"
    using assms(8,9) by (simp_all add: entry_bytes_def length_frozen_bytes wf_thaw_def wf_frozen_def Let_def)
  then have ne: "entry_bytes e1 \<noteq> []" "entry_bytes e2 \<noteq> []" by auto
  have u: "u \<noteq> t" using assms(1) by simp
  have m: "take (length (entry_bytes e1) - k) (drop k (entry_bytes e1)) = drop k (entry_bytes e1)" by simp
  show ?thesis
    using assms(1-7,10-12) l ne u
    by (simp add: mixed_flushes_def run_threads_def get_ctx_def Let_def thaw1_def sizeof_frozen_def fun_upd_twist fun_upd_idem)
qed

definition two_idle :: "(64 word \<times> tev) list" where
  "two_idle =
     [(1, Start (replicate PIPE_BUF NUL)), (2, Start (replicate PIPE_BUF NUL)), (1, Call (Timeval 9 8) sample_call),
      (2, Call (Timeval 9 9) sample_call)]"

theorem short_write_mixes_threads_witness:
  "\<exists>st b1 b2. run_threads (\<lambda>_. 17) CHR ''h'' 4321 (two_idle @ mixed_flushes 1 2 10 40 40) lproc0 = Inr st \<and>
     lp_conns st = [[], take 10 b1 @ b2 @ drop 10 b1] \<and> length b1 = 40 \<and> length b2 = 40 \<and>
     thaw1 (last (lp_conns st)) = Inr (frozen_of_bytes (take 10 b1 @ take 22 b2))"
proof -
  obtain c1 e1 where 1: "store_call (\<lambda>_. 17) CHR ''h'' (Timeval 9 8, sample_call) (alloc_ctx 4321 79 1 (replicate PIPE_BUF NUL)) = Inr c1"
    "take (ctx_lbptr c1) (ctx_lb c1) = entry_bytes e1" "length (entry_bytes e1) = 40" "wf_thaw e1" by (rule first_call)
  obtain c2 e2 where 2: "store_call (\<lambda>_. 17) CHR ''h'' (Timeval 9 9, sample_call) (alloc_ctx 4321 79 2 (replicate PIPE_BUF NUL)) = Inr c2"
    "take (ctx_lbptr c2) (ctx_lb c2) = entry_bytes e2" "length (entry_bytes e2) = 40" "wf_thaw e2" by (rule first_call)
  have "\<exists>st. run_threads (\<lambda>_. 17) CHR ''h'' 4321 two_idle lproc0 = Inr st \<and> lp_pc st 1 = Idle \<and> lp_pc st 2 = Idle \<and>
      lp_ctx st 1 = Some c1 \<and> lp_ctx st 2 = Some c2 \<and> lp_conns st = [[]] @ [[]]"
    by (simp add: run_threads_def two_idle_def lproc0_def get_ctx_def fresh_room sample_call_fits 1(1) 2(1))
  then obtain st where st: "run_threads (\<lambda>_. 17) CHR ''h'' 4321 two_idle lproc0 = Inr st" "lp_pc st 1 = Idle" "lp_pc st 2 = Idle"
    "lp_ctx st 1 = Some c1" "lp_ctx st 2 = Some c2" "lp_conns st = [[]] @ [[]]" by blast
  have "(1 :: 64 word) \<noteq> 2" by simp
  from short_write_mixes_threads [OF this st(2-5) _ _ 1(4) 2(4) st(6), of "[]" "[]" 10 "\<lambda>_. 17" "CHR ''h''" 4321] 1(2,3) 2(2,3)
  obtain st' where st': "run_threads (\<lambda>_. 17) CHR ''h'' 4321 (mixed_flushes 1 2 10 40 40) st = Inr st'"
    "lp_conns st' = [[], take 10 (entry_bytes e1) @ entry_bytes e2 @ drop 10 (entry_bytes e1)]"
    "thaw1 (last (lp_conns st')) = Inr (frozen_of_bytes (take 10 (entry_bytes e1) @ take 22 (entry_bytes e2)))" by auto
  have "run_threads (\<lambda>_. 17) CHR ''h'' 4321 (two_idle @ mixed_flushes 1 2 10 40 40) lproc0 = Inr st'"
    using st(1) st'(1) by (simp add: run_threads_def run_all_append)
  with st'(2,3) 1(3) 2(3) show ?thesis by blast
qed

end
