(* ===== verification/Vfd_Exit.thy ===== *)
theory Vfd_Exit
  imports Log_Threads Vfd_Proc
begin

text \<open>
  What the library's own \<^verbatim>\<open>exit(1)\<close> does.  Inside of the preloaded library the name \<^verbatim>\<open>exit\<close> is the wrapper of
  \<^verbatim>\<open>src/trace/vfd.c\<close>, so an error in \<^verbatim>\<open>lb_flush\<close> or in \<^verbatim>\<open>INIT_REAL\<close> (\<^verbatim>\<open>src/trace/wrap.h\<close>) comes back to the code it was
  found in: the wrapper flushes the log, or initialises the library, before it calls \<^verbatim>\<open>real_exit\<close>.
\<close>

section \<open>A flush that may fail\<close>

text \<open>The loop of \<^verbatim>\<open>lb_flush\<close> as \<open>flush_loop\<close> has it, but with the answers and the output as an error leaves them.\<close>

datatype flushret = Done | Failed | Waits

fun flush_until :: "string \<Rightarrow> sysret list \<Rightarrow> string \<Rightarrow> flushret \<times> sysret list \<times> string" where
  "flush_until [] script out = (Done, script, out)"
| "flush_until (c # cs) [] out = (Waits, [], out)"
| "flush_until (c # cs) (SysErr # script) out = (Failed, script, out)"
| "flush_until (c # cs) (SysOk r # script) out = flush_until (drop r (c # cs)) script (out @ take r (c # cs))"

lemma flush_until_loop:
  "flush_loop b script out = (case flush_until b script out of (Done, s, o') \<Rightarrow> Inr (s, o') | (Failed, s, o') \<Rightarrow> Inl (Exit 1) | (Waits, s, o') \<Rightarrow> Inl Blocked)"
  by (induction b script out rule: flush_until.induct) auto

lemma flush_until_shorter: "flush_until b script out = (Failed, script', out') \<Longrightarrow> length script' < length script"
  by (induction b script out rule: flush_until.induct) auto

lemma flush_until_Failed:
  "flush_until b script out = (Failed, script', out') \<Longrightarrow> \<exists>k < length b. out' = out @ take k b"
proof (induction b script out rule: flush_until.induct)
  case (4 c cs r script out)
  then obtain k where k: "k < length (drop r (c # cs))" "out' = (out @ take r (c # cs)) @ take k (drop r (c # cs))" by auto
  then have "r + k < length (c # cs)" "out' = out @ take (r + k) (c # cs)" by (simp_all add: take_add)
  then show ?case by blast
qed auto

lemma flush_until_Done: "flush_until b script out = (Done, script', out') \<Longrightarrow> out' = out @ b"
proof (induction b script out rule: flush_until.induct)
  case (4 c cs r script out)
  then show ?case using append_take_drop_id [of r "c # cs"] by auto
qed auto

definition flush_st :: "thread_ctx \<times> logsink \<Rightarrow> flushret \<times> thread_ctx \<times> logsink" where
  "flush_st = (\<lambda>(ctx, sk).
     case flush_until (take (ctx_lbptr ctx) (ctx_lb ctx)) (sk_script sk) (sk_out sk) of (r, script, out) \<Rightarrow>
       (r, if r = Done then ctx\<lparr>ctx_lbptr := 0\<rparr> else ctx, sk\<lparr>sk_script := script, sk_out := out\<rparr>))"

lemma lb_flush_st:
  "lb_flush st = (case flush_st st of (Done, st') \<Rightarrow> Inr st' | (Failed, st') \<Rightarrow> Inl (Exit 1) | (Waits, st') \<Rightarrow> Inl Blocked)"
  by (cases st) (auto simp: lb_flush_def flush_st_def bb_disable_log_check_def flush_until_loop split: flushret.splits prod.splits)

lemma flush_until_script: "flush_until b script out = (r, script', out') \<Longrightarrow> length script' \<le> length script"
  by (induction b script out rule: flush_until.induct) auto

lemma flush_st_Failed: "flush_st st = (Failed, st') \<Longrightarrow> length (sk_script (snd st')) < length (sk_script (snd st))"
  using flush_until_shorter by (fastforce simp: flush_st_def split: prod.splits)

lemma flush_st_script: "flush_st st = (r, st') \<Longrightarrow> length (sk_script (snd st')) \<le> length (sk_script (snd st))"
  using flush_until_script by (fastforce simp: flush_st_def split: prod.splits)

lemma first_flush_shorter:
  "(Failed, st1) = (if p then flush_st st else (Done, st)) \<Longrightarrow> length (sk_script (snd st1)) < length (sk_script (snd st))"
  by (metis flush_st_Failed flushret.distinct(1) prod.inject)

lemma second_flush_shorter:
  assumes "(Done, st1) = (if p then flush_st st else (Done, st))" and "(Failed, st2) = flush_st (ctx, snd st1)"
  shows "length (sk_script (snd st2)) < length (sk_script (snd st))"
proof -
  have "length (sk_script (snd st1)) \<le> length (sk_script (snd st))"
    using assms(1) by (metis flush_st_script order_refl prod.inject)
  with flush_st_Failed [of "(ctx, snd st1)" st2] assms(2) show ?thesis by simp
qed

section \<open>The wrapper of exit\<close>

text \<open>
  \<^verbatim>\<open>exit\<close> of an initialised library, down to \<^verbatim>\<open>real_exit\<close> with the status it is given: the entry for the exit when
  \<open>debug\<close>, the flush unless tracing is \<open>off\<close>.  Each error of \<^verbatim>\<open>write\<close> is another \<^verbatim>\<open>exit(1)\<close>, which never returns to the one before.
\<close>

function exit_log ::
  "(sysid \<Rightarrow> int) \<Rightarrow> char \<Rightarrow> timeval \<Rightarrow> bool \<Rightarrow> bool \<Rightarrow> int \<Rightarrow> thread_ctx \<times> logsink \<Rightarrow> (int \<times> thread_ctx \<times> logsink) result" where
  "exit_log sysno nm now debug off status st =
     (let c = LOGBIN0 (SYS ''EXIT'') 0 in
      case (if debug \<and> \<not> has_room c (fst st) then flush_st st else (Done, st)) of
        (Failed, st1) \<Rightarrow> exit_log sysno nm now debug off 1 st1
      | (Waits, st1) \<Rightarrow> Inl Blocked
      | (Done, st1) \<Rightarrow>
          rbind (if debug then store_call sysno nm (now, c) (fst st1) else Inr (fst st1)) (\<lambda>ctx.
            if off then Inr (status, ctx, snd st1)
            else case flush_st (ctx, snd st1) of
                (Failed, st2) \<Rightarrow> exit_log sysno nm now debug off 1 st2
              | (Waits, st2) \<Rightarrow> Inl Blocked
              | (Done, st2) \<Rightarrow> Inr (status, st2)))"
  by pat_completeness auto

termination
  by (relation "measure (\<lambda>(sysno, nm, now, debug, off, status, st). length (sk_script (snd st)))")
     (auto intro: first_flush_shorter second_flush_shorter)

declare exit_log.simps [simp del]

text \<open>Without the entry for the exit only the flush is left.\<close>

lemma exit_log_plain:
  "exit_log sysno nm now False False status st =
     (case flush_st st of (Failed, st1) \<Rightarrow> exit_log sysno nm now False False 1 st1 | (Waits, st1) \<Rightarrow> Inl Blocked | (Done, st1) \<Rightarrow> Inr (status, st1))"
  by (subst exit_log.simps) (simp add: Let_def)

definition pending_bytes :: "thread_ctx \<Rightarrow> string" where
  "pending_bytes ctx = take (ctx_lbptr ctx) (ctx_lb ctx)"

lemma exit_log_sends:
  assumes "exit_log sysno nm now False False status (ctx, sk) = Inr (s, ctx', sk')"
  shows "\<exists>ks. (\<forall>k \<in> set ks. k < length (pending_bytes ctx)) \<and> s = (if ks = [] then status else 1) \<and>
     sk_out sk' = sk_out sk @ concat (map (\<lambda>k. take k (pending_bytes ctx)) ks) @ pending_bytes ctx"
  using assms
proof (induction "length (sk_script sk)" arbitrary: status sk rule: less_induct)
  case less
  obtain r script out where u: "flush_until (pending_bytes ctx) (sk_script sk) (sk_out sk) = (r, script, out)" by (metis prod.exhaust)
  show ?case
  proof (cases r)
    case Done
    with less.prems u have "s = status" "sk_out sk' = sk_out sk @ pending_bytes ctx"
      using flush_until_Done [of "pending_bytes ctx" "sk_script sk" "sk_out sk"]
      by (auto simp: exit_log_plain [of _ _ _ status] flush_st_def pending_bytes_def)
    then show ?thesis by (intro exI [of _ "[]"]) simp
  next
    case Failed
    let ?sk = "sk\<lparr>sk_script := script, sk_out := out\<rparr>"
    from u Failed obtain k where k: "k < length (pending_bytes ctx)" "out = sk_out sk @ take k (pending_bytes ctx)"
      using flush_until_Failed by blast
    have "length (sk_script ?sk) < length (sk_script sk)" using flush_until_shorter u Failed by simp
    moreover have "exit_log sysno nm now False False 1 (ctx, ?sk) = Inr (s, ctx', sk')"
      using less.prems u Failed by (simp add: exit_log_plain [of _ _ _ status] flush_st_def pending_bytes_def)
    ultimately obtain ks where ks: "\<forall>k \<in> set ks. k < length (pending_bytes ctx)" "s = 1"
      "sk_out sk' = out @ concat (map (\<lambda>k. take k (pending_bytes ctx)) ks) @ pending_bytes ctx"
      using less.hyps [of ?sk 1] by auto
    then show ?thesis using k by (intro exI [of _ "k # ks"]) simp
  next
    case Waits
    with less.prems u show ?thesis by (simp add: exit_log_plain [of _ _ _ status] flush_st_def pending_bytes_def)
  qed
qed

section \<open>Finding the real functions\<close>

text \<open>
  \<^verbatim>\<open>INIT_REAL(f)\<close>: the function is looked up once; \<open>dlsym\<close> says whether the C library has it.  The state is the set
  of the pointers that are set, and the result \<open>Inl\<close> where the macro calls \<^verbatim>\<open>exit(1)\<close>.
\<close>

definition INIT_REAL :: "(string \<Rightarrow> bool) \<Rightarrow> string \<Rightarrow> string set \<Rightarrow> string set + string set" where
  "INIT_REAL dlsym f real = (if f \<in> real then Inr real else if dlsym f then Inr (insert f real) else Inl real)"

fun init_reals :: "(string \<Rightarrow> bool) \<Rightarrow> string list \<Rightarrow> string set \<Rightarrow> string set + string set" where
  "init_reals dlsym [] real = Inr real"
| "init_reals dlsym (f # fs) real = (case INIT_REAL dlsym f real of Inl r \<Rightarrow> Inl r | Inr r \<Rightarrow> init_reals dlsym fs r)"

definition wrapped :: "string list" where
  "wrapped =
     [''exit'', ''abort'', ''pipe'', ''dup'', ''dup2'', ''fcntl'', ''socket'', ''bind'', ''listen'', ''accept'', ''connect'',
      ''close'', ''open'', ''creat'', ''read'', ''readv'', ''recv'', ''recvfrom'', ''write'', ''writev'', ''send'', ''sendto'',
      ''sendfile'', ''sendfile64'', ''select'', ''poll'', ''fork'', ''execve'', ''execl'', ''execle'', ''execv'', ''execlp'',
      ''execvp'', ''getenv'', ''clearenv'', ''unsetenv'', ''pthread_create'']"

definition wrap_init :: "(string \<Rightarrow> bool) \<Rightarrow> string set \<Rightarrow> string set + string set" where
  "wrap_init dlsym real = init_reals dlsym wrapped real"

text \<open>
  The first wrapper that runs: \<^verbatim>\<open>vfd_init\<close> looks up \<^verbatim>\<open>getenv\<close>, then everything else, and then connects to the log daemon and
  sets the process up.  When a name is missing, \<^verbatim>\<open>exit\<close> finds \<^verbatim>\<open>first_init\<close> still 0 and starts the initialisation again.
  The result is the set of pointers and what the initialisation returns; \<open>Inl (Exit 1)\<close> is a call of \<^verbatim>\<open>real_exit\<close>.
\<close>

partial_function (option) resolve_all ::
  "(string \<Rightarrow> bool) \<Rightarrow> kernel \<Rightarrow> string set \<Rightarrow> tproc \<Rightarrow> (string set \<times> tproc result) option" where
  "resolve_all dlsym k real st =
     (case INIT_REAL dlsym ''getenv'' real of
        Inl r \<Rightarrow> resolve_all dlsym k r st
      | Inr r \<Rightarrow>
          let st0 = vfd_init_0 st in
          (case wrap_init dlsym r of
             Inl r' \<Rightarrow> resolve_all dlsym k r' st0
           | Inr r' \<Rightarrow> Some (r', vfd_init_a k st0)))"

lemma init_reals_found:
  "list_all (\<lambda>f. f \<in> real \<or> dlsym f) fs \<Longrightarrow> init_reals dlsym fs real = Inr (real \<union> set fs)"
  by (induction fs arbitrary: real) (auto simp: INIT_REAL_def list_all_iff)

lemma init_reals_bounds:
  "case init_reals dlsym fs real of Inl r \<Rightarrow> r \<subseteq> real \<union> Collect dlsym | Inr r \<Rightarrow> set fs \<subseteq> real \<union> Collect dlsym \<and> r \<subseteq> real \<union> Collect dlsym"
proof (induction fs arbitrary: real)
  case (Cons f fs)
  have "INIT_REAL dlsym f real = Inr real \<and> f \<in> real \<or> INIT_REAL dlsym f real = Inr (insert f real) \<and> dlsym f \<or> INIT_REAL dlsym f real = Inl real"
    by (simp add: INIT_REAL_def)
  with Cons.IH [of real] Cons.IH [of "insert f real"] show ?case by (auto split: sum.splits)
qed simp

lemma resolve_all_needs:
  assumes "resolve_all dlsym k real st = Some r"
  shows "set wrapped \<subseteq> real \<union> Collect dlsym"
proof (rule resolve_all.raw_induct [where P = "\<lambda>dlsym k real st r. set wrapped \<subseteq> real \<union> Collect dlsym", OF _ assms])
  fix rec dlsym k real st r
  assume ih: "\<And>dlsym k real st r. rec dlsym k real st = Some r \<Longrightarrow> set wrapped \<subseteq> real \<union> Collect dlsym"
    and run: "(case INIT_REAL dlsym ''getenv'' real of Inl r \<Rightarrow> rec dlsym k r st
      | Inr r \<Rightarrow> let st0 = vfd_init_0 st in
          (case wrap_init dlsym r of Inl r' \<Rightarrow> rec dlsym k r' st0 | Inr r' \<Rightarrow> Some (r', vfd_init_a k st0))) = Some r"
  have e: "case INIT_REAL dlsym ''getenv'' real of Inl r' \<Rightarrow> r' \<subseteq> real \<union> Collect dlsym | Inr r' \<Rightarrow> r' \<subseteq> real \<union> Collect dlsym"
    by (auto simp: INIT_REAL_def)
  show "set wrapped \<subseteq> real \<union> Collect dlsym"
  proof (cases "INIT_REAL dlsym ''getenv'' real")
    case (Inl r')
    then have "rec dlsym k r' st = Some r" using run by simp
    with ih [of dlsym k r' st r] e Inl show ?thesis by fastforce
  next
    case (Inr r')
    have b: "case init_reals dlsym wrapped r' of Inl q \<Rightarrow> q \<subseteq> r' \<union> Collect dlsym | Inr q \<Rightarrow> set wrapped \<subseteq> r' \<union> Collect dlsym \<and> q \<subseteq> r' \<union> Collect dlsym"
      by (rule init_reals_bounds)
    show ?thesis
    proof (cases "wrap_init dlsym r'")
      case (Inl q)
      then have "rec dlsym k q (vfd_init_0 st) = Some r" using run Inr by simp
      then have "set wrapped \<subseteq> q \<union> Collect dlsym" by (rule ih)
      with b e Inl \<open>INIT_REAL dlsym ''getenv'' real = Inr r'\<close> show ?thesis by (auto simp: wrap_init_def)
    next
      case (Inr q)
      with b e \<open>INIT_REAL dlsym ''getenv'' real = Inr r'\<close> show ?thesis by (auto simp: wrap_init_def)
    qed
  qed
qed

text \<open>Why the rest of the initialisation of a new process fails: no daemon, no descriptor for it, or no write to the page fault relay.\<close>

definition init_fails :: "kernel \<Rightarrow> string list \<Rightarrow> cerror option" where
  "init_fails k env =
     (let on = real_getenv ''BB_DISABLE_ALL'' env = None
      in if on \<and> (k_socket k < 0 \<or> k_connect k < 0) then Some (Exit 1)
         else if on \<and> (k_dup2 k < 0 \<or> MAX_FDS \<le> k_dup2 k) then Some OutOfBounds
         else if 0 \<le> k_relay_open k \<and> k_relay_write k < 0 then Some (Exit 1)
         else None)"

lemma arrival_keeps [simp]:
  "first_init (tp_st (exec_arrival st)) = first_init (tp_st st)" "tp_atexit (exec_arrival st) = tp_atexit st"
  "first_init (tp_st (read_settings st)) = first_init (tp_st st)" "tp_atexit (read_settings st) = tp_atexit st"
  by (auto simp: exec_arrival_def read_settings_def acts_def logs_def identified_def upd_vfd_def Let_def split: option.splits prod.splits)

lemma vfd_init_outcome:
  "case init_fails k env of
     None \<Rightarrow> \<exists>st. vfd_init k (fresh_image fe junk env pid self) = Inr st \<and> first_init (tp_st st) \<and> tp_atexit st = 1
   | Some e \<Rightarrow> vfd_init k (fresh_image fe junk env pid self) = Inl e"
  by (auto simp: init_fails_def vfd_init_def vfd_init_0_def vfd_init_a_def logd_init_def fork_init_def pfdura_def fresh_image_def proc0_def
      at_fd_def MAX_FDS_def new_ctx_def acts_def logs_def Let_def)

section \<open>Properties\<close>

text \<open>
  C18: what the first call into the library does in a new process, for any C library, kernel and environment.  If a
  function that is wrapped is missing, reporting it starts the initialisation again, which finds it missing again, without
  end.  If all are found, the rest of \<^verbatim>\<open>vfd_init\<close> decides: without a connection to the daemon (unless the library is switched off by
  \<^verbatim>\<open>BB_DISABLE_ALL\<close>) or with an error in telling the page fault module of the process, the library calls \<^verbatim>\<open>real_exit(1)\<close> (\<open>Exit 1\<close>; the
  handler \<^verbatim>\<open>vfd_shutdown\<close>, which is registered by then, logs, and without a connection no context was allocated yet); a \<^verbatim>\<open>dup2\<close> that
  fails makes \<^verbatim>\<open>FD_CLR\<close> write outside of its set; and otherwise, and only then, the call goes on, with the
  initialisation marked as done and the shutdown registered once.
\<close>
theorem first_call_returns:
  "resolve_all dlsym k {} (fresh_image fe junk env pid self)
     = (if list_all dlsym wrapped then Some (set wrapped, vfd_init k (fresh_image fe junk env pid self)) else None) \<and>
   (case init_fails k env of
      None \<Rightarrow> \<exists>st. vfd_init k (fresh_image fe junk env pid self) = Inr st \<and> first_init (tp_st st) \<and> tp_atexit st = 1
    | Some e \<Rightarrow> vfd_init k (fresh_image fe junk env pid self) = Inl e)"
proof (rule conjI [OF _ vfd_init_outcome], cases "list_all dlsym wrapped")
  case True
  then have "dlsym ''getenv''" by (simp add: wrapped_def)
  moreover have "wrap_init dlsym {''getenv''} = Inr ({''getenv''} \<union> set wrapped)"
    unfolding wrap_init_def using True by (intro init_reals_found) (simp add: list_all_iff)
  moreover have "{''getenv''} \<union> set wrapped = set wrapped" by (simp add: wrapped_def insert_commute)
  ultimately show "resolve_all dlsym k {} (fresh_image fe junk env pid self)
     = (if list_all dlsym wrapped then Some (set wrapped, vfd_init k (fresh_image fe junk env pid self)) else None)"
    using True by (subst resolve_all.simps) (simp add: INIT_REAL_def vfd_init_def)
next
  case False
  have "\<not> (\<exists>r. resolve_all dlsym k {} (fresh_image fe junk env pid self) = Some r)"
    using resolve_all_needs [of dlsym k "{}"] False by (auto simp: list_all_iff)
  with False show "resolve_all dlsym k {} (fresh_image fe junk env pid self)
     = (if list_all dlsym wrapped then Some (set wrapped, vfd_init k (fresh_image fe junk env pid self)) else None)"
    by (cases "resolve_all dlsym k {} (fresh_image fe junk env pid self)") auto
qed



text \<open>
  When \<^verbatim>\<open>exit\<close> does get through, every attempt before has sent its part of the buffer as well: the log has received, after what was
  there, a beginning of the buffer for each failure and then the whole buffer, and any failure replaces the status of the program by 1.
  The log is intact only if every failed attempt failed at its first \<^verbatim>\<open>write\<close>.
\<close>
lemma exit_sends_again:
  assumes "exit_log sysno nm now False False status (ctx, sk) = Inr (s, ctx', sk')"
  shows "\<exists>ks. (\<forall>k \<in> set ks. k < length (pending_bytes ctx)) \<and> s = (if ks = [] then status else 1) \<and>
     sk_out sk' = sk_out sk @ concat (map (\<lambda>k. take k (pending_bytes ctx)) ks) @ pending_bytes ctx"
  by (rule exit_log_sends [OF assms])

end
