(* ===== verification/Min_Lib.thy ===== *)
theory Min_Lib
  imports Vfd_Exit Vfd_Proc
begin

text \<open>
  The minimal wrapper library \<^verbatim>\<open>src/trace/min.c\<close> with \<^verbatim>\<open>src/trace/min.h\<close>: \<^verbatim>\<open>fork\<close>, \<^verbatim>\<open>execve\<close>, \<^verbatim>\<open>execl\<close>, \<^verbatim>\<open>exit\<close> and
  \<^verbatim>\<open>abort\<close>, each leaving a line of text in the pipe of the daemon.  The lemmas show what a line looks like, what becomes of
  the environment of an executed program, and what a program sees when the pipe or a symbol is missing.
\<close>

section \<open>State\<close>

text \<open>\<open>mi_out\<close>: the calls of \<^verbatim>\<open>write\<close>, each with its descriptor; \<open>mi_err\<close>: what is printed to \<^verbatim>\<open>stderr\<close>.\<close>

record minst =
  mi_first :: bool
  mi_real :: "string set"
  mi_pipefd :: int
  mi_pid :: int
  mi_env :: "string list"
  mi_closed :: "int list"
  mi_out :: "(int \<times> string) list"
  mi_err :: "string list"

text \<open>What the system answers: \<open>dlsym\<close>, \<open>open\<close> of the pipe, and the time of day.\<close>

record minsys =
  ms_dlsym :: "string \<Rightarrow> bool"
  ms_open :: int
  ms_now :: "int \<times> int"

definition MAX_LOG_LINE :: nat where "MAX_LOG_LINE = 1023"

definition LOGD_PIPE :: string where "LOGD_PIPE = ''/tmp/fifo''"

section \<open>Lines of the log\<close>

text \<open>\<^verbatim>\<open>%010li\<close> and \<^verbatim>\<open>%06li\<close>.\<close>

definition zero_pad :: "nat \<Rightarrow> int \<Rightarrow> string" where
  "zero_pad w i =
     (let s = show_nat (nat \<bar>i\<bar>); sign = (if i < 0 then ''-'' else '''')
      in sign @ replicate (w - length sign - length s) CHR ''0'' @ s)"

definition min_line :: "int \<times> int \<Rightarrow> int \<Rightarrow> string \<Rightarrow> string" where
  "min_line now pid msg =
     ''1|'' @ show_int pid @ ''|'' @ zero_pad 10 (fst now) @ ''.'' @ zero_pad 6 (snd now) @ ''|prog_name|'' @ msg @ [CHR 0x0A]"

text \<open>\<^verbatim>\<open>LOG\<close>: \<^verbatim>\<open>snprintf\<close> keeps one character less than it is told.\<close>

definition min_log :: "minsys \<Rightarrow> string \<Rightarrow> minst \<Rightarrow> minst" where
  "min_log k msg st =
     (let outs = take (MAX_LOG_LINE - 1) (min_line (ms_now k) (mi_pid st) msg)
      in st\<lparr>mi_err := mi_err st @ (if PIPE_BUF < length outs then [''big!!!!!!!''] else []),
            mi_out := mi_out st @ [(mi_pipefd st, outs)]\<rparr>)"

section \<open>Starting\<close>

definition min_wrapped :: "string list" where
  "min_wrapped = [''fork'', ''execve'', ''execl'', ''exit'', ''abort'']"

text \<open>The rest of \<^verbatim>\<open>init\<close>, once all the functions are found.  The statement \<^verbatim>\<open>exit;\<close> after the message does nothing.\<close>

definition min_open :: "minsys \<Rightarrow> minst \<Rightarrow> minst" where
  "min_open k st =
     min_log k ''start()''
       (st\<lparr>mi_first := True, mi_pipefd := ms_open k,
          mi_err := mi_err st @ (if ms_open k < 0 then [''couldn't connect to named pipe: '' @ LOGD_PIPE] else [])\<rparr>)"

text \<open>A missing function: \<^verbatim>\<open>exit(1)\<close> is the wrapper below, which starts with \<^verbatim>\<open>init\<close>.\<close>

partial_function (option) min_init :: "minsys \<Rightarrow> minst \<Rightarrow> minst option" where
  "min_init k st =
     (if mi_first st then Some st
      else case init_reals (ms_dlsym k) min_wrapped (mi_real st) of
        Inl r \<Rightarrow> min_init k (st\<lparr>mi_real := r, mi_err := mi_err st @ [''dlsym'']\<rparr>)
      | Inr r \<Rightarrow> Some (min_open k (st\<lparr>mi_real := r\<rparr>)))"

definition min_reinit :: "minsys \<Rightarrow> minst \<Rightarrow> minst option" where
  "min_reinit k st = min_init k (st\<lparr>mi_first := False, mi_closed := mi_closed st @ (if -1 < mi_pipefd st then [mi_pipefd st] else [])\<rparr>)"

section \<open>The wrappers\<close>

text \<open>A wrapper's result; \<open>None\<close> where the initialisation does not end.\<close>

definition min_exit :: "int \<Rightarrow> minsys \<Rightarrow> minst \<Rightarrow> (int \<times> minst) option" where
  "min_exit status k st = map_option (\<lambda>st1. (status, min_log k (''exit('' @ show_int status @ '')'') st1)) (min_init k st)"

definition min_abort :: "minsys \<Rightarrow> minst \<Rightarrow> minst option" where
  "min_abort k st = map_option (min_log k ''abort()'') (min_init k st)"

text \<open>\<open>r\<close> is the answer of \<^verbatim>\<open>real_fork\<close> in this process, \<open>child\<close> the number of the process in which it is 0.\<close>

definition min_fork :: "int \<Rightarrow> int \<Rightarrow> minsys \<Rightarrow> minst \<Rightarrow> (int \<times> minst) option" where
  "min_fork r child k st =
     map_option (\<lambda>st1.
       let st2 = min_log k ''fork_begin()'' st1;
           st3 = (if r = 0 then st2\<lparr>mi_pid := child\<rparr> else st2)
       in (r, min_log k (''fork() = '' @ show_int r) st3)) (min_init k st)"

text \<open>
  The environment that \<^verbatim>\<open>execve\<close> builds: room for one entry more than the caller's, but the new entry is
  stored at the index of the last one, and the end right after it.
\<close>

definition hack_envp :: "string \<Rightarrow> string list \<Rightarrow> string list result" where
  "hack_envp lib envp =
     (let tmp = ''LD_PRELOAD='' @ lib
      in if 1024 \<le> length tmp \<or> envp = [] then Inl OutOfBounds else Inr (envp[length envp - 1 := tmp]))"

text \<open>
  The array \<^verbatim>\<open>envp\<close> may be one of the caller's own or the very one \<^verbatim>\<open>environ\<close> points to, and it is read after \<^verbatim>\<open>setenv\<close> has changed
  the environment.  \<^verbatim>\<open>setenv\<close> replaces an entry where it stands.  For a new one the C library makes a larger array: a
  copy of the first one, or, of one it has allocated itself before, by \<^verbatim>\<open>realloc\<close>, in its place or elsewhere.
\<close>

datatype storage = Copied | Grown | Moved

datatype envp_arg = Own "string list" | Environ storage

definition envp_seen :: "string \<Rightarrow> string list \<Rightarrow> envp_arg \<Rightarrow> string list result" where
  "envp_seen path env envp =
     (case envp of
        Own vs \<Rightarrow> Inr vs
      | Environ how \<Rightarrow>
          if list_ex (has_name ''LD_PRELOAD'') env then Inr (setenv ''LD_PRELOAD'' path env)
          else (case how of Copied \<Rightarrow> Inr env | Grown \<Rightarrow> Inr (setenv ''LD_PRELOAD'' path env) | Moved \<Rightarrow> Inl OutOfBounds))"

text \<open>\<open>lib\<close> is what \<^verbatim>\<open>real_getenv\<close> gives, \<open>ret\<close> the result of a failing \<^verbatim>\<open>real_execve\<close>; a successful one does not return.\<close>

definition min_execve ::
  "string \<Rightarrow> string option \<Rightarrow> string \<Rightarrow> string list \<Rightarrow> envp_arg \<Rightarrow> int option \<Rightarrow> minsys \<Rightarrow> minst \<Rightarrow> (image \<times> minst) result option" where
  "min_execve trace_lib lib filename argv envp ret k st =
     map_option (\<lambda>st1.
       let path = (case lib of None \<Rightarrow> trace_lib | Some p \<Rightarrow> p);
           st2 = st1\<lparr>mi_env := setenv ''LD_PRELOAD'' path (mi_env st1)\<rparr>
       in rbind (envp_seen path (mi_env st1) envp) (\<lambda>vs.
          rbind (hack_envp path vs) (\<lambda>hacked.
            Inr (Image False filename argv hacked,
                 if ret = None then st2 else min_log k (''execve(\"'' @ filename @ ''\")'') st2)))) (min_init k st)"

text \<open>
  \<^verbatim>\<open>execl\<close> hands on the path and the first argument; \<open>rest\<close> stands for what \<^verbatim>\<open>real_execl\<close> finds where it looks for more.
\<close>

definition min_execl :: "string \<Rightarrow> string \<Rightarrow> string list \<Rightarrow> minsys \<Rightarrow> minst \<Rightarrow> (image \<times> minst) option" where
  "min_execl path arg rest k st =
     map_option (\<lambda>st1. let st2 = min_log k (''execl(\"'' @ path @ ''\")'') st1
       in (Image False path (arg # rest) (mi_env st2), st2)) (min_init k st)"

section \<open>Lemmas\<close>

lemma min_log_simps [simp]:
  "mi_first (min_log k m st) = mi_first st" "mi_env (min_log k m st) = mi_env st" "mi_real (min_log k m st) = mi_real st"
  "mi_pipefd (min_log k m st) = mi_pipefd st" "mi_pid (min_log k m st) = mi_pid st"
  by (simp_all add: min_log_def Let_def)

lemma min_log_out:
  "length (min_line (ms_now k) (mi_pid st) m) < MAX_LOG_LINE \<Longrightarrow>
   mi_out (min_log k m st) = mi_out st @ [(mi_pipefd st, min_line (ms_now k) (mi_pid st) m)]"
  by (simp add: min_log_def Let_def)

lemma hack_envp_snoc:
  "length lib < 1013 \<Longrightarrow> hack_envp lib (vs @ [v]) = Inr (vs @ [''LD_PRELOAD='' @ lib])"
  by (simp add: hack_envp_def Let_def)

lemma min_init_returns:
  assumes "mi_first st \<or> list_all (ms_dlsym k) min_wrapped"
  obtains st1 where "min_init k st = Some st1" "mi_first st1" "mi_env st1 = mi_env st"
proof (cases "mi_first st")
  case True
  then show thesis using that[of st] by (simp add: min_init.simps)
next
  case False
  then have "init_reals (ms_dlsym k) min_wrapped (mi_real st) = Inr (mi_real st \<union> set min_wrapped)"
    using assms by (intro init_reals_found) (auto simp: list_all_iff)
  then show thesis using that False by (simp add: min_init.simps min_open_def)
qed

lemma real_getenv_snoc:
  "n \<noteq> [] \<Longrightarrow> real_getenv n (vs @ [e]) =
     (case real_getenv n vs of Some x \<Rightarrow> Some x | None \<Rightarrow> if has_name n e then Some (drop (length n + 1) e) else None)"
  by (induction vs) (simp_all add: real_getenv_def)

text \<open>Both processes of a fork leave their line, each with its own number; a line that is too long loses its end.\<close>

lemma min_fork_lines:
  assumes "mi_first st" and "length (min_line (ms_now k) (mi_pid st) ''fork_begin()'') < MAX_LOG_LINE"
    and "\<And>pid. length (min_line (ms_now k) pid (''fork() = '' @ show_int r)) < MAX_LOG_LINE"
  shows "\<exists>st'. min_fork r child k st = Some (r, st') \<and>
    mi_out st' = mi_out st @ [(mi_pipefd st, min_line (ms_now k) (mi_pid st) ''fork_begin()''),
      (mi_pipefd st, min_line (ms_now k) (if r = 0 then child else mi_pid st) (''fork() = '' @ show_int r))]"
  using assms by (simp add: min_fork_def min_init.simps min_log_out Let_def)

lemma min_log_cut:
  "MAX_LOG_LINE \<le> length (min_line (ms_now k) (mi_pid st) m) \<Longrightarrow>
   \<exists>out. mi_out (min_log k m st) = mi_out st @ [(mi_pipefd st, out)] \<and> length out = 1022 \<and>
     out = take 1022 (butlast (min_line (ms_now k) (mi_pid st) m))"
  by (simp add: min_log_def Let_def MAX_LOG_LINE_def take_butlast)

text \<open>
  A program that was itself started with the library and hands on its own environment: the entry that is there is replaced in
  the array that is then copied, so the new program gets the library twice in it, and its last variable is lost all the same.
\<close>

lemma min_execve_environ:
  assumes "mi_first st" and "length lib < 1013" and "mi_env st = vs @ [v]" and "list_ex (has_name ''LD_PRELOAD'') vs"
  shows "\<exists>st1. min_execve trace_lib (Some lib) filename argv (Environ how) ret k st =
    Some (Inr (Image False filename argv (setenv ''LD_PRELOAD'' lib vs @ [''LD_PRELOAD='' @ lib]), st1))"
proof -
  have "setenv n x (vs @ [v]) = setenv n x vs @ [v]" if "list_ex (has_name n) vs" for n x
    using that by (induction vs) auto
  then show ?thesis
    using assms hack_envp_snoc [of lib "setenv ''LD_PRELOAD'' lib vs" v]
    by (simp add: min_execve_def min_init.simps envp_seen_def Let_def del: append.simps)
qed

section \<open>Properties\<close>

text \<open>
  C40: what becomes of the environment in \<^verbatim>\<open>execve\<close>.  The program that is started finds every variable of its
  caller's environment except the last one, whose place the library's own entry takes; it loads the library only if no
  earlier entry sets \<^verbatim>\<open>LD_PRELOAD\<close>, since the first entry counts.  With an empty environment the call stores before the array.
  This is for an environment that is an array of the caller's own (\<open>min_execve_environ\<close>: the current one).
\<close>

theorem min_execve_environment:
  assumes "mi_first st \<or> list_all (ms_dlsym k) min_wrapped" and "length lib < 1013"
  shows "(\<exists>st1. min_execve trace_lib (Some lib) filename argv (Own (vs @ [v])) ret k st =
        Some (Inr (Image False filename argv (vs @ [''LD_PRELOAD='' @ lib]), st1))) \<and>
    (plain_name n \<and> n \<noteq> ''LD_PRELOAD'' \<longrightarrow> real_getenv n (vs @ [''LD_PRELOAD='' @ lib]) = real_getenv n vs) \<and>
    real_getenv ''LD_PRELOAD'' (vs @ [''LD_PRELOAD='' @ lib]) =
      (case real_getenv ''LD_PRELOAD'' vs of None \<Rightarrow> Some lib | Some old \<Rightarrow> Some old) \<and>
    min_execve trace_lib (Some lib) filename argv (Own []) ret k st = Some (Inl OutOfBounds)"
proof -
  obtain st1 where i: "min_init k st = Some st1" using min_init_returns[OF assms(1)] by blast
  have "\<exists>st1. min_execve trace_lib (Some lib) filename argv (Own (vs @ [v])) ret k st =
        Some (Inr (Image False filename argv (vs @ [''LD_PRELOAD='' @ lib]), st1))"
    using assms(2) by (simp add: min_execve_def i envp_seen_def hack_envp_snoc Let_def del: append.simps)
  moreover have "real_getenv n (vs @ [''LD_PRELOAD='' @ lib]) = real_getenv n vs" if "plain_name n" "n \<noteq> ''LD_PRELOAD''"
  proof -
    have "\<not> has_name n (''LD_PRELOAD='' @ lib)"
      using has_nameD[of n "''LD_PRELOAD='' @ lib"] that by (auto simp: plain_name_def)
    then show ?thesis using that by (simp add: real_getenv_snoc plain_name_def split: option.splits)
  qed
  moreover have "real_getenv ''LD_PRELOAD'' (vs @ [''LD_PRELOAD='' @ lib]) =
      (case real_getenv ''LD_PRELOAD'' vs of None \<Rightarrow> Some lib | Some old \<Rightarrow> Some old)"
    by (simp add: real_getenv_snoc has_name_def split: option.splits)
  moreover have "min_execve trace_lib (Some lib) filename argv (Own []) ret k st = Some (Inl OutOfBounds)"
    by (simp add: min_execve_def i envp_seen_def hack_envp_def Let_def)
  ultimately show ?thesis by blast
qed

text \<open>A program with two variables, the second of them \<^verbatim>\<open>HOME\<close>.\<close>

definition min_sample :: minst where
  "min_sample = \<lparr>mi_first = False, mi_real = {}, mi_pipefd = -1, mi_pid = 42, mi_env = [], mi_closed = [], mi_out = [], mi_err = []\<rparr>"

theorem min_execve_environment_witness:
  "\<exists>st1. min_execve ''/lib/t.so'' (Some ''/m.so'') ''/bin/sh'' [''sh''] (Own [''PATH=/bin'', ''HOME=/root'']) None
       \<lparr>ms_dlsym = (\<lambda>f. True), ms_open = 5, ms_now = (1, 2)\<rparr> min_sample =
     Some (Inr (Image False ''/bin/sh'' [''sh''] [''PATH=/bin'', ''LD_PRELOAD=/m.so''], st1))"
  using min_execve_environment[of min_sample "\<lparr>ms_dlsym = (\<lambda>f. True), ms_open = 5, ms_now = (1, 2)\<rparr>" "''/m.so''" "''/lib/t.so''" "''/bin/sh''"
      "[''sh'']" "[''PATH=/bin'']" "''HOME=/root''" None "''HOME''"]
  by (simp add: min_wrapped_def)

end
