(* ===== verification/Trace_Poll.thy ===== *)
theory Trace_Poll
  imports Bp_Prelude "HOL-Library.Multiset"
begin

text \<open>
  \<^verbatim>\<open>poll\<close> with serialisation, of the older wrapper library \<^verbatim>\<open>src/trace/trace.c\<close>: a call that finds several ready
  descriptors reports one of them and keeps the others for the calls that follow.  The lemmas show that events are neither
  invented nor reported twice, and what happens at the ends: failures and calls without descriptors.
\<close>

section \<open>State\<close>

record upollfd =
  u_fd :: int
  u_events :: "16 word"
  u_revents :: "16 word"

text \<open>\<open>real_ufds\<close> is the block of 1000 entries, \<open>None\<close> for the null pointer; \<open>po_lines\<close> the messages logged.\<close>

record tpoll =
  real_ufds :: "upollfd list option"
  real_nfds :: nat
  real_timeout :: int
  real_pollret :: int
  seen_poll :: bool
  po_lines :: "string list"

definition po_log :: "string \<Rightarrow> tpoll \<Rightarrow> tpoll" where
  "po_log s st = st\<lparr>po_lines := po_lines st @ [s]\<rparr>"

section \<open>The call\<close>

definition poll_args :: "nat \<Rightarrow> int \<Rightarrow> string" where
  "poll_args nfds tm = ''(nfds='' @ show_nat nfds @ '',tm='' @ show_int tm @ '')''"

text \<open>The first pair of an asked and a kept entry, in the order of the two loops, that has an event.\<close>

definition cached_event :: "upollfd list \<Rightarrow> upollfd list \<Rightarrow> (nat \<times> nat) option" where
  "cached_event ufds real =
     find (\<lambda>(i, j). u_fd (ufds ! i) = u_fd (real ! j) \<and> u_revents (real ! j) \<noteq> 0)
       (List.product [0..<length ufds] [0..<length real])"

definition clear_revents :: "upollfd list \<Rightarrow> upollfd list" where
  "clear_revents ufds = map (\<lambda>p. p\<lparr>u_revents := 0\<rparr>) ufds"

definition give_event :: "nat \<Rightarrow> 16 word \<Rightarrow> upollfd list \<Rightarrow> upollfd list" where
  "give_event i ev ufds = (let cl = clear_revents ufds in cl[i := (cl ! i)\<lparr>u_revents := ev\<rparr>])"

definition take_event :: "nat \<Rightarrow> upollfd list \<Rightarrow> upollfd list" where
  "take_event j real = real[j := (real ! j)\<lparr>u_revents := 0\<rparr>]"

text \<open>
  \<^verbatim>\<open>real_poll\<close>: its return value and the events it stores, one for each entry; a failing call stores nothing.
\<close>

definition with_answer :: "int \<times> 16 word list \<Rightarrow> upollfd list \<Rightarrow> upollfd list" where
  "with_answer ans ufds = (if fst ans < 0 then ufds else map2 (\<lambda>p ev. p\<lparr>u_revents := ev\<rparr>) ufds (snd ans))"

text \<open>\<open>block\<close> is the answer of \<^verbatim>\<open>malloc\<close> in the first call.\<close>

definition poll_start :: "upollfd list option \<Rightarrow> nat \<Rightarrow> tpoll \<Rightarrow> tpoll" where
  "poll_start block nfds st =
     (if seen_poll st then st
      else let st1 = st\<lparr>seen_poll := True, real_pollret := 0, real_ufds := block, real_nfds := nfds\<rparr>
           in if block = None then po_log ''ERROR: can't malloc for poll'' (st1\<lparr>seen_poll := False\<rparr>) else st1)"

definition poll_cached :: "upollfd list \<Rightarrow> int \<Rightarrow> tpoll \<Rightarrow> (int \<times> upollfd list \<times> tpoll) option result" where
  "poll_cached ufds tm st =
     (if real_pollret st \<le> 0 then Inr None
      else case real_ufds st of
        None \<Rightarrow> Inl NullDeref
      | Some real \<Rightarrow>
          if length real < real_nfds st then Inl OutOfBounds
          else (case cached_event ufds (take (real_nfds st) real) of
                  None \<Rightarrow> Inr None
                | Some (i, j) \<Rightarrow>
                    Inr (Some (1, give_event i (u_revents (real ! j)) ufds,
                      po_log (''[virtual_cached]1=poll'' @ poll_args (length ufds) tm @ '' {fd='' @ show_int (u_fd (ufds ! i)) @ ''}'')
                        (st\<lparr>real_ufds := Some (take_event j real), real_pollret := real_pollret st - 1\<rparr>)))))"

definition poll_refill :: "upollfd list \<Rightarrow> int \<Rightarrow> int \<times> 16 word list \<Rightarrow> tpoll \<Rightarrow> tpoll result" where
  "poll_refill ufds tm ans st =
     (if ufds = [] then Inr st
      else case real_ufds st of
        None \<Rightarrow> Inl NullDeref
      | Some real \<Rightarrow>
          if length real < length ufds then Inl OutOfBounds
          else Inr (po_log (''[real]'' @ show_int (fst ans) @ ''=poll'' @ poll_args (length ufds) tm)
                 (st\<lparr>real_nfds := length ufds, real_timeout := tm, real_ufds := Some (with_answer ans ufds @ drop (length ufds) real), real_pollret := fst ans\<rparr>)))"

text \<open>The last loop writes to the caller's array at the index of the kept entry.\<close>

definition poll_deliver :: "upollfd list \<Rightarrow> int \<Rightarrow> tpoll \<Rightarrow> (int \<times> upollfd list \<times> tpoll) result" where
  "poll_deliver ufds tm st =
     (let none = (0, ufds, po_log (''[virtual_trivial]0=poll'' @ poll_args (length ufds) tm) st) in
      if real_pollret st \<le> 0 then Inr none
      else case real_ufds st of
        None \<Rightarrow> Inl NullDeref
      | Some real \<Rightarrow>
          if length real < real_nfds st then Inl OutOfBounds
          else (case find (\<lambda>i. u_revents (real ! i) \<noteq> 0) [0..<real_nfds st] of
                  None \<Rightarrow> Inr none
                | Some i \<Rightarrow>
                    if length ufds \<le> i then Inl OutOfBounds
                    else Inr (1, give_event i (u_revents (real ! i)) ufds,
                      po_log (''[virtual_repoll]1=poll'' @ poll_args (length ufds) tm @ '' {fd='' @ show_int (u_fd (ufds ! i)) @ ''}'')
                        (st\<lparr>real_ufds := Some (take_event i real), real_pollret := real_pollret st - 1\<rparr>))))"

definition poll_begin :: "upollfd list option \<Rightarrow> upollfd list \<Rightarrow> int \<Rightarrow> tpoll \<Rightarrow> tpoll" where
  "poll_begin block ufds tm st = poll_start block (length ufds) (po_log (''poll_begin'' @ poll_args (length ufds) tm) st)"

definition trace_poll ::
  "upollfd list option \<Rightarrow> upollfd list \<Rightarrow> int \<Rightarrow> int \<times> 16 word list \<Rightarrow> tpoll \<Rightarrow> (int \<times> upollfd list \<times> tpoll) result" where
  "trace_poll block ufds tm ans st =
     (let st1 = poll_begin block ufds tm st in
      rbind (poll_cached ufds tm st1) (\<lambda>c. case c of
        Some r \<Rightarrow> Inr r
      | None \<Rightarrow> rbind (poll_refill ufds tm ans st1) (poll_deliver ufds tm)))"

section \<open>The cache as a collection of events\<close>

definition events_in :: "upollfd list \<Rightarrow> (int \<times> 16 word) multiset" where
  "events_in ps = image_mset (\<lambda>p. (u_fd p, u_revents p)) (filter_mset (\<lambda>p. u_revents p \<noteq> 0) (mset ps))"

definition poll_cache :: "tpoll \<Rightarrow> (int \<times> 16 word) multiset" where
  "poll_cache st = (case real_ufds st of None \<Rightarrow> {#} | Some real \<Rightarrow> events_in (take (real_nfds st) real))"

text \<open>A positive count is the number of events that are kept.\<close>

definition poll_ok :: "tpoll \<Rightarrow> bool" where
  "poll_ok st \<longleftrightarrow> seen_poll st \<and>
     (case real_ufds st of None \<Rightarrow> False
      | Some real \<Rightarrow> length real = 1000 \<and> (0 < real_pollret st \<longrightarrow> real_nfds st \<le> 1000 \<and> real_pollret st = int (size (poll_cache st))))"

text \<open>What the documentation of \<^verbatim>\<open>poll\<close> says of its answers: the number of entries with an event, or an error.\<close>

definition honest :: "nat \<Rightarrow> int \<times> 16 word list \<Rightarrow> bool" where
  "honest n ans \<longleftrightarrow> 0 \<le> fst ans \<longrightarrow> length (snd ans) = n \<and> fst ans = int (length (filter (\<lambda>ev. ev \<noteq> 0) (snd ans)))"

lemma po_log_simps [simp]:
  "real_ufds (po_log s st) = real_ufds st" "real_nfds (po_log s st) = real_nfds st" "real_pollret (po_log s st) = real_pollret st"
  "seen_poll (po_log s st) = seen_poll st"
  by (simp_all add: po_log_def)

lemma events_in_take_event:
  assumes "j < length ps" and "u_revents (ps ! j) \<noteq> 0"
  shows "events_in ps = add_mset (u_fd (ps ! j), u_revents (ps ! j)) (events_in (take_event j ps))"
proof -
  obtain R where "mset ps = add_mset (ps ! j) R" and "mset (take_event j ps) = add_mset ((ps ! j)\<lparr>u_revents := 0\<rparr>) R"
  proof
    show "mset ps = add_mset (ps ! j) (mset ps - {#ps ! j#})" using assms(1) by simp
    show "mset (take_event j ps) = add_mset ((ps ! j)\<lparr>u_revents := 0\<rparr>) (mset ps - {#ps ! j#})"
      using assms(1) by (simp add: take_event_def mset_update)
  qed
  then show ?thesis using assms(2) by (simp add: events_in_def)
qed

lemma take_event_take: "j < n \<Longrightarrow> take n (take_event j real) = take_event j (take n real)"
  by (cases "j < length real") (simp_all add: take_event_def take_update_swap)

lemma length_take_event [simp]: "length (take_event j real) = length real"
  by (simp add: take_event_def)

section \<open>What one call does\<close>

text \<open>The events that are kept for later calls, and the ones a call reports to its caller.\<close>

definition kept :: "tpoll \<Rightarrow> (int \<times> 16 word) multiset" where
  "kept st = (if seen_poll st \<and> 0 < real_pollret st then poll_cache st else {#})"

definition reported :: "int \<times> upollfd list \<Rightarrow> (int \<times> 16 word) multiset" where
  "reported r = (if fst r = 1 then events_in (snd r) else {#})"

text \<open>Whether a call asks the kernel, and the events it is told of.\<close>

definition answered :: "upollfd list option \<Rightarrow> upollfd list \<Rightarrow> int \<Rightarrow> int \<times> 16 word list \<Rightarrow> tpoll \<Rightarrow> (int \<times> 16 word) multiset" where
  "answered block ufds tm ans st =
     (if poll_cached ufds tm (poll_begin block ufds tm st) = Inr None \<and> 0 < fst ans
      then events_in (with_answer ans ufds) else {#})"

text \<open>A call can start: in a state that earlier calls left, or as the first call when \<^verbatim>\<open>malloc\<close> gives the block.\<close>

definition poll_ready :: "upollfd list option \<Rightarrow> tpoll \<Rightarrow> bool" where
  "poll_ready block st \<longleftrightarrow> poll_ok st \<or> \<not> seen_poll st \<and> (case block of None \<Rightarrow> False | Some b \<Rightarrow> length b = 1000)"

lemma events_in_append [simp]: "events_in (ps @ qs) = events_in ps + events_in qs"
  by (simp add: events_in_def)

lemma events_in_clear [simp]: "events_in (clear_revents ufds) = {#}"
proof -
  have "filter (\<lambda>p. u_revents p \<noteq> 0) (clear_revents ufds) = []"
    by (induction ufds) (simp_all add: clear_revents_def)
  then show ?thesis by (simp add: events_in_def flip: mset_filter)
qed

lemma length_clear [simp]: "length (clear_revents ufds) = length ufds"
  by (simp add: clear_revents_def)

lemma length_give_event [simp]: "length (give_event i ev ufds) = length ufds"
  by (simp add: give_event_def Let_def)

lemma events_in_give_event:
  assumes "i < length ufds" and "ev \<noteq> 0"
  shows "events_in (give_event i ev ufds) = {#(u_fd (ufds ! i), ev)#}"
proof -
  have "take_event i (give_event i ev ufds) = clear_revents ufds"
    using assms(1) by (intro nth_equalityI) (simp_all add: take_event_def give_event_def clear_revents_def Let_def nth_list_update)
  moreover have "give_event i ev ufds ! i = (ufds ! i)\<lparr>u_revents := ev\<rparr>"
    using assms(1) by (simp add: give_event_def clear_revents_def Let_def)
  ultimately show ?thesis
    using events_in_take_event[of i "give_event i ev ufds"] assms by simp
qed

lemma reported_give_event [simp]:
  "i < length ufds \<Longrightarrow> ev \<noteq> 0 \<Longrightarrow> reported (1, give_event i ev ufds) = {#(u_fd (ufds ! i), ev)#}"
  by (simp add: reported_def events_in_give_event)

lemma find_SomeE: "find P xs = Some x \<Longrightarrow> x \<in> set xs \<and> P x"
  by (induction xs) (auto split: if_splits)

lemma cached_event_Some:
  assumes "cached_event ufds real = Some (i, j)"
  shows "i < length ufds" "j < length real" "u_fd (ufds ! i) = u_fd (real ! j)" "u_revents (real ! j) \<noteq> 0"
  using find_SomeE[OF assms[unfolded cached_event_def]] by simp_all

lemma find_index_Some: "find P [0..<n] = Some i \<Longrightarrow> i < n \<and> P i"
  by (drule find_SomeE) simp

lemma size_events_in: "size (events_in ps) = length (filter (\<lambda>p. u_revents p \<noteq> 0) ps)"
  by (simp add: events_in_def flip: mset_filter)

lemma filter_with_answer:
  "length evs = length ufds \<Longrightarrow>
   length (filter (\<lambda>p. u_revents p \<noteq> 0) (map2 (\<lambda>p ev. p\<lparr>u_revents := ev\<rparr>) ufds evs)) = length (filter (\<lambda>ev. ev \<noteq> 0) evs)"
  by (induction evs ufds rule: list_induct2) simp_all

lemma honest_events:
  assumes "honest (length ufds) ans" and "0 < fst ans"
  shows "length (with_answer ans ufds) = length ufds" "int (size (events_in (with_answer ans ufds))) = fst ans"
  using assms filter_with_answer[of "snd ans" ufds] by (simp_all add: honest_def with_answer_def size_events_in)

text \<open>Taking the event at an index of the cache.\<close>

lemma poll_take:
  assumes "poll_ok st" and "0 < real_pollret st" and "real_ufds st = Some real" and "j < real_nfds st" and "u_revents (real ! j) \<noteq> 0"
  defines "st' \<equiv> st\<lparr>real_ufds := Some (take_event j real), real_pollret := real_pollret st - 1\<rparr>"
  shows "poll_ok st'" "kept st = add_mset (u_fd (real ! j), u_revents (real ! j)) (kept st')"
proof -
  have n: "length real = 1000" "real_nfds st \<le> 1000" "real_pollret st = int (size (poll_cache st))" "seen_poll st"
    using assms(1-3) by (simp_all add: poll_ok_def)
  have pc: "poll_cache st = add_mset (u_fd (real ! j), u_revents (real ! j)) (poll_cache st')"
    using n assms(3-5) events_in_take_event[of j "take (real_nfds st) real"]
    by (simp add: poll_cache_def st'_def take_event_take)
  show "poll_ok st'" using n pc by (simp add: poll_ok_def st'_def)
  have "real_pollret st' = int (size (poll_cache st'))" "seen_poll st'" using n pc by (simp_all add: st'_def)
  then have "kept st' = poll_cache st'" by (auto simp: kept_def)
  then show "kept st = add_mset (u_fd (real ! j), u_revents (real ! j)) (kept st')" using pc n assms(2) by (simp add: kept_def)
qed

lemma poll_ok_log [simp]: "poll_ok (po_log s st) = poll_ok st" "kept (po_log s st) = kept st"
  by (cases "real_ufds st"; simp add: poll_ok_def kept_def poll_cache_def)+

lemma poll_begin_ok:
  assumes "poll_ready block st"
  shows "poll_ok (poll_begin block ufds tm st)" "kept (poll_begin block ufds tm st) = kept st"
  using assms by (auto simp: poll_begin_def poll_ready_def poll_start_def poll_ok_def kept_def poll_cache_def split: option.splits)

lemma poll_cached_cases:
  assumes "poll_ok st"
  shows "poll_cached ufds tm st = Inr None \<or>
    (\<exists>i ev st'. poll_cached ufds tm st = Inr (Some (1, give_event i ev ufds, st')) \<and> i < length ufds \<and> ev \<noteq> 0 \<and>
       poll_ok st' \<and> kept st = add_mset (u_fd (ufds ! i), ev) (kept st'))"
proof (cases "0 < real_pollret st")
  case True
  with assms obtain real where r: "real_ufds st = Some real" "real_nfds st \<le> length real"
    by (auto simp: poll_ok_def split: option.splits)
  show ?thesis
  proof (cases "cached_event ufds (take (real_nfds st) real)")
    case None
    then show ?thesis using r True by (simp add: poll_cached_def)
  next
    case (Some ij)
    then obtain i j where e: "cached_event ufds (take (real_nfds st) real) = Some (i, j)" by (cases ij) auto
    note c = cached_event_Some[OF e]
    have j: "j < real_nfds st" "u_revents (real ! j) \<noteq> 0" "u_fd (ufds ! i) = u_fd (real ! j)" using c r by simp_all
    show ?thesis
      using poll_take[OF assms True r(1) j(1,2)] e r True j c(1) by (auto simp: poll_cached_def)
  qed
next
  case False
  then show ?thesis by (simp add: poll_cached_def)
qed

lemma poll_refill_ok:
  assumes "poll_ok st" and "0 < length ufds" and "length ufds \<le> 1000" and "honest (length ufds) ans"
  obtains st' where "poll_refill ufds tm ans st = Inr st'" "poll_ok st'" "real_nfds st' = length ufds" "real_pollret st' = fst ans"
    "kept st' = (if 0 < fst ans then events_in (with_answer ans ufds) else {#})"
    "map u_fd (take (length ufds) (the (real_ufds st'))) = map u_fd ufds"
proof -
  obtain real where r: "real_ufds st = Some real" "length real = 1000" "seen_poll st"
    using assms(1) by (auto simp: poll_ok_def split: option.splits)
  have len: "length (with_answer ans ufds) = length ufds"
    using assms(4) by (simp add: with_answer_def honest_def)
  have fds: "map u_fd (with_answer ans ufds) = map u_fd ufds"
    using assms(4) len by (intro nth_equalityI) (auto simp: with_answer_def honest_def)
  let ?st = "st\<lparr>real_nfds := length ufds, real_timeout := tm, real_ufds := Some (with_answer ans ufds @ drop (length ufds) real), real_pollret := fst ans\<rparr>"
  have cache: "poll_cache ?st = events_in (with_answer ans ufds)" using len by (simp add: poll_cache_def)
  have "poll_ok ?st" using r assms len cache honest_events[OF assms(4)] by (simp add: poll_ok_def)
  moreover have "kept ?st = (if 0 < fst ans then events_in (with_answer ans ufds) else {#})"
    using r cache by (simp add: kept_def)
  ultimately show thesis
    using that[of "po_log (''[real]'' @ show_int (fst ans) @ ''=poll'' @ poll_args (length ufds) tm) ?st"] r assms len fds
    by (simp add: poll_refill_def)
qed

lemma poll_deliver_cases:
  assumes "poll_ok st" and "real_nfds st = length ufds" and "map u_fd (take (length ufds) (the (real_ufds st))) = map u_fd ufds"
  shows "(real_pollret st \<le> 0 \<and> (\<exists>s. poll_deliver ufds tm st = Inr (0, ufds, po_log s st))) \<or>
    (\<exists>i ev st'. poll_deliver ufds tm st = Inr (1, give_event i ev ufds, st') \<and> i < length ufds \<and> ev \<noteq> 0 \<and>
       poll_ok st' \<and> kept st = add_mset (u_fd (ufds ! i), ev) (kept st'))"
proof (cases "0 < real_pollret st")
  case True
  then obtain real where r: "real_ufds st = Some real" "length real = 1000" "real_nfds st \<le> 1000"
    "real_pollret st = int (size (poll_cache st))"
    using assms(1) by (cases "real_ufds st") (simp_all add: poll_ok_def)
  have "\<exists>p \<in> set (take (real_nfds st) real). u_revents p \<noteq> 0"
    using True r by (auto simp: poll_cache_def size_events_in filter_empty_conv)
  then obtain k where "k < real_nfds st" "u_revents (real ! k) \<noteq> 0" using r by (auto simp: in_set_conv_nth)
  then have "find (\<lambda>i. u_revents (real ! i) \<noteq> 0) [0..<real_nfds st] \<noteq> None" by (auto simp: find_None_iff)
  then obtain i where i: "find (\<lambda>i. u_revents (real ! i) \<noteq> 0) [0..<real_nfds st] = Some i" by auto
  note f = find_index_Some[OF i]
  have fd: "u_fd (real ! i) = u_fd (ufds ! i)"
    using arg_cong[OF assms(3), of "\<lambda>xs. xs ! i"] f r assms(2) by simp
  let ?st = "st\<lparr>real_ufds := Some (take_event i real), real_pollret := real_pollret st - 1\<rparr>"
  have t: "poll_ok ?st" "kept st = add_mset (u_fd (ufds ! i), u_revents (real ! i)) (kept ?st)"
    using poll_take[OF assms(1) True r(1) f[THEN conjunct1] f[THEN conjunct2]] fd by simp_all
  have "\<exists>s. poll_deliver ufds tm st = Inr (1, give_event i (u_revents (real ! i)) ufds, po_log s ?st)"
    using True r(1-3) f i assms(2) by (simp add: poll_deliver_def Let_def) (rule exI, rule refl)
  then show ?thesis using t f assms(2) poll_ok_log by metis
qed (auto simp: poll_deliver_def Let_def)

text \<open>One call: what it reports and what it keeps, against what was kept and what the kernel answered.\<close>

lemma trace_poll_step:
  assumes "poll_ready block st" and "0 < length ufds" and "length ufds \<le> 1000" and "honest (length ufds) ans"
  obtains r u st' where "trace_poll block ufds tm ans st = Inr (r, u, st')" "poll_ok st'" "r \<in> {0, 1}" "length u = length ufds"
    "int (size (reported (r, u))) = r" "reported (r, u) + kept st' \<subseteq># kept st + answered block ufds tm ans st"
    "r = 0 \<longrightarrow> fst ans \<le> 0 \<and> u = ufds"
proof -
  define st1 where "st1 = poll_begin block ufds tm st"
  have s1: "poll_ok st1" "kept st1 = kept st" using poll_begin_ok[OF assms(1)] by (simp_all add: st1_def)
  from poll_cached_cases[OF s1(1), of ufds tm] show thesis
  proof (elim disjE exE conjE)
    fix i ev st'
    assume c: "poll_cached ufds tm st1 = Inr (Some (1, give_event i ev ufds, st'))" "i < length ufds" "ev \<noteq> 0" "poll_ok st'"
      "kept st1 = add_mset (u_fd (ufds ! i), ev) (kept st')"
    then show thesis
      using that[of 1 "give_event i ev ufds" st'] s1 by (simp add: trace_poll_def Let_def flip: st1_def)
  next
    assume c: "poll_cached ufds tm st1 = Inr None"
    obtain st2 where st2: "poll_refill ufds tm ans st1 = Inr st2" "poll_ok st2" "real_nfds st2 = length ufds" "real_pollret st2 = fst ans"
      "kept st2 = (if 0 < fst ans then events_in (with_answer ans ufds) else {#})"
      "map u_fd (take (length ufds) (the (real_ufds st2))) = map u_fd ufds"
      using poll_refill_ok[OF s1(1) assms(2-4)] by metis
    have run: "trace_poll block ufds tm ans st = poll_deliver ufds tm st2"
      using c st2(1) by (simp add: trace_poll_def Let_def flip: st1_def)
    have ans: "answered block ufds tm ans st = kept st2" using c st2(5) by (simp add: answered_def flip: st1_def)
    from poll_deliver_cases[OF st2(2,3,6), of tm] show thesis
    proof (elim disjE exE conjE)
      fix s assume d: "real_pollret st2 \<le> 0" "poll_deliver ufds tm st2 = Inr (0, ufds, po_log s st2)"
      then show thesis using that[of 0 ufds "po_log s st2"] st2 run ans by (simp add: reported_def)
    next
      fix i ev st'
      assume d: "poll_deliver ufds tm st2 = Inr (1, give_event i ev ufds, st')" "i < length ufds" "ev \<noteq> 0" "poll_ok st'"
        "kept st2 = add_mset (u_fd (ufds ! i), ev) (kept st')"
      then show thesis using that[of 1 "give_event i ev ufds" st'] run ans by simp
    qed
  qed
qed

section \<open>A program's calls, one after the other\<close>

fun run_polls ::
  "upollfd list option \<Rightarrow> (upollfd list \<times> int \<times> (int \<times> 16 word list)) list \<Rightarrow> tpoll \<Rightarrow> ((int \<times> upollfd list) list \<times> tpoll) result" where
  "run_polls block [] st = Inr ([], st)"
| "run_polls block ((ufds, tm, ans) # cs) st =
     rbind (trace_poll block ufds tm ans st) (\<lambda>(r, u, st').
     rbind (run_polls block cs st') (\<lambda>(rs, st''). Inr ((r, u) # rs, st'')))"

text \<open>All the events that the kernel told the library of in these calls.\<close>

fun kernel_events :: "upollfd list option \<Rightarrow> (upollfd list \<times> int \<times> (int \<times> 16 word list)) list \<Rightarrow> tpoll \<Rightarrow> (int \<times> 16 word) multiset" where
  "kernel_events block [] st = {#}"
| "kernel_events block ((ufds, tm, ans) # cs) st =
     answered block ufds tm ans st +
     (case trace_poll block ufds tm ans st of Inl e \<Rightarrow> {#} | Inr (r, u, st') \<Rightarrow> kernel_events block cs st')"

definition good_call :: "upollfd list \<times> int \<times> (int \<times> 16 word list) \<Rightarrow> bool" where
  "good_call c \<longleftrightarrow> (case c of (ufds, tm, ans) \<Rightarrow> 0 < length ufds \<and> length ufds \<le> 1000 \<and> honest (length ufds) ans)"

text \<open>The state before the first call, all of it zero.\<close>

definition tpoll0 :: tpoll where
  "tpoll0 = \<lparr>real_ufds = None, real_nfds = 0, real_timeout = 0, real_pollret = 0, seen_poll = False, po_lines = []\<rparr>"

text \<open>A call returns 0 only where the kernel has nothing to report, and then leaves the array as it was.\<close>

definition quiet :: "upollfd list \<times> int \<times> (int \<times> 16 word list) \<Rightarrow> int \<times> upollfd list \<Rightarrow> bool" where
  "quiet c r \<longleftrightarrow> fst r = 0 \<longrightarrow> fst (snd (snd c)) \<le> 0 \<and> snd r = fst c"

lemma run_polls_step:
  assumes "poll_ready block st" and "list_all good_call cs"
  shows "\<exists>rs st'. run_polls block cs st = Inr (rs, st') \<and> length rs = length cs \<and> (cs \<noteq> [] \<longrightarrow> poll_ok st') \<and>
    list_all (\<lambda>r. int (size (reported r)) = fst r) rs \<and> list_all2 quiet cs rs \<and>
    (\<Sum>r\<leftarrow>rs. reported r) + kept st' \<subseteq># kept st + kernel_events block cs st"
  using assms
proof (induction cs arbitrary: st)
  case (Cons c cs)
  obtain ufds tm ans where c: "c = (ufds, tm, ans)" by (cases c) auto
  have g: "0 < length ufds" "length ufds \<le> 1000" "honest (length ufds) ans" using Cons.prems(2) by (simp_all add: c good_call_def)
  obtain r u st1 where s: "trace_poll block ufds tm ans st = Inr (r, u, st1)" "poll_ok st1" "int (size (reported (r, u))) = r"
    "reported (r, u) + kept st1 \<subseteq># kept st + answered block ufds tm ans st" "r = 0 \<longrightarrow> fst ans \<le> 0 \<and> u = ufds"
    using trace_poll_step[OF Cons.prems(1), of ufds ans tm] g by metis
  have q: "quiet c (r, u)" using c s(5) by (simp add: quiet_def)
  obtain rs st' where i: "run_polls block cs st1 = Inr (rs, st')" "length rs = length cs" "cs \<noteq> [] \<longrightarrow> poll_ok st'"
    "list_all (\<lambda>r. int (size (reported r)) = fst r) rs" "list_all2 quiet cs rs"
    "(\<Sum>r\<leftarrow>rs. reported r) + kept st' \<subseteq># kept st1 + kernel_events block cs st1"
    using Cons.IH[of st1] Cons.prems s(2) by (auto simp: poll_ready_def)
  have ok: "poll_ok st'" using i(1,3) s(2) by (cases cs) auto
  have "reported (r, u) + ((\<Sum>r\<leftarrow>rs. reported r) + kept st') \<subseteq># reported (r, u) + (kept st1 + kernel_events block cs st1)"
    using i(6) by simp
  also have "\<dots> = (reported (r, u) + kept st1) + kernel_events block cs st1" by (simp add: ac_simps)
  also have "\<dots> \<subseteq># (kept st + answered block ufds tm ans st) + kernel_events block cs st1"
    using s(4) by simp
  finally have sub: "reported (r, u) + ((\<Sum>r\<leftarrow>rs. reported r) + kept st') \<subseteq># kept st + answered block ufds tm ans st + kernel_events block cs st1" .
  show ?case
  proof (intro exI conjI)
    show "run_polls block (c # cs) st = Inr ((r, u) # rs, st')" using c s(1) i(1) by simp
    show "(\<Sum>r\<leftarrow>(r, u) # rs. reported r) + kept st' \<subseteq># kept st + kernel_events block (c # cs) st"
      using sub c s(1) by (simp add: add.assoc)
  qed (use q s(3) i(2,4,5) ok in simp_all)
qed simp

section \<open>Properties\<close>

text \<open>
  C36: However a program calls \<^verbatim>\<open>poll\<close>, the serialising wrapper answers every call, reports at most one event in
  each and none only where the kernel has none, and never invents an event or reports one twice: the events that all the
  calls report, with those still kept afterwards, are among the events that the kernel reported, each as often.  It takes
  for granted that the block could be allocated, that the calls name between 1 and 1000 descriptors and that the kernel
  counts its events rightly.
\<close>

theorem polls_report_events_once:
  assumes "block = Some b" and "length b = 1000" and "list_all good_call cs"
  shows "\<exists>rs st'. run_polls block cs tpoll0 = Inr (rs, st') \<and> list_all2 quiet cs rs \<and>
    list_all (\<lambda>r. fst r \<in> {0, 1} \<and> int (size (reported r)) = fst r) rs \<and>
    (\<Sum>r\<leftarrow>rs. reported r) + kept st' \<subseteq># kernel_events block cs tpoll0"
proof -
  have "poll_ready block tpoll0" "kept tpoll0 = {#}" using assms(1,2) by (simp_all add: poll_ready_def tpoll0_def kept_def)
  then obtain rs st' where r: "run_polls block cs tpoll0 = Inr (rs, st')" "list_all2 quiet cs rs"
    "list_all (\<lambda>r. int (size (reported r)) = fst r) rs" "(\<Sum>r\<leftarrow>rs. reported r) + kept st' \<subseteq># kernel_events block cs tpoll0"
    using run_polls_step[of block tpoll0 cs] assms(3) by auto
  have "int (size (reported x)) = fst x \<Longrightarrow> fst x \<in> {0, 1}" for x :: "int \<times> upollfd list"
    by (auto simp: reported_def split: if_splits)
  then have "list_all (\<lambda>r. fst r \<in> {0, 1} \<and> int (size (reported r)) = fst r) rs"
    using r(3) by (auto simp: list_all_iff)
  then show ?thesis using r by blast
qed

text \<open>Two descriptors become readable at once; the second call is answered from the cache.\<close>

definition two_ready :: "(upollfd list \<times> int \<times> (int \<times> 16 word list)) list" where
  "two_ready =
     (let ufds = [\<lparr>u_fd = 3, u_events = 1, u_revents = 0\<rparr>, \<lparr>u_fd = 4, u_events = 1, u_revents = 0\<rparr>]
      in [(ufds, -1, (2, [1, 1])), (ufds, -1, (0, [0, 0]))])"

definition poll_block :: "upollfd list" where
  "poll_block = replicate 1000 \<lparr>u_fd = 0, u_events = 0, u_revents = 0\<rparr>"

theorem polls_report_events_once_witness:
  "\<exists>rs st'. run_polls (Some poll_block) two_ready tpoll0 = Inr (rs, st') \<and> list_all2 quiet two_ready rs \<and>
    (\<Sum>r\<leftarrow>rs. reported r) + kept st' \<subseteq># kernel_events (Some poll_block) two_ready tpoll0"
proof -
  have "list_all good_call two_ready" by code_simp
  then show ?thesis
    using polls_report_events_once[of "Some poll_block" poll_block two_ready] by (auto simp: poll_block_def)
qed

text \<open>
  What the wrapper does at its ends.  A call without descriptors, as programs make to sleep, while events are kept
  writes past the caller's array; a call with more than 1000 descriptors writes past the library's block; and a
  \<^verbatim>\<open>poll\<close> that fails is reported as 0, an elapsed time, with the array as it was.
\<close>

lemma poll_ends:
  assumes "poll_ok st"
  shows "(0 < real_pollret st \<longrightarrow> trace_poll block [] tm ans st = Inl OutOfBounds) \<and>
    (real_pollret st \<le> 0 \<longrightarrow> 1000 < length ufds \<longrightarrow> trace_poll block ufds tm ans st = Inl OutOfBounds) \<and>
    (real_pollret st \<le> 0 \<longrightarrow> 0 < length ufds \<and> length ufds \<le> 1000 \<and> fst ans < 0 \<longrightarrow>
      (\<exists>st'. trace_poll block ufds tm ans st = Inr (0, ufds, st')))"
proof -
  obtain real where r: "real_ufds st = Some real" "length real = 1000" "seen_poll st"
    using assms by (cases "real_ufds st") (simp_all add: poll_ok_def)
  have start: "real_ufds (poll_begin block u tm st) = real_ufds st" "real_nfds (poll_begin block u tm st) = real_nfds st"
    "real_pollret (poll_begin block u tm st) = real_pollret st" for u
    using r(3) by (simp_all add: poll_begin_def poll_start_def)
  show ?thesis
  proof (intro conjI impI)
    assume pos: "0 < real_pollret st"
    then have n: "real_nfds st \<le> 1000" "poll_cache st \<noteq> {#}" using assms r by (auto simp: poll_ok_def)
    then have "\<exists>p \<in> set (take (real_nfds st) real). u_revents p \<noteq> 0"
      using r by (auto simp: poll_cache_def events_in_def)
    then obtain k where "k < real_nfds st" "u_revents (real ! k) \<noteq> 0" using n r by (auto simp: in_set_conv_nth)
    then have "find (\<lambda>i. u_revents (real ! i) \<noteq> 0) [0..<real_nfds st] \<noteq> None" by (auto simp: find_None_iff)
    then show "trace_poll block [] tm ans st = Inl OutOfBounds"
      using r pos n start by (auto simp: trace_poll_def poll_cached_def poll_refill_def poll_deliver_def cached_event_def Let_def)
  next
    assume "real_pollret st \<le> 0" "1000 < length ufds"
    then show "trace_poll block ufds tm ans st = Inl OutOfBounds"
      using r start by (auto simp: trace_poll_def poll_cached_def poll_refill_def Let_def)
  next
    assume "real_pollret st \<le> 0" "0 < length ufds \<and> length ufds \<le> 1000 \<and> fst ans < 0"
    then show "\<exists>st'. trace_poll block ufds tm ans st = Inr (0, ufds, st')"
      using r start by (auto simp: trace_poll_def poll_cached_def poll_refill_def poll_deliver_def Let_def)
  qed
qed

end
