(* ===== verification/Trace_Lib.thy ===== *)
theory Trace_Lib
  imports Min_Lib Trace_Poll
begin

text \<open>
  The calls of the older wrapper library \<^verbatim>\<open>src/trace/trace.c\<close>: the set of descriptors that are traced,
  the tables of sockets, the line that each call leaves, the start of the library, and runs of calls of all wrappers, with \<^verbatim>\<open>poll\<close> from
  \<open>Trace_Poll\<close>.  The property is an invariant of the runs: what is traced is what the process has open.  The macro \<^verbatim>\<open>LOG\<close> and the dispatchers \<^verbatim>\<open>pp_*_dispatch\<close>
  of that version are no longer in the repository: messages are recorded as they are, and the dispatchers are parameters.
\<close>

section \<open>State\<close>

record 'p trlib =
  tl_first :: bool
  tl_real :: "string set"
  tl_sock :: int
  tl_tracked :: "int set"
  tl_types :: "int \<Rightarrow> int"
  tl_domains :: "int \<Rightarrow> int"
  tl_ports :: "int \<Rightarrow> int"
  tl_files :: "int \<Rightarrow> string option"
  tl_listens :: nat
  tl_prog :: "string option"
  tl_bin :: string
  tl_env :: "string list"
  tl_relay :: "string list"
  tl_conn :: "(string \<times> nat) list"
  tl_err :: "string list"
  tl_lines :: "string list"
  tl_poll :: tpoll
  tl_pp :: 'p

text \<open>The dispatchers; those that fill \<^verbatim>\<open>flag\<close> return it.\<close>

record 'p old_pp =
  op_accept :: "int \<Rightarrow> int \<Rightarrow> int \<Rightarrow> int \<Rightarrow> string option \<Rightarrow> 'p \<Rightarrow> 'p"
  op_close :: "int \<Rightarrow> 'p \<Rightarrow> string \<times> 'p"
  op_pipe :: "int \<Rightarrow> string \<Rightarrow> 'p \<Rightarrow> 'p"
  op_read :: "int \<Rightarrow> string \<Rightarrow> 'p \<Rightarrow> string \<times> 'p"
  op_write :: "int \<Rightarrow> string \<Rightarrow> 'p \<Rightarrow> string \<times> 'p"
  op_init_log :: "'p \<Rightarrow> 'p"

definition tr_log :: "string \<Rightarrow> 'p trlib \<Rightarrow> 'p trlib" where
  "tr_log s st = st\<lparr>tl_lines := tl_lines st @ [s]\<rparr>"






definition clear_fd :: "int \<Rightarrow> 'p trlib \<Rightarrow> 'p trlib result" where
  "clear_fd fd st = (if 0 \<le> fd \<and> fd < 1024 then Inr (st\<lparr>tl_tracked := tl_tracked st - {fd}\<rparr>) else Inl OutOfBounds)"

text \<open>\<^verbatim>\<open>if (!FD_ISSET(s, &tracked)) return real_...\<close>: \<open>r\<close> is that result, \<open>body\<close> the rest of the wrapper.\<close>

definition if_tracked :: "int \<Rightarrow> int \<Rightarrow> ('p trlib \<Rightarrow> (int \<times> 'p trlib) result) \<Rightarrow> 'p trlib \<Rightarrow> (int \<times> 'p trlib) result" where
  "if_tracked s r body st =
     (if \<not> (0 \<le> s \<and> s < 1024) then Inl OutOfBounds else if s \<in> tl_tracked st then body st else Inr (r, st))"

section \<open>Making and closing descriptors\<close>















section \<open>Reading and writing\<close>

text \<open>\<open>buf\<close> is what the call has read or was given to write; the dispatchers see its first \<open>r\<close> bytes.\<close>

definition dispatched :: "(int \<Rightarrow> string \<Rightarrow> 'p \<Rightarrow> string \<times> 'p) \<Rightarrow> int \<Rightarrow> string \<Rightarrow> int \<Rightarrow> 'p trlib \<Rightarrow> string \<times> 'p trlib" where
  "dispatched f s buf r st =
     (if 0 < r then (case f s (take (nat r) buf) (tl_pp st) of (flag, p) \<Rightarrow> (flag, st\<lparr>tl_pp := p\<rparr>)) else ('''', st))"














section \<open>Starting, processes and the environment\<close>

text \<open>
  The answers of \<^verbatim>\<open>socket\<close>, \<^verbatim>\<open>connect\<close>, and of \<^verbatim>\<open>open\<close> and \<^verbatim>\<open>write\<close> for the switch of the page fault module; the
  functions are looked up first.  The statements \<^verbatim>\<open>exit;\<close> after the messages do nothing.
\<close>

record trsys =
  ts_dlsym :: "string \<Rightarrow> bool"
  ts_socket :: int
  ts_connect :: int
  ts_relay :: int
  ts_write :: int
  ts_pid :: int

definition tr_pfdura_on :: "trsys \<Rightarrow> 'p trlib \<Rightarrow> 'p trlib" where
  "tr_pfdura_on k st =
     (if ts_relay k < 0 \<or> ts_write k < 0 then st else st\<lparr>tl_relay := tl_relay st @ [show_int (ts_pid k)]\<rparr>)"

definition tr_wrapped :: "string list" where
  "tr_wrapped =
     [''pipe'', ''dup'', ''dup2'', ''socket'', ''bind'', ''listen'', ''accept'', ''connect'', ''close'', ''getsockname'', ''open'',
      ''creat'', ''read'', ''recv'', ''recvfrom'', ''recvmsg'', ''write'', ''send'', ''sendto'', ''sendmsg'', ''select'', ''pselect'',
      ''poll'', ''gettimeofday'', ''fork'', ''execve'', ''execl'', ''clearenv'', ''unsetenv'', ''mmap'', ''munmap'', ''exit'', ''abort'']"

text \<open>The rest of \<^verbatim>\<open>init\<close>, once all the functions are found.\<close>

definition tr_connect_log :: "trsys \<Rightarrow> 'p trlib \<Rightarrow> 'p trlib result" where
  "tr_connect_log k st =
     (let err = (if ts_socket k < 0 then [''couldn't create socket''] else []) @ (if ts_connect k < 0 then [''couldn't connect''] else []);
          st1 = tr_log ''START'' (st\<lparr>tl_first := True, tl_prog := real_getenv ''TRACE_FN'' (tl_env st), tl_bin := [], tl_sock := ts_socket k,
                  tl_conn := tl_conn st @ [logd_addr (tl_env st)], tl_err := tl_err st @ err\<rparr>);
          st2 = tr_log ''enable_pfdura'' (tr_pfdura_on k st1)
      in clear_fd (tl_sock st2) (st2\<lparr>tl_tracked := {0, 1, 2} \<union> tl_tracked st2\<rparr>))"

text \<open>A missing function: \<^verbatim>\<open>exit(1)\<close> is the wrapper below, which starts with \<^verbatim>\<open>init\<close>; \<open>None\<close> where that does not end.\<close>

partial_function (option) tr_init :: "trsys \<Rightarrow> 'p trlib \<Rightarrow> 'p trlib result option" where
  "tr_init k st =
     (if tl_first st then Some (Inr st)
      else case init_reals (ts_dlsym k) tr_wrapped (tl_real st) of
        Inl r \<Rightarrow> tr_init k (st\<lparr>tl_real := r, tl_err := tl_err st @ [''dlsym'']\<rparr>)
      | Inr r \<Rightarrow> Some (tr_connect_log k (st\<lparr>tl_real := r\<rparr>)))"

definition tr_reinit :: "trsys \<Rightarrow> 'p trlib \<Rightarrow> 'p trlib result option" where
  "tr_reinit k st = tr_init k (st\<lparr>tl_first := False\<rparr>)"

text \<open>The copies that \<^verbatim>\<open>DEBUG_STRACE_KIDS\<close> would start are switched off in \<^verbatim>\<open>config.h\<close>.\<close>

definition tr_fork :: "'p old_pp \<Rightarrow> trsys \<Rightarrow> int \<Rightarrow> 'p trlib \<Rightarrow> (int \<times> 'p trlib) result option" where
  "tr_fork pp k r st =
     (let st1 = tr_log ''fork_begin()'' st
      in map_option
           (\<lambda>res. rbind res (\<lambda>st2. Inr (r, tr_log (''fork() = '' @ show_int r) (if r = 0 then st2\<lparr>tl_pp := op_init_log pp (tl_pp st2)\<rparr> else st2))))
           (if r = 0 then tr_reinit k st1 else Some (Inr st1)))"







text \<open>A forked child is logged again, on a connection of its own, from a library that starts anew.\<close>

lemma tr_fork_child:
  assumes "list_all (ts_dlsym k) tr_wrapped" and "0 \<le> ts_socket k" and "ts_socket k < 1024"
  shows "\<exists>st'. tr_fork pp k 0 st = Some (Inr (0, st')) \<and> tl_conn st' = tl_conn st @ [logd_addr (tl_env st)] \<and>
    tl_tracked st' = ({0, 1, 2} \<union> tl_tracked st) - {ts_socket k}"
proof -
  have "init_reals (ts_dlsym k) tr_wrapped (tl_real st) = Inr (tl_real st \<union> set tr_wrapped)"
    using assms(1) by (intro init_reals_found) (auto simp: list_all_iff)
  then show ?thesis
    using assms(2,3)
    by (simp add: tr_fork_def tr_reinit_def tr_init.simps tr_connect_log_def clear_fd_def tr_log_def tr_pfdura_on_def Let_def)
qed

section \<open>All the calls\<close>










section \<open>What a call may touch and what it leaves traced\<close>





lemma tr_log_simps [simp]:
  "tl_tracked (tr_log s st) = tl_tracked st" "tl_types (tr_log s st) = tl_types st" "tl_pp (tr_log s st) = tl_pp st"
  "tl_first (tr_log s st) = tl_first st" "tl_sock (tr_log s st) = tl_sock st"
  by (simp_all add: tr_log_def)

text \<open>A call's result, the descriptors that are traced after it, and what the library knows of itself.\<close>

definition view :: "'p trlib \<Rightarrow> int set \<times> bool \<times> int" where
  "view st = (tl_tracked st, tl_first st, tl_sock st)"

definition outcome :: "(int \<times> 'p trlib) result \<Rightarrow> (int \<times> int set \<times> bool \<times> int) result" where
  "outcome res = rbind res (\<lambda>(r, st). Inr (r, view st))"

lemma outcome_simps [simp]: "outcome (Inl e) = Inl e" "outcome (Inr (r, st)) = Inr (r, view st)"
  by (simp_all add: outcome_def)

lemma view_dispatched [simp]:
  "tl_tracked (snd (dispatched f s buf r st)) = tl_tracked st" "tl_first (snd (dispatched f s buf r st)) = tl_first st"
  "tl_sock (snd (dispatched f s buf r st)) = tl_sock st"
  by (simp_all add: dispatched_def split: prod.splits)

lemma outcome_if [simp]: "outcome (if b then x else y) = (if b then outcome x else outcome y)"
  by simp

lemma outcome_tracked [simp]:
  "outcome (if_tracked s r body st) =
     (if \<not> (0 \<le> s \<and> s < 1024) then Inl OutOfBounds else if s \<in> tl_tracked st then outcome (body st) else Inr (r, view st))"
  by (simp add: if_tracked_def)











section \<open>What is traced over a run\<close>








text \<open>The invariant: the library is set up, and what is traced are the open descriptors \<open>F\<close>, never that of the log.\<close>

definition tracing :: "int set \<Rightarrow> 'p trlib \<Rightarrow> bool" where
  "tracing F st \<longleftrightarrow> tl_first st \<and> 3 \<le> tl_sock st \<and> tl_sock st \<notin> F \<and> F \<subseteq> tl_tracked st \<and> tl_tracked st \<subseteq> {0, 1, 2} \<union> F"

lemma tr_init_first [simp]: "tl_first st \<Longrightarrow> tr_init k st = Some (Inr st)"
  by (simp add: tr_init.simps)







lemma tracing_frame:
  assumes "tracing F st" and "tl_first st' = tl_first st" and "tl_sock st' = tl_sock st" and "tl_tracked st' = tl_tracked st"
  shows "tracing F st'"
  using assms by (simp add: tracing_def)






section \<open>Properties\<close>







end
