(* ===== verification/Tools.thy ===== *)
theory Tools
  imports Min_Lib
begin

text \<open>
  Two small pieces beside the libraries: the halves of the cycle counter, \<^verbatim>\<open>src/trace/cycles.h\<close>, and the program
  \<^verbatim>\<open>src/trace/gtod.c\<close> that prints the time in the form of the older logs.  The instruction \<^verbatim>\<open>rdtsc\<close> is a parameter.
\<close>

section \<open>The cycle counter\<close>

definition cycle_low :: "64 word \<Rightarrow> 32 word" where
  "cycle_low c = ucast (drop_bit 32 (push_bit 32 c))"

definition cycle_high :: "64 word \<Rightarrow> 32 word" where
  "cycle_high c = ucast (drop_bit 32 c)"

text \<open>\<^verbatim>\<open>PROF_START\<close> and \<^verbatim>\<open>PROF_END\<close>: each half is read on its own and the differences are taken half by half.\<close>

definition prof_line :: "string \<Rightarrow> 64 word \<times> 64 word \<Rightarrow> 64 word \<times> 64 word \<Rightarrow> string" where
  "prof_line fn start stop =
     (let h = uint (cycle_high (fst start)); l = uint (cycle_low (snd start));
          h' = uint (cycle_high (fst stop)); l' = uint (cycle_low (snd stop))
      in (if 100000 < l' - l then replicate 11 CHR ''*'' @ [CHR 0x0A] else []) @
         ''prof|'' @ fn @ ''|'' @ show_int (h' - h) @ ''|'' @ show_int (l' - l) @ [CHR 0x0A])"

lemma cycle_low_uint: "uint (cycle_low c) = uint c mod 2 ^ 32"
proof -
  have "uint (cycle_low c) = take_bit 32 (uint c)"
    by (rule bit_eqI) (auto simp: cycle_low_def bit_simps)
  then show ?thesis by (simp add: take_bit_eq_mod)
qed

lemma cycle_high_uint: "uint (cycle_high c) = uint c div 2 ^ 32"
proof -
  have "uint (cycle_high c) = drop_bit 32 (uint c)"
    by (rule bit_eqI) (auto simp: cycle_high_def bit_simps dest: bit_imp_le_length)
  then show ?thesis by (simp add: drop_bit_eq_div)
qed

text \<open>The two halves give the counter, if they are read from the same value of it.\<close>

lemma cycle_halves: "uint c = uint (cycle_high c) * 2 ^ 32 + uint (cycle_low c)"
  by (simp add: cycle_low_uint cycle_high_uint)

section \<open>The time of day\<close>

text \<open>\<open>now\<close> is the answer of \<^verbatim>\<open>gettimeofday\<close>; the numbers are \<^verbatim>\<open>long\<close>.\<close>

definition gtod_stamp :: "int \<times> int \<Rightarrow> int" where
  "gtod_stamp now = (fst now - 1144765785) * 1000 + snd now"

definition gtod_main :: "(int \<times> int) option \<Rightarrow> string list result" where
  "gtod_main now = (case now of
     None \<Rightarrow> Inl (Exit 1)
   | Some (sec, usec) \<Rightarrow> Inr [''S: '' @ zero_pad 15 sec, ''U: '' @ zero_pad 15 usec, ''TS: '' @ show_int (gtod_stamp (sec, usec))])"

text \<open>Microseconds are added to milliseconds: a later time can have a smaller stamp, and one stamp stands for many times.\<close>

lemma gtod_stamp_goes_back: "gtod_stamp (sec + 1, 0) < gtod_stamp (sec, 999999)"
  by (simp add: gtod_stamp_def)

end
