(* ===== verification/Spec2Isabelle.thy ===== *)
theory Spec2Isabelle
  imports Expand Logd Vfd_Proc Vfd_Types Vfd_Msgs Pf_Feed Vfd_Exit Trace_Lib Tools "HOL-Library.Sublist"
begin

text \<open>
  A verification library for Border Patrol: tracing of multi-tier applications by interposition.

  \<^bold>\<open>The program.\<close>  A shared library (\<^verbatim>\<open>src/src/trace/vfd.c\<close>, \<^verbatim>\<open>protocol.c\<close>, \<^verbatim>\<open>getservice.c\<close>, \<^verbatim>\<open>wrap.h\<close>) is preloaded
  into every process.  It replaces the calls of the C library, gives a descriptor that carries a known
  protocol a plugin, shows the plugin what is read and written so that it can cut the streams into
  messages, and logs every event with the functions of \<^verbatim>\<open>src/src/logd/binlog.c\<close> and
  \<^verbatim>\<open>fmt.c\<close>.  The log entries of all processes go to the daemon \<^verbatim>\<open>logd.c\<close>, which corrects the
  clocks and writes one file; \<^verbatim>\<open>expand.c\<close> reads that file with \<^verbatim>\<open>common.c\<close> and prints it.
  A kernel module (\<^verbatim>\<open>src/src/pfdura/pfdura-mod.c\<close>) records the page faults of the processes it was told to watch, by the library at
  the start of a process or by \<^verbatim>\<open>pfdura.c\<close>; \<^verbatim>\<open>src/src/trace/pf.c\<close> sends the slow ones to the daemon.

  \<^bold>\<open>The theories.\<close>
  \<^item> \<open>Bp_Prelude\<close>: results with the errors of C (\<open>Exit\<close>, \<open>AssertFail\<close>, \<open>OutOfBounds\<close>, \<open>NullDeref\<close>, \<open>Blocked\<close>),
    memory as \<open>peek\<close> and \<open>poke\<close> on character lists, integers at their width, the string and number functions
    of the C library.
  \<^item> \<open>Fmt\<close>, \<open>Timeval\<close>, \<open>Binlog\<close>: the frozen and thawed log entry with \<^verbatim>\<open>freeze\<close>, \<^verbatim>\<open>thaw1\<close>, \<^verbatim>\<open>thaw2\<close>; \<^verbatim>\<open>timersub\<close> and
    \<^verbatim>\<open>timeradd\<close>; the thread context with its buffer, \<^verbatim>\<open>lb_flush\<close>, \<^verbatim>\<open>lb_alloc_bytes\<close>, \<^verbatim>\<open>LOGBIN_gen\<close> and the \<^verbatim>\<open>LOGBIN\<close>
    calls.  The locale \<open>log_writer\<close> is the contract of a log: a call appends its entries to a stream; \<open>buffer\<close> interprets it.
  \<^item> \<open>Common\<close>, \<open>Expand\<close>: the reader (\<^verbatim>\<open>refill\<close>, \<^verbatim>\<open>fill\<close>, \<^verbatim>\<open>get_le\<close>) over a kernel that answers reads with any
    pieces, and the whole of \<^verbatim>\<open>expand\<close>.
  \<^item> \<open>Logd\<close>: the daemon's state, \<^verbatim>\<open>transfer_in\<close>, \<^verbatim>\<open>transfer_out\<close>, the clock difference, accepting and losing
    clients, the rounds of the main loop.
  \<^item> \<open>Pp_Base\<close>, \<open>Pp_Sql\<close>, \<open>Pp_Misc\<close>, \<open>Pp_Http\<close>: the plugins.  The locale \<open>pp_contract\<close> says what the virtual
    descriptors rely on (an answer takes at least one byte of the data or asks for more; asking changes nothing; an answer
    after asking takes more than was offered before); it is interpreted for every plugin that keeps it.
  \<^item> \<open>Getservice\<close>, \<open>Protocol\<close>: the services files and the choice of a plugin; the table of dispatchers.
  \<^item> \<open>Vfd\<close>, \<open>Vfd_Io\<close>, \<open>Vfd_Fd\<close>: the descriptor table (record \<open>vfd\<close>, globals in the record \<open>proc\<close>), the read
    buffer, the copy of written data, and the wrappers \<open>wrap_read\<close>, \<open>wrap_write\<close>, \<open>wrap_accept\<close>, \<open>wrap_select\<close> and so on, one per
    intercepted call and named after it.
  \<^item> \<open>Vfd_Inv\<close>: the calls as an inductive step relation and the invariant of the table.  \<open>Vfd_Types\<close>: over the
    same runs, the types of what the plugins keep behind a \<^verbatim>\<open>void *\<close>.  \<open>Vfd_Msgs\<close>: a MySQL connection from the
    program's calls to the message events.
  \<^item> \<open>Vfd_Proc\<close>: initialisation, \<^verbatim>\<open>exit\<close>, \<^verbatim>\<open>fork\<close>, the \<^verbatim>\<open>exec\<close> family, the environment, threads.
  \<^item> \<open>Pf_Module\<close>: the kernel module with its control files, bit vector (locale \<open>pid_vector\<close>, interpretation \<open>pids\<close>), probes, loading and
    unloading.  \<open>Pf_Feed\<close>: the programs \<^verbatim>\<open>pf\<close> and \<^verbatim>\<open>pfdura\<close> that read its records.
  \<^item> \<open>Log_Threads\<close>: the threads of a process, each with its context, that log to one descriptor; a step is a log call, the
    beginning or end of a flush, or one \<^verbatim>\<open>write\<close>.  \<open>Vfd_Exit\<close>: what the library's own \<^verbatim>\<open>exit(1)\<close> does after an error, as the
    name is its own wrapper: in \<^verbatim>\<open>lb_flush\<close> and while the real functions are looked up (\<^verbatim>\<open>wrap_init\<close>), and what the first call comes to.
  \<^item> \<open>Min_Lib\<close>: the minimal library \<^verbatim>\<open>src/src/trace/min.c\<close>, which logs lines of text.  \<open>Trace_Poll\<close>, \<open>Trace_Lib\<close>: the older
    library \<^verbatim>\<open>trace.c\<close>, its \<^verbatim>\<open>poll\<close> that hands out one event at a time, the other wrappers, and runs of them all (\<open>tr_run\<close>).  \<open>Tools\<close>: the cycle
    counter of \<^verbatim>\<open>cycles.h\<close> and the program \<^verbatim>\<open>gtod.c\<close>.
  \<^item> this theory: the composition of logging, daemon and reader, for any log calls, for those of a MySQL connection and for
    processes whose threads run interleaved; and of module, \<^verbatim>\<open>pf\<close>, daemon and reader.

  \<^bold>\<open>How state and calls correspond.\<close>  The global variables of a C file are the fields of a record that the
  functions take and return.  A wrapper takes the arguments of the C function and the answers of the real
  call behind it, and returns the C function's return value, what it stores for the caller, and the state.  \<open>px_log\<close> is the
  list of what the wrapper asks of the logging code; the theories of the log say what becomes of it.  The answers of the kernel
  to a daemon or reader are scripts in the state; when a script is exhausted the result is \<open>Blocked\<close>.  The numbering
  of the log events, produced by the build, is the parameter \<open>sysno\<close>; the path of the library is a parameter as well, and so are the largest
  process number and the number conversion of the kernel, with hypotheses that state their documented behaviour.

  \<^bold>\<open>What is shown.\<close>  Entries survive freezing and thawing; log calls append exactly their entries and
  make progress; the reader returns the entries however they are cut; the daemon writes an
  interleaving of its clients' entries and leaves nothing of a stream it has read to the end (but a last entry of the size of a header);
  together, what is logged is what is printed, so that
  the packets of a connection are found again in the printed log.
  The SQL and HTTP plugins see messages, independently of how the bytes arrive, and the events of a MySQL connection are
  those of the packets read and written.  The casts of the plugins' data are sound, except after \<^verbatim>\<open>bind\<close>.
  A read through a plugin delivers the kernel's bytes in order and answers as the kernel does; \<^verbatim>\<open>select\<close> loses no
  ready descriptor; all calls keep the table well formed; programs started by \<^verbatim>\<open>exec\<close> report who started them; \<^verbatim>\<open>fork\<close> keeps the
  log entries apart.  The module is a set of processes and the list of their faults, it loads and unloads without a trace,
  and the slow faults of watched processes are what is printed of them, as long as no end of a fault comes without its begin.  Interleaved threads keep their entries whole as
  long as every \<^verbatim>\<open>write\<close> takes all it is given; the first call returns exactly if every function is found, the daemon is reached and the page
  fault module told; the older \<^verbatim>\<open>poll\<close> reports the events of the kernel once each, and the older library traces the descriptors the process has open.  Where the code does not do what it means to, a property or lemma says what it does: overruns
  of fixed arrays, programs that never end, entries of one thread inside of another's, stalls of plugins and clients, unrequested descriptors, lost ends of streams.

  \<^bold>\<open>Bounds and termination.\<close>  No definition has fuel: loops over data end with the data, loops over the kernel's
  answers with the script, and the calls that can go on
  without end are partial functions (\<^verbatim>\<open>pthread_atfork\<close>, \<open>resolve_all\<close>, \<open>min_init\<close> and \<open>tr_init\<close>).  Buffers have
  the sizes of the source (\<^verbatim>\<open>PIPE_BUF\<close> 4096, \<^verbatim>\<open>VBUFSIZE\<close> 65536, \<^verbatim>\<open>RELAY_BUF\<close> 4 MiB, \<^verbatim>\<open>MAX_FDS\<close> 1024).  The counts of \<^verbatim>\<open>expand\<close> are cut to 32 bits, as its \<^verbatim>\<open>int\<close>s are.

  \<^bold>\<open>Not modelled.\<close>  The locks: outside of the log a wrapper is one step.  The code of the options that are not compiled
  (\<^verbatim>\<open>TRACK_PER_TID\<close>, the named pipe to the daemon, \<^verbatim>\<open>DEBUG_STRACE_KIDS\<close>).  For \<^verbatim>\<open>trace.c\<close>, which no target builds, the macro
  \<^verbatim>\<open>LOG\<close> and the dispatchers \<^verbatim>\<open>pp_*_dispatch\<close> are not in the repository any more: the messages are recorded, the dispatchers are
  parameters.  \<^verbatim>\<open>real_getenv\<close> of \<^verbatim>\<open>min.c\<close> and the instruction \<^verbatim>\<open>rdtsc\<close> are parameters.  The
  aggregation is not C.
\<close>

section \<open>From a log call to the printed log\<close>

text \<open>A thread that logs from an empty buffer and flushes: what the log descriptor has taken.\<close>

lemma thread_sends:
  assumes "ctx_wf ctx" and "log_stream (ctx, sk) = []" and "list_all (\<lambda>nc. logcall_fits (snd nc)) calls"
    and "run_all (log_emit sysno nm) calls (ctx, sk) = Inr (ctx1, sk1)" and "lb_flush (ctx1, sk1) = Inr (ctx2, sk2)"
  obtains ess where "list_all2 (call_encoded sysno nm (ctx, sk)) calls ess" and "list_all wf_thaw (concat ess)"
    and "sk_out sk2 = concat (map entry_bytes (concat ess))"
  using buffer.run_all_stream [of "(ctx, sk)" calls sysno nm "(ctx1, sk1)"] assms(1-4) lb_flush_Inr(2) [OF assms(5)]
  by (auto simp: log_stream_def)

lemma encoded_times:
  assumes "list_all2 (call_encoded sysno nm st) calls ess" and "e \<in> set (concat ess)"
  shows "\<exists>nc \<in> set calls. remote_time (th_fz e) = remote_time (logged_frozen sysno nm (fst nc) (fst st) (snd nc) [])"
  using assms
  by (induction rule: list_all2_induct) (auto simp: call_encoded_def logged_entry_def logged_frozen_def remote_time_def)

text \<open>Any clients of the daemon, and \<^verbatim>\<open>expand\<close> on what the daemon has written.\<close>

lemma clients_printed:
  assumes "\<forall>c. client (S c) c st" and "0 \<le> outfd st" and "full_writes st" and "lg_out st = []"
    and "list_all (\<lambda>ready. sock \<notin> set ready \<and> distinct ready \<and> set ready \<subseteq> {0..<nfds st}) readies"
    and "logd_rounds sock (map Some readies) st = Inr st'"
    and "files fn = Some (Some (length (lg_out st')), script)" and "upcoming False script = lg_out st'" and "ends_eof script"
    and "\<forall>b. RdBytes b \<in> set script \<longrightarrow> length b \<le> PIPE_BUF"
  shows "\<exists>rest L. interleaves L S rest \<and> relayed_whole rest st' \<and>
     expand_main s2s files [''expand'', fn] =
       Inr (1, shown s2s 0 (map (\<lambda>ce. apply_timediff (timediff st' (fst ce)) (snd ce)) L) @
               totals (length L) (length (lg_out st')))"
proof -
  from logd_rounds_relay [OF assms(1-3,5)] assms(4,6) obtain rest L where
    r: "interleaves L S rest" "lg_out st' = tagged_bytes (timediff st') L" "relayed_whole rest st'" by auto
  let ?es = "map (\<lambda>ce. apply_timediff (timediff st' (fst ce)) (snd ce)) L"
  have "wf_thaw (snd ce)" if "ce \<in> set L" for ce
  proof -
    have "snd ce \<in> set (S (fst ce))" using r(1) that by (force simp: interleaves_def)
    then show ?thesis using assms(1) by (auto simp: client_def list_all_iff)
  qed
  then have wf: "list_all wf_thaw ?es" by (auto simp: list_all_iff)
  have out: "lg_out st' = concat (map entry_bytes ?es)" using r(2) by (simp add: tagged_bytes_def comp_def)
  have "expand_main s2s files ([''expand'', fn] @ []) =
      Inr (1, shown s2s 0 ?es @ totals (length ?es) (length (lg_out st')))"
    by (rule expand_main_entries [OF wf out]) (use assms(7-10) in simp_all)
  then show ?thesis using r(1,3) by auto
qed

text \<open>The sizes of entries.\<close>

lemma length_entries: "list_all wf_thaw es \<Longrightarrow> length (concat (map entry_bytes es)) \<le> length es * max_entry"
proof (induction es)
  case (Cons e es)
  then show ?case using length_entry_bounds [of e] by simp
qed simp

lemma logged_entry_length:
  assumes "logcall_fits c" and "length pad = 4"
  shows "length (entry_bytes (logged_entry sysno nm now ctx c pad)) = 32 + 4 * lc_num c + length (logged_str c)"
proof -
  have "sint (of_nat (lc_num c) :: 8 word) = int (lc_num c)" "sint (of_nat (length (logged_str c)) :: 16 word) = int (length (logged_str c))"
    using assms(1) by (simp_all add: logcall_fits_def PIPE_BUF_def signed_of_nat signed_take_bit_int_eq_self)
  then have "frozen_size (th_fz (logged_entry sysno nm now ctx c pad)) = int (32 + 4 * lc_num c + length (logged_str c))"
    by (simp add: frozen_size_eq logged_entry_def logged_frozen_def arg_count_def str_count_def)
  then show ?thesis using length_entry_bytes [OF logged_entry_wf [OF assms]] by (metis of_nat_eq_iff)
qed

lemma encoded_length: "list_all2 (call_encoded sysno nm t) calls ess \<Longrightarrow> length (concat ess) = length calls"
  by (induction rule: list_all2_induct) (auto simp: call_encoded_def)

lemma encoded_size:
  assumes "list_all2 (call_encoded sysno nm t) calls ess" and "e \<in> set (concat ess)" and "list_all (\<lambda>nc. logcall_fits (snd nc)) calls"
  shows "\<exists>nc \<in> set calls. length (entry_bytes e) = 32 + 4 * lc_num (snd nc) + length (logged_str (snd nc))"
  using assms by (induction rule: list_all2_induct) (auto simp: call_encoded_def logged_entry_length)

text \<open>A traced thread behind each connection of the daemon.\<close>

definition traced_by ::
  "(sysid \<Rightarrow> int) \<Rightarrow> char \<Rightarrow> logd \<Rightarrow> int \<Rightarrow> thread_ctx \<times> logsink \<Rightarrow> (timeval \<times> logcall) list \<Rightarrow> bool" where
  "traced_by sysno nm st c t calls \<longleftrightarrow>
     ctx_wf (fst t) \<and> log_stream t = [] \<and> list_all (\<lambda>nc. logcall_fits (snd nc)) calls \<and>
     (\<exists>t1 t2. run_all (log_emit sysno nm) calls t = Inr t1 \<and> lb_flush t1 = Inr t2 \<and>
        upcoming False (lg_reads st c) = sk_out (snd t2)) \<and>
     (\<forall>n. \<forall>nc \<in> set calls. timerisset (timersub (lg_clock st n) (remote_time (logged_frozen sysno nm (fst nc) (fst t) (snd nc) [])))) \<and>
     (relay st c = None \<and> calls = [] \<or> conn_wf c st \<and> b_end st c = 0)"

lemma traced_client:
  assumes "traced_by sysno nm st c t calls"
  obtains ess where "list_all2 (call_encoded sysno nm t) calls ess" and "client (concat ess) c st"
proof -
  from assms obtain t1 t2 where t: "ctx_wf (fst t)" "log_stream t = []" "list_all (\<lambda>nc. logcall_fits (snd nc)) calls"
    "run_all (log_emit sysno nm) calls t = Inr t1" "lb_flush t1 = Inr t2" "upcoming False (lg_reads st c) = sk_out (snd t2)"
    by (auto simp: traced_by_def)
  obtain ess where e: "list_all2 (call_encoded sysno nm t) calls ess" "list_all wf_thaw (concat ess)"
    "sk_out (snd t2) = concat (map entry_bytes (concat ess))"
    using thread_sends [of "fst t" "snd t" calls sysno nm "fst t1" "snd t1" "fst t2" "snd t2"] t by auto
  have "clock_apart st (concat ess)"
    using encoded_times [OF e(1)] assms unfolding clock_apart_def traced_by_def by metis
  moreover have "pending c st = [] \<or> relay st c = None" using assms by (auto simp: traced_by_def pending_def split: option.splits)
  moreover have "calls = [] \<Longrightarrow> concat ess = []" using e(1) by simp
  ultimately have "client (concat ess) c st"
    using assms t(6) e(2,3) by (auto simp: client_def traced_by_def pending_def conn_wf_def split: option.splits)
  with e(1) that show thesis by blast
qed

text \<open>
  C10: what traced programs log is what the reader prints.  Let every connection of the log daemon
  belong to a thread that makes any log calls that fit the buffer, whatever the kernel does to the writes, and
  then flushes; let the daemon run any rounds; and let \<^verbatim>\<open>expand\<close> read the file the daemon has written,
  in pieces of any sizes.  Then \<^verbatim>\<open>expand\<close> prints, in some interleaving, entries of the threads: of each
  thread the entries of a prefix of its calls, in order, with one clock correction per
  thread, and the totals, as \<^verbatim>\<open>int\<close>s.  Of a thread whose stream the daemon has read to its end all entries are printed, but
  for a last one of the size of a header on a connection that is still open.  The conditions are those of the daemon: the log file takes every
  \<^verbatim>\<open>write\<close> whole, no client is accepted in these rounds, and no call is made at the very time the daemon's clock shows.
\<close>
theorem logged_calls_are_printed:
  assumes "\<forall>c. traced_by sysno nm st c (t c) (calls c)" and "0 \<le> outfd st" and "full_writes st" and "lg_out st = []"
    and "list_all (\<lambda>ready. sock \<notin> set ready \<and> distinct ready \<and> set ready \<subseteq> {0..<nfds st}) readies"
    and "logd_rounds sock (map Some readies) st = Inr st'"
    and "files fn = Some (Some (length (lg_out st')), script)" and "upcoming False script = lg_out st'" and "ends_eof script"
    and "\<forall>b. RdBytes b \<in> set script \<longrightarrow> length b \<le> PIPE_BUF"
  shows "\<exists>ess rest L. (\<forall>c. list_all2 (call_encoded sysno nm (t c)) (calls c) (ess c)) \<and>
     interleaves L (\<lambda>c. concat (ess c)) rest \<and> relayed_whole rest st' \<and>
     expand_main s2s files [''expand'', fn] =
       Inr (1, shown s2s 0 (map (\<lambda>ce. apply_timediff (timediff st' (fst ce)) (snd ce)) L) @
               totals (length L) (length (lg_out st')))"
proof -
  have "\<exists>es. list_all2 (call_encoded sysno nm (t c)) (calls c) es \<and> client (concat es) c st" for c
    using traced_client assms(1) by blast
  then obtain ess where ess: "\<And>c. list_all2 (call_encoded sysno nm (t c)) (calls c) (ess c)" "\<forall>c. client (concat (ess c)) c st" by metis
  from clients_printed [where S = "\<lambda>c. concat (ess c)" and files = files and fn = fn, OF ess(2) assms(2-10)] ess(1) show ?thesis by blast
qed

text \<open>A file read byte by byte, and the sample thread behind descriptor 5 of the sample daemon.\<close>

definition bytewise :: "string \<Rightarrow> rdret list" where
  "bytewise bs = map (\<lambda>c. RdBytes [c]) bs @ [RdBytes []]"

definition one_thread :: "string \<Rightarrow> logd" where
  "one_thread bs = sample_logd\<lparr>lg_reads := (\<lambda>_. [])(5 := [RdBytes bs])\<rparr>"

definition one_call :: "int \<Rightarrow> (timeval \<times> logcall) list" where
  "one_call = (\<lambda>_. [])(5 := [(Timeval 9 8, sample_call)])"

lemma bytewise_ok:
  "upcoming False (bytewise bs) = bs" "ends_eof (bytewise bs)" "\<forall>b. RdBytes b \<in> set (bytewise bs) \<longrightarrow> length b \<le> PIPE_BUF"
proof -
  show "upcoming False (bytewise bs) = bs" by (induction bs) (auto simp: bytewise_def)
  show "ends_eof (bytewise bs)" by (induction bs) (auto simp: bytewise_def)
  show "\<forall>b. RdBytes b \<in> set (bytewise bs) \<longrightarrow> length b \<le> PIPE_BUF" by (auto simp: bytewise_def PIPE_BUF_def)
qed

lemma sample_thread:
  obtains bs t1 ctx2 sk2 where "run_all (log_emit (\<lambda>_. 17) CHR ''h'') (one_call 5) (sample_ctx, sample_sink) = Inr t1"
    and "lb_flush t1 = Inr (ctx2, sk2)" and "sk_out sk2 = bs" and "bs \<noteq> []"
proof -
  have "\<exists>ctx1. LOGBIN_gen (\<lambda>_. 17) CHR ''h'' (Timeval 9 8) sample_call (sample_ctx, sample_sink) = Inr (ctx1, sample_sink)"
    using predict_size_fits [OF sample_call_fits]
    by (simp add: LOGBIN_gen_def bb_disable_log_check_def lb_alloc_entry_def lb_alloc_bytes_def logged_str_def [symmetric] Let_def)
       (simp add: sample_call_def LOGBINii_def logcall_gen_def logged_str_def sample_ctx_def alloc_ctx_def PIPE_BUF_def)
  then obtain ctx1 where l: "LOGBIN_gen (\<lambda>_. 17) CHR ''h'' (Timeval 9 8) sample_call (sample_ctx, sample_sink) = Inr (ctx1, sample_sink)" ..
  note wf = LOGBIN_gen_appends(1,2) [OF sample_call_fits sample_ctx_wf l]
  from lb_flush_progress [OF wf(1) sample_sink_takes] obtain ctx2 sk2 where f: "lb_flush (ctx1, sample_sink) = Inr (ctx2, sk2)"
    "sk_out sk2 = log_stream (ctx1, sample_sink)" by (auto simp: sample_sink_def)
  have "log_stream (ctx1, sample_sink) \<noteq> []" using wf(2) by (auto simp: entry_bytes_def frozen_bytes_def)
  then show thesis using that [of "(ctx1, sample_sink)" ctx2 sk2] l f by (simp add: one_call_def log_emit_def)
qed

lemma one_thread_traced:
  assumes "run_all (log_emit (\<lambda>_. 17) CHR ''h'') (one_call 5) (sample_ctx, sample_sink) = Inr t1" and "lb_flush t1 = Inr (ctx2, sk2)"
    and "sk_out sk2 = bs" and "bs \<noteq> []"
  shows "traced_by (\<lambda>_. 17) CHR ''h'' (one_thread bs) c (sample_ctx, sample_sink) (one_call c)"
proof (cases "c = 5")
  case True
  have "upcoming False [RdBytes bs] = bs" using assms(4) by (cases bs) auto
  moreover have "timerisset (timersub (Timeval 1240000100 7) (remote_time (logged_frozen (\<lambda>_. 17) CHR ''h'' (Timeval 9 8) sample_ctx sample_call [])))"
    by (simp add: timersub_def remote_time_def logged_frozen_def stamp_def sample_ctx_def alloc_ctx_def timerisset_def Let_def)
  ultimately show ?thesis using True assms sample_call_fits sample_ctx_wf
    by (auto simp: traced_by_def one_thread_def one_call_def log_stream_def conn_wf_def)
       (auto simp: sample_logd_def sample_ctx_def alloc_ctx_def sample_sink_def)
next
  case False
  then show ?thesis using sample_ctx_wf
    by (simp add: traced_by_def one_thread_def one_call_def log_stream_def)
       (simp add: sample_logd_def sample_ctx_def alloc_ctx_def sample_sink_def lb_flush_def bb_disable_log_check_def)
qed

text \<open>The same daemon with answers to the writing of more entries.\<close>

definition busy_daemon :: "nat \<Rightarrow> string \<Rightarrow> logd" where
  "busy_daemon n bs = (one_thread bs)\<lparr>lg_writes := replicate n (SysOk RELAY_BUF)\<rparr>"

lemma busy_daemon_round:
  assumes "client es 5 (busy_daemon n bs)" and "length es \<le> n" and "n \<le> 100" and "bs \<noteq> []"
  shows "\<exists>st'. logd_rounds 3 (map Some [[5]]) (busy_daemon n bs) = Inr st' \<and> lg_reads st' 5 = []"
proof -
  from logd_data_step [OF assms(1)] assms(2) obtain st' where st': "logd_data 5 (busy_daemon n bs) = Inr st'"
    by (auto simp: full_writes_def busy_daemon_def one_thread_def list_all_iff) (auto simp: sample_logd_def)
  have "upcoming False [RdBytes bs] = bs" using assms(4) by (cases bs) auto
  then have "list_all wf_thaw es" "bs = concat (map entry_bytes es)"
    using assms(1) by (auto simp: client_def busy_daemon_def one_thread_def pending_def) (auto simp: sample_logd_def)
  then have "length bs \<le> length es * max_entry" using length_entries by simp
  also have "\<dots> \<le> 100 * max_entry" using assms(2,3) by simp
  also have "\<dots> \<le> RELAY_BUF" by (simp add: max_entry_def RELAY_BUF_def)
  finally have "length bs \<le> RELAY_BUF" .
  then have "lg_reads st' 5 = []"
    by (intro logd_data_takes [OF st', of bs]) (use assms(4) in \<open>simp_all add: busy_daemon_def one_thread_def sample_logd_def\<close>)
  moreover have "logd_round 3 (Some [5]) (busy_daemon n bs) = run_all logd_data [5] (busy_daemon n bs)"
    using logd_round_eq [of 3 "[5]" "busy_daemon n bs"] by (simp add: served_def busy_daemon_def one_thread_def sample_logd_def upto_rec1)
  ultimately show ?thesis using st' by (auto simp: logd_rounds_def)
qed

lemma busy_daemon_ok:
  "0 \<le> outfd (busy_daemon n bs)" "full_writes (busy_daemon n bs)" "lg_out (busy_daemon n bs) = []"
  "list_all (\<lambda>ready. (3 :: int) \<notin> set ready \<and> distinct ready \<and> set ready \<subseteq> {0..<nfds (busy_daemon n bs)}) [[5]]"
  "c \<noteq> 5 \<longrightarrow> client [] c (busy_daemon n bs)"
  by (simp_all add: busy_daemon_def one_thread_def sample_logd_def full_writes_def client_def clock_apart_def list_all_iff)

lemma one_thread_round:
  assumes "\<And>c. traced_by (\<lambda>_. 17) CHR ''h'' (one_thread bs) c (sample_ctx, sample_sink) (one_call c)" and "bs \<noteq> []"
  shows "\<exists>st'. logd_rounds 3 (map Some [[5]]) (one_thread bs) = Inr st' \<and> lg_reads st' 5 = []"
proof -
  from traced_client [OF assms(1) [of 5]] obtain ess where
    e: "list_all2 (call_encoded (\<lambda>_. 17) CHR ''h'' (sample_ctx, sample_sink)) (one_call 5) ess" "client (concat ess) 5 (one_thread bs)" .
  have "length (concat ess) = 1" using e(1) by (auto simp: one_call_def list_all2_Cons1 call_encoded_def)
  moreover have "one_thread bs = busy_daemon 1 bs" by (simp add: busy_daemon_def one_thread_def sample_logd_def)
  ultimately show ?thesis using busy_daemon_round [of "concat ess" 1 bs] e(2) assms(2) by simp
qed

theorem logged_calls_are_printed_witness:
  "\<exists>bs st' L. logd_rounds 3 (map Some [[5]]) (one_thread bs) = Inr st' \<and> length (filter (\<lambda>ce. fst ce = 5) L) = length (one_call 5) \<and>
     expand_main (\<lambda>_. ''read'') (\<lambda>_. Some (Some (length (lg_out st')), bytewise (lg_out st'))) [''expand'', ''raw.log''] =
       Inr (1, shown (\<lambda>_. ''read'') 0 (map (\<lambda>ce. apply_timediff (timediff st' (fst ce)) (snd ce)) L) @
               totals (length L) (length (lg_out st')))"
proof -
  from sample_thread obtain bs t1 ctx2 sk2 where
    r: "run_all (log_emit (\<lambda>_. 17) CHR ''h'') (one_call 5) (sample_ctx, sample_sink) = Inr t1" "lb_flush t1 = Inr (ctx2, sk2)" "sk_out sk2 = bs" "bs \<noteq> []" .
  note tr = one_thread_traced [OF r]
  from one_thread_round [OF tr r(4)] obtain st' where st': "logd_rounds 3 (map Some [[5]]) (one_thread bs) = Inr st'" "lg_reads st' 5 = []"
    by blast
  have "0 \<le> outfd (one_thread bs)" "full_writes (one_thread bs)" "lg_out (one_thread bs) = []"
    "list_all (\<lambda>ready. (3 :: int) \<notin> set ready \<and> distinct ready \<and> set ready \<subseteq> {0..<nfds (one_thread bs)}) [[5]]"
    by (simp_all add: one_thread_def sample_logd_def full_writes_def)
  from logged_calls_are_printed [where t = "\<lambda>_. (sample_ctx, sample_sink)" and calls = one_call and fn = "''raw.log''" and s2s = "\<lambda>_. ''read''"
      and files = "\<lambda>_. Some (Some (length (lg_out st')), bytewise (lg_out st'))", OF _ this st'(1) _ bytewise_ok] tr
  obtain ess rest L where e: "list_all2 (call_encoded (\<lambda>_. 17) CHR ''h'' (sample_ctx, sample_sink)) (one_call 5) (ess 5)"
    "interleaves L (\<lambda>c. concat (ess c)) rest" "relayed_whole rest st'"
    and x: "expand_main (\<lambda>_. ''read'') (\<lambda>_. Some (Some (length (lg_out st')), bytewise (lg_out st'))) [''expand'', ''raw.log''] =
       Inr (1, shown (\<lambda>_. ''read'') 0 (map (\<lambda>ce. apply_timediff (timediff st' (fst ce)) (snd ce)) L) @
               totals (length L) (length (lg_out st')))" by blast
  have "length (entry_bytes b) \<noteq> sizeof_frozen" if "b \<in> set (concat (ess 5))" for b
    using encoded_size [OF e(1) that] sample_call_fits by (auto simp: one_call_def sample_call_def LOGBINii_def logcall_gen_def sizeof_frozen_def)
  from relayed_client [OF e(3,2) st'(2) this] have "length (filter (\<lambda>ce. fst ce = 5) L) = length (concat (ess 5))"
    by (metis length_map)
  moreover have "length (concat (ess 5)) = length (one_call 5)" by (rule encoded_length [OF e(1)])
  ultimately show ?thesis using st'(1) x by (intro exI [of _ bs] exI [of _ st'] exI [of _ L]) simp
qed

section \<open>From the packets of a connection to the printed log\<close>

text \<open>The build numbers the events; the numbers of the two message events are theirs alone, also where they are cut to 16 bits.\<close>

definition tells_apart :: "(sysid \<Rightarrow> int) \<Rightarrow> bool" where
  "tells_apart sysno \<longleftrightarrow>
     (\<forall>x dr. (word_of_int (sc_code sysno x) :: 16 word) = word_of_int (sysno (msg_sys dr)) \<longrightarrow> x = Some (msg_sys dr))"

text \<open>The packet numbers in the message entries of a direction.\<close>

definition msg_ids :: "(sysid \<Rightarrow> int) \<Rightarrow> pp_direction \<Rightarrow> logentry_thaw list \<Rightarrow> int list" where
  "msg_ids sysno dr es = map (\<lambda>e. sint (th_arg e ! 2)) (filter (\<lambda>e. fz_sc (th_fz e) = word_of_int (sysno (msg_sys dr))) es)"

lemma msgs_Log: "msgs dr (map Log l) = filter (\<lambda>c. lc_sc c = Some (msg_sys dr)) l"
  by (induction l) simp_all

lemma encoded_msg_ids:
  assumes "tells_apart sysno" and "list_all2 (call_encoded sysno nm t) calls ess"
    and "list_all (\<lambda>c. lc_num c = 3) (msgs dr (map (Log \<circ> snd) calls))"
  shows "msg_ids sysno dr (concat ess) = map (\<lambda>c. sint (word_of_int (lc_i3 c) :: 32 word)) (msgs dr (map (Log \<circ> snd) calls))"
  using assms(2,3)
proof (induction rule: list_all2_induct)
  case (Cons nc calls es ess)
  obtain pad where es: "es = [logged_entry sysno nm (fst nc) (fst t) (snd nc) pad]" using Cons.hyps(1) by (auto simp: call_encoded_def)
  have "(word_of_int (sc_code sysno (lc_sc (snd nc))) :: 16 word) = word_of_int (sysno (msg_sys dr)) \<longleftrightarrow> lc_sc (snd nc) = Some (msg_sys dr)"
    using assms(1) by (auto simp: tells_apart_def sc_code_def)
  then have "msg_ids sysno dr es = map (\<lambda>c. sint (word_of_int (lc_i3 c) :: 32 word)) (msgs dr [Log (snd nc)])"
    using Cons.prems by (auto simp: msg_ids_def es logged_entry_def logged_frozen_def logged_args_def)
  then show ?case using Cons by (auto simp: msg_ids_def split: if_splits)
qed (simp add: msg_ids_def)

lemma mysql_event_eq:
  assumes "mysql_packet_ok p" and "d = Mysqlc \<or> d = Mysqls"
  shows "\<exists>name. mysql_event s (mysql_role d) dr p = [LOGBINiiis (msg_sys dr) 0 (mysql_role d) s (int (fst p)) name]"
proof -
  have "sint (word_of_nat (fst p) :: 32 word) = int (fst p)"
    using assms(1) by (intro sint_of_nat_small) (simp add: mysql_packet_ok_def)
  then show ?thesis using assms(2) by (auto simp: mysql_event_def mysql_log_def msg_sys_def Let_def PP_MYSQLC_ID_def PP_MYSQLS_ID_def)
qed

lemma mysql_event_ids:
  assumes "list_all mysql_packet_ok ps" and "d = Mysqlc \<or> d = Mysqls"
  shows "map (\<lambda>c. sint (word_of_int (lc_i3 c) :: 32 word)) (concat (map (mysql_event s (mysql_role d) dr) ps)) = map (int \<circ> fst) ps"
    and "list_all (\<lambda>c. lc_num c = 3) (concat (map (mysql_event s (mysql_role d) dr) ps))"
proof -
  have one: "map (\<lambda>c. sint (word_of_int (lc_i3 c) :: 32 word)) (mysql_event s (mysql_role d) dr p) = [int (fst p)] \<and>
      list_all (\<lambda>c. lc_num c = 3) (mysql_event s (mysql_role d) dr p)" if "mysql_packet_ok p" for p
  proof -
    have "sint (word_of_nat (fst p) :: 32 word) = int (fst p)"
      using that by (intro sint_of_nat_small) (simp add: mysql_packet_ok_def)
    then show ?thesis using mysql_event_eq [OF that assms(2), of s dr] by (auto simp: LOGBINiiis_def logcall_gen_def)
  qed
  show "map (\<lambda>c. sint (word_of_int (lc_i3 c) :: 32 word)) (concat (map (mysql_event s (mysql_role d) dr) ps)) = map (int \<circ> fst) ps"
    using assms(1) one by (induction ps) simp_all
  show "list_all (\<lambda>c. lc_num c = 3) (concat (map (mysql_event s (mysql_role d) dr) ps))"
    using assms(1) one by (induction ps) simp_all
qed

text \<open>An entry of the size of a header is no message, so no message waits in the relay buffer.\<close>

lemma header_sized_no_msg:
  assumes "tells_apart sysno" and "list_all2 (call_encoded sysno nm t) calls ess" and "list_all (\<lambda>nc. logcall_fits (snd nc)) calls"
    and "list_all (\<lambda>c. lc_num c = 3) (msgs dr (map (Log \<circ> snd) calls))" and "e \<in> set (concat ess)" and "length (entry_bytes e) = sizeof_frozen"
  shows "msg_ids sysno dr [e] = []"
  using assms(2-5)
proof (induction rule: list_all2_induct)
  case (Cons nc calls es ess)
  obtain pad where es: "es = [logged_entry sysno nm (fst nc) (fst t) (snd nc) pad]" "length pad = 4"
    using Cons.hyps(1) by (auto simp: call_encoded_def)
  show ?case
  proof (cases "e \<in> set es")
    case True
    then have "lc_num (snd nc) = 0"
      using es Cons.prems(1) assms(6) logged_entry_length [of "snd nc" pad sysno nm "fst nc" "fst t"] by (simp add: sizeof_frozen_def)
    then have "lc_sc (snd nc) \<noteq> Some (msg_sys dr)" using Cons.prems(2) by (auto simp: comp_def)
    moreover have "(word_of_int (sc_code sysno (lc_sc (snd nc))) :: 16 word) = word_of_int (sysno (msg_sys dr)) \<Longrightarrow> lc_sc (snd nc) = Some (msg_sys dr)"
      using assms(1) by (auto simp: tells_apart_def)
    ultimately show ?thesis using True es(1) by (auto simp: msg_ids_def logged_entry_def logged_frozen_def)
  next
    case False
    with Cons show ?thesis by (auto split: if_splits)
  qed
qed simp

lemma msg_ids_append: "msg_ids sysno dr (es @ fs) = msg_ids sysno dr es @ msg_ids sysno dr fs"
  by (simp add: msg_ids_def)

text \<open>The messages of a client among the entries \<open>L\<close> of the log.\<close>

definition printed_ids :: "(sysid \<Rightarrow> int) \<Rightarrow> pp_direction \<Rightarrow> int \<Rightarrow> (int \<times> logentry_thaw) list \<Rightarrow> int list" where
  "printed_ids sysno dr c L = msg_ids sysno dr (map snd (filter (\<lambda>ce. fst ce = c) L))"

lemma client_ids_printed:
  assumes "interleaves L S rest" and "relayed_whole rest st" and "S c = concat ess" and "msg_ids sysno dr (concat ess) = ids"
    and "\<And>e. e \<in> set (concat ess) \<Longrightarrow> length (entry_bytes e) = sizeof_frozen \<Longrightarrow> msg_ids sysno dr [e] = []"
  shows "prefix (printed_ids sysno dr c L) ids \<and> (upcoming False (lg_reads st c) = [] \<longrightarrow> printed_ids sysno dr c L = ids)"
proof -
  have es: "concat ess = map snd (filter (\<lambda>ce. fst ce = c) L) @ rest c" using assms(1,3) unfolding interleaves_def by metis
  then have ids: "ids = printed_ids sysno dr c L @ msg_ids sysno dr (rest c)" using assms(4) by (simp add: printed_ids_def msg_ids_append)
  moreover have "msg_ids sysno dr (rest c) = []" if "upcoming False (lg_reads st c) = []"
  proof -
    from assms(2) that consider "rest c = []" | e where "rest c = [e]" "length (entry_bytes e) = sizeof_frozen"
      unfolding relayed_whole_def by blast
    then show ?thesis using assms(5) es by cases (auto simp: msg_ids_def)
  qed
  ultimately show ?thesis by (simp add: prefix_def)
qed

text \<open>
  C13: the packets of a MySQL connection reach the printed log.  Let a connection that has just got its MySQL plugin read the packets
  \<open>ps\<close> and write the packets \<open>qs\<close>, however the kernel cuts them; let the thread send what this logs to the daemon, which also serves
  any other clients; and let \<^verbatim>\<open>expand\<close> read what the daemon has written.  Then \<^verbatim>\<open>expand\<close> prints an interleaving of
  the clients' entries, of each a prefix; the receive and send entries of the connection that it prints are those of a first part
  of the packets of \<open>ps\<close> and of \<open>qs\<close>, one per packet, with its number, in order; and once the daemon has read the thread's stream to its
  end, those of all packets.

  The conditions: packets have numbers below 256 and length bytes below 128 (\<open>mysql_packet_ok\<close>; a larger length byte is taken for a negative
  number by \<^verbatim>\<open>protocol.c\<close>), a write has at most 64 KiB - 4 and the kernel answers as documented (\<open>io_ok\<close>), and the daemon works under the
  conditions of C10.
\<close>
theorem packets_are_printed:
  assumes "d = Mysqlc \<or> d = Mysqls" and "fresh_conn d s pr" and "vf_data (vfd_tab pr s) = DMysql pp_mysql_common_init" and "px_log pr = []"
    and "list_all io_ok ios" and "run_io s ios pr = Inr (concat (map mysql_packet ps), pr')" and "tosend (vfd_tab pr' s) = 0"
    and "concat (map written ios) = concat (map mysql_packet qs)" and "list_all mysql_packet_ok (ps @ qs)"
    and "px_log pr' = map (Log \<circ> snd) calls" and "traced_by sysno nm st c t calls" and "tells_apart sysno"
    and "\<forall>c'. c' \<noteq> c \<longrightarrow> client (S c') c' st"
    and "0 \<le> outfd st" and "full_writes st" and "lg_out st = []"
    and "list_all (\<lambda>ready. sock \<notin> set ready \<and> distinct ready \<and> set ready \<subseteq> {0..<nfds st}) readies"
    and "logd_rounds sock (map Some readies) st = Inr st'"
    and "files fn = Some (Some (length (lg_out st')), script)" and "upcoming False script = lg_out st'" and "ends_eof script"
    and "\<forall>b. RdBytes b \<in> set script \<longrightarrow> length b \<le> PIPE_BUF"
  shows "\<exists>es rest L. interleaves L (S(c := es)) rest \<and> relayed_whole rest st' \<and>
     prefix (printed_ids sysno PP_READ c L) (map (int \<circ> fst) ps) \<and> prefix (printed_ids sysno PP_WRITE c L) (map (int \<circ> fst) qs) \<and>
     (upcoming False (lg_reads st' c) = [] \<longrightarrow>
        printed_ids sysno PP_READ c L = map (int \<circ> fst) ps \<and> printed_ids sysno PP_WRITE c L = map (int \<circ> fst) qs) \<and>
     expand_main s2s files [''expand'', fn] =
       Inr (1, shown s2s 0 (map (\<lambda>ce. apply_timediff (timediff st' (fst ce)) (snd ce)) L) @
               totals (length L) (length (lg_out st')))"
proof -
  have ok: "list_all mysql_packet_ok ps" "list_all mysql_packet_ok qs" using assms(9) by simp_all
  from run_io_speaking [OF fresh_speaking [OF assms(1-3)] assms(5)] assms(2,6) fresh_rd_ok(2) [OF assms(2)]
  have sp: "speaking d s (\<lambda>dr. msgs dr (px_log pr)) (concat (map written ios)) pr'"
    and k: "k_got pr' s = concat (map mysql_packet ps) @ held s pr'" by (auto simp: fresh_conn_def)
  have ev: "msgs PP_READ (map (Log \<circ> snd) calls) = concat (map (mysql_event s (mysql_role d) PP_READ) ps)"
      "msgs PP_WRITE (map (Log \<circ> snd) calls) = concat (map (mysql_event s (mysql_role d) PP_WRITE) qs)"
    using read_msgs [OF sp k ok(1) refl assms(7)] write_msgs [OF sp ok(2) assms(8)] by (simp_all add: assms(4,10))
  from traced_client [OF assms(11)] obtain ess where e: "list_all2 (call_encoded sysno nm t) calls ess" "client (concat ess) c st" .
  have ids: "msg_ids sysno PP_READ (concat ess) = map (int \<circ> fst) ps" "msg_ids sysno PP_WRITE (concat ess) = map (int \<circ> fst) qs"
    using encoded_msg_ids [OF assms(12) e(1)] mysql_event_ids [OF ok(1) assms(1)] mysql_event_ids [OF ok(2) assms(1)] by (simp_all add: ev)
  have fits: "list_all (\<lambda>nc. logcall_fits (snd nc)) calls" using assms(11) by (simp add: traced_by_def)
  have three: "list_all (\<lambda>c. lc_num c = 3) (msgs PP_READ (map (Log \<circ> snd) calls))" "list_all (\<lambda>c. lc_num c = 3) (msgs PP_WRITE (map (Log \<circ> snd) calls))"
    using mysql_event_ids(2) [OF ok(1) assms(1)] mysql_event_ids(2) [OF ok(2) assms(1)] by (simp_all add: ev)
  have "\<forall>c'. client ((S(c := concat ess)) c') c' st" using assms(13) e(2) by simp
  from clients_printed [where S = "S(c := concat ess)" and files = files and fn = fn and s2s = s2s, OF this assms(14-22)]
  obtain rest L where L: "interleaves L (S(c := concat ess)) rest" "relayed_whole rest st'"
    "expand_main s2s files [''expand'', fn] = Inr (1, shown s2s 0 (map (\<lambda>ce. apply_timediff (timediff st' (fst ce)) (snd ce)) L) @
       totals (length L) (length (lg_out st')))" by blast
  have S: "(S(c := concat ess)) c = concat ess" by simp
  note r = client_ids_printed [OF L(1,2) S ids(1) header_sized_no_msg [OF assms(12) e(1) fits three(1)]]
    and w = client_ids_printed [OF L(1,2) S ids(2) header_sized_no_msg [OF assms(12) e(1) fits three(2)]]
  show ?thesis
    by (rule exI [of _ "concat ess"], rule exI [of _ rest], rule exI [of _ L]) (intro conjI impI; use L r w in blast)
qed

text \<open>The calls of the sample client, all logged in one microsecond by the sample thread.\<close>

definition msg_no :: "sysid \<Rightarrow> int" where
  "msg_no x = (if x = SYS ''PP_MSG_SEND'' then 1 else if x = SYS ''PP_MSG_RECV'' then 2 else 0)"

definition packet_calls :: "(timeval \<times> logcall) list" where
  "packet_calls = map (Pair (Timeval 9 8)) sample_calls"

definition packet_sink :: logsink where
  "packet_sink = sample_sink\<lparr>sk_script := replicate (PIPE_BUF * 20) (SysOk 1)\<rparr>"

lemma msg_no_tells: "tells_apart msg_no"
  by (auto simp: tells_apart_def msg_no_def msg_sys_def sc_code_def split: option.splits if_splits)

lemma length_snprintf: "length (snprintf n x) \<le> n - 1"
  unfolding snprintf_def by (rule order_trans [OF length_takeWhile_le]) simp

lemma sample_calls_fit: "list_all logcall_fits sample_calls" "length sample_calls = 11"
proof -
  have fits: "logcall_fits (LOGBINs sc rv (snprintf 67 x))" "logcall_fits (LOGBINii sc rv a b)" for sc rv x a b
    using length_snprintf [of 67 x]
    by (simp_all add: logcall_fits_def logged_str_def LOGBINs_def LOGBINii_def logcall_gen_def PIPE_BUF_def)
  show "list_all logcall_fits sample_calls" "length sample_calls = 11"
    by (simp_all add: sample_calls_def read_calls_def mysql_packet_logs_def mysql_log_def Let_def fits PP_MYSQLC_ID_def PP_MYSQLS_ID_def)
       (simp_all add: logcall_fits_def logged_str_def LOGBINiiis_def logcall_gen_def PIPE_BUF_def)
qed

lemma packet_thread:
  obtains bs where "bs \<noteq> []" and "traced_by msg_no CHR ''h'' (busy_daemon 11 bs) 5 (sample_ctx, packet_sink) packet_calls"
proof -
  have fits: "list_all (\<lambda>nc. logcall_fits (snd nc)) packet_calls" "length packet_calls = 11"
    using sample_calls_fit by (simp_all add: packet_calls_def list_all_iff)
  have "takes_bytes (PIPE_BUF * length packet_calls + (PIPE_BUF + 0)) packet_sink"
    by (simp add: takes_bytes_def packet_sink_def fits(2))
  from run_all_progress [OF fits(1) sample_ctx_wf this, of msg_no "CHR ''h''"] obtain ctx1 sk1 where
    1: "run_all (log_emit msg_no CHR ''h'') packet_calls (sample_ctx, packet_sink) = Inr (ctx1, sk1)" "ctx_wf ctx1" "takes_bytes (PIPE_BUF + 0) sk1"
    by blast
  from lb_flush_progress [OF 1(2,3)] obtain ctx2 sk2 where 2: "lb_flush (ctx1, sk1) = Inr (ctx2, sk2)" by blast
  have ls: "log_stream (sample_ctx, packet_sink) = []" by (simp add: log_stream_def sample_ctx_def alloc_ctx_def packet_sink_def sample_sink_def)
  from thread_sends [OF sample_ctx_wf ls fits(1) 1(1) 2] obtain ess where
    e: "list_all2 (call_encoded msg_no CHR ''h'' (sample_ctx, packet_sink)) packet_calls ess" "sk_out sk2 = concat (map entry_bytes (concat ess))" .
  have "concat ess \<noteq> []" using encoded_length [OF e(1)] fits(2) by fastforce
  moreover have "entry_bytes x \<noteq> []" for x by (simp add: entry_bytes_def frozen_bytes_def)
  ultimately have bs: "sk_out sk2 \<noteq> []" by (cases "concat ess") (simp_all add: e(2))
  then have "upcoming False [RdBytes (sk_out sk2)] = sk_out sk2" by (cases "sk_out sk2") auto
  moreover have "timerisset (timersub (Timeval 1240000100 7) (remote_time (logged_frozen msg_no CHR ''h'' (fst nc) sample_ctx (snd nc) [])))"
    if "nc \<in> set packet_calls" for nc
    using that by (auto simp: packet_calls_def timersub_def remote_time_def logged_frozen_def stamp_def sample_ctx_def alloc_ctx_def timerisset_def Let_def)
  ultimately have "traced_by msg_no CHR ''h'' (busy_daemon 11 (sk_out sk2)) 5 (sample_ctx, packet_sink) packet_calls"
    using fits(1) ls 1(1) 2 sample_ctx_wf
    by (auto simp: traced_by_def busy_daemon_def one_thread_def conn_wf_def) (auto simp: sample_logd_def)
  with bs that show thesis by blast
qed

theorem packets_are_printed_witness:
  "\<exists>bs st' L. logd_rounds 3 (map Some [[5]]) (busy_daemon 11 bs) = Inr st' \<and>
     printed_ids msg_no PP_READ 5 L = [2] \<and> printed_ids msg_no PP_WRITE 5 L = [0] \<and>
     expand_main (\<lambda>_. ''call'') (\<lambda>_. Some (Some (length (lg_out st')), bytewise (lg_out st'))) [''expand'', ''raw.log''] =
       Inr (1, shown (\<lambda>_. ''call'') 0 (map (\<lambda>ce. apply_timediff (timediff st' (fst ce)) (snd ce)) L) @
               totals (length L) (length (lg_out st')))"
proof -
  obtain pr' where pr: "run_io 5 sample_ios sample_proc = Inr (concat (map mysql_packet [(2, ''r'')]), pr')" "tosend (vfd_tab pr' 5) = 0"
    "px_log pr' = map (Log \<circ> snd) packet_calls" using sample_run by (auto simp: packet_calls_def comp_def)
  have f: "vf_data (vfd_tab sample_proc 5) = DMysql pp_mysql_common_init" "px_log sample_proc = []" "list_all io_ok sample_ios"
    "concat (map written sample_ios) = concat (map mysql_packet [(0, ''q'')])" "list_all mysql_packet_ok ([(2, ''r'')] @ [(0, ''q'')])"
    by (simp_all add: sample_proc_def proc0_def sample_ios_def sample_packets VBUFSIZE_def mysql_packet_ok_def plain_size_def)
  obtain bs where bs: "bs \<noteq> []" "traced_by msg_no CHR ''h'' (busy_daemon 11 bs) 5 (sample_ctx, packet_sink) packet_calls" by (rule packet_thread)
  from traced_client [OF bs(2)] obtain ess where
    e: "list_all2 (call_encoded msg_no CHR ''h'' (sample_ctx, packet_sink)) packet_calls ess" "client (concat ess) 5 (busy_daemon 11 bs)" .
  have "length (concat ess) \<le> 11" using encoded_length [OF e(1)] sample_calls_fit(2) by (simp add: packet_calls_def)
  from busy_daemon_round [OF e(2) this _ bs(1)] obtain st' where
    st': "logd_rounds 3 (map Some [[5]]) (busy_daemon 11 bs) = Inr st'" "lg_reads st' 5 = []" by auto
  have "\<forall>c'. c' \<noteq> 5 \<longrightarrow> client ((\<lambda>_. []) c') c' (busy_daemon 11 bs)" using busy_daemon_ok(5) by simp
  from packets_are_printed [where S = "\<lambda>_. []" and readies = "[[5]]" and files = "\<lambda>_. Some (Some (length (lg_out st')), bytewise (lg_out st'))"
      and script = "bytewise (lg_out st')" and fn = "''raw.log''" and s2s = "\<lambda>_. ''call''" and sock = 3,
      OF _ sample_fresh f(1-3) pr(1,2) f(4,5) pr(3) bs(2) msg_no_tells this busy_daemon_ok(1-4) st'(1) refl bytewise_ok] st'
  show ?thesis by auto
qed

section \<open>From a page fault to the printed log\<close>

fun event_time :: "watch_event \<Rightarrow> timeval list" where
  "event_time (Begin t p tv room) = [tv]"
| "event_time (End t p tv room) = [tv]"
| "event_time _ = []"

definition clock_ok :: "watch_event list \<Rightarrow> bool" where
  "clock_ok evs \<longleftrightarrow> sorted (concat (map event_time evs)) \<and> list_all (\<lambda>t. normal t \<and> 0 \<le> tv_sec t) (concat (map event_time evs))"

text \<open>The records of the faults of watched processes.\<close>

definition watched :: "watch_event list \<Rightarrow> pfdura_t list" where
  "watched evs = snd (fold watching evs ({}, []))"

lemma fold_watching_records:
  "\<exists>R'. snd (fold watching evs (S, R)) = R @ R' \<and>
     set R' \<subseteq> {r. \<exists>ev \<in> set evs. pfd_tgid r = int (event_pid ev) \<and> event_time ev = [pfd_tv r]} \<and>
     (sorted (concat (map event_time evs)) \<longrightarrow> sorted (map pfd_tv R'))"
proof (induction evs arbitrary: S R)
  case (Cons ev evs)
  have *: "sorted (tv # map pfd_tv R')"
    if "sorted (tv # concat (map event_time evs))" "sorted (map pfd_tv R')"
      "set R' \<subseteq> {r. \<exists>ev \<in> set evs. pfd_tgid r = int (event_pid ev) \<and> event_time ev = [pfd_tv r]}" for tv R'
    using that by fastforce
  show ?case
  proof (cases ev)
    case (Begin t p tv room)
    let ?r = "\<lparr>pfd_tgid = int t, pfd_pid = p, pfd_complete = 0, pfd_tv = tv\<rparr>"
    from Cons.IH [of S "R @ (if t \<in> S \<and> room then [?r] else [])"] obtain R' where
      "snd (fold watching evs (S, R @ (if t \<in> S \<and> room then [?r] else []))) = (R @ (if t \<in> S \<and> room then [?r] else [])) @ R'"
      "set R' \<subseteq> {r. \<exists>ev \<in> set evs. pfd_tgid r = int (event_pid ev) \<and> event_time ev = [pfd_tv r]}"
      "sorted (concat (map event_time evs)) \<longrightarrow> sorted (map pfd_tv R')" by blast
    with * [of tv R'] show ?thesis
      by (intro exI [of _ "(if t \<in> S \<and> room then [?r] else []) @ R'"]) (auto simp: Begin)
  next
    case (End t p tv room)
    let ?r = "\<lparr>pfd_tgid = int t, pfd_pid = p, pfd_complete = 1, pfd_tv = tv\<rparr>"
    from Cons.IH [of S "R @ (if t \<in> S \<and> room then [?r] else [])"] obtain R' where
      "snd (fold watching evs (S, R @ (if t \<in> S \<and> room then [?r] else []))) = (R @ (if t \<in> S \<and> room then [?r] else [])) @ R'"
      "set R' \<subseteq> {r. \<exists>ev \<in> set evs. pfd_tgid r = int (event_pid ev) \<and> event_time ev = [pfd_tv r]}"
      "sorted (concat (map event_time evs)) \<longrightarrow> sorted (map pfd_tv R')" by blast
    with * [of tv R'] show ?thesis
      by (intro exI [of _ "(if t \<in> S \<and> room then [?r] else []) @ R'"]) (auto simp: End)
  next
    case (Watch n)
    with Cons.IH [of "insert n S" R] show ?thesis by (fastforce simp: Watch)
  next
    case (Unwatch n)
    with Cons.IH [of "if n = 0 then {} else S - {n}" R] show ?thesis by (fastforce simp: Unwatch)
  qed
qed simp

text \<open>A feed that delivers given records, with waits and interruptions.\<close>

definition delivers :: "feedret list \<Rightarrow> pfdura_t list \<Rightarrow> bool" where
  "delivers feed recs \<longleftrightarrow> feed_records feed = recs \<and> list_all (\<lambda>rc. case rc of Record r \<Rightarrow> True | FeedEnd \<Rightarrow> True | ShortRead n \<Rightarrow> False | FeedErr e \<Rightarrow> e = EINTR) feed"

lemma delivers_feed_ok:
  assumes "delivers feed recs" and "\<forall>r \<in> set recs. feed_ok (Record r)"
  shows "list_all feed_ok feed"
  using assms unfolding delivers_def
proof (induction feed arbitrary: recs)
  case (Cons rc feed)
  then show ?case by (cases rc) (auto simp: feed_ok_def)
qed simp

lemma watched_feed_ok:
  assumes "delivers feed (watched evs)" and "list_all (\<lambda>ev. event_pid ev < pmax) evs" and "pmax \<le> 65536" and "clock_ok evs"
  shows "list_all feed_ok feed \<and> sorted (map pfd_tv (feed_records feed))"
proof -
  from fold_watching_records [of evs "{}" "[]"] have
    w: "set (watched evs) \<subseteq> {r. \<exists>ev \<in> set evs. pfd_tgid r = int (event_pid ev) \<and> event_time ev = [pfd_tv r]}"
    "sorted (map pfd_tv (watched evs))" using assms(4) by (auto simp: watched_def clock_ok_def)
  have "feed_ok (Record r)" if "r \<in> set (watched evs)" for r
  proof -
    from w(1) that obtain ev where ev: "ev \<in> set evs" "pfd_tgid r = int (event_pid ev)" "event_time ev = [pfd_tv r]" by blast
    then have "normal (pfd_tv r) \<and> 0 \<le> tv_sec (pfd_tv r)" using assms(4) by (fastforce simp: clock_ok_def list_all_iff)
    moreover have "event_pid ev < 65536" using ev(1) assms(2,3) by (auto simp: list_all_iff)
    ultimately show ?thesis using ev(2) by (simp add: feed_ok_def)
  qed
  then have "list_all feed_ok feed" using assms(1) by (intro delivers_feed_ok) auto
  moreover have "feed_records feed = watched evs" using assms(1) by (simp add: delivers_def)
  ultimately show ?thesis using w(2) by simp
qed

lemma feed_client:
  assumes "upcoming False (lg_reads st c) = concat (map entry_bytes es)" and "list_all wf_thaw es"
    and "conn_wf c st" and "b_end st c = 0" and "clock_apart st es"
  shows "client es c st"
  using assms by (auto simp: client_def pending_def conn_wf_def split: option.splits)

text \<open>
  C12: the page faults of the processes that are watched reach the printed log.  Let the kernel module, freshly loaded, be
  told by any writes which processes to watch while page faults happen; let \<^verbatim>\<open>pf\<close> read its
  records, with waits and interruptions, and send to the log daemon, which also serves any other clients; and let \<^verbatim>\<open>expand\<close> read what the
  daemon has written.  Then \<^verbatim>\<open>expand\<close> prints an interleaving of the entries of the other clients with a prefix of
  what \<^verbatim>\<open>pf\<close> reports (C22) of the processes that were watched; when every recorded end of a fault has a begin before it, these are the
  begin and end entries of the slow faults.  Once the daemon has read the stream of \<^verbatim>\<open>pf\<close> to its end all of them are printed, but for
  the last entry, which has the size of a header, if it came alone and the connection is still open.

  The conditions: a record counts if the relay has room for it (the flag of \<open>Begin\<close> and \<open>End\<close>); the clock of the machine does not
  run back; \<^verbatim>\<open>pf\<close>'s socket takes whole entries; and the daemon works under the conditions of C10.
\<close>
theorem faults_are_printed:
  assumes "converts_decimal strtol_k" and "pid_limit pmax" and "pmax \<le> 65536" and "in_service pmax m" and "watch_state m = ({}, [])"
    and "list_all (\<lambda>ev. event_pid ev < pmax) evs" and "clock_ok evs"
    and "run_all (mod_step strtol_k pmax) (map call_of evs) m = Inr m'" and "delivers feed (pm_relay m')"
    and "0 \<le> k_socket k" and "0 \<le> k_connect k" and "takes_entries p" and "2 * length feed \<le> length (pf_writes p)" and "pf_sent p = []"
    and "pf_reader_thr sysno env k feed p = Inr p'"
    and "upcoming False (lg_reads st c) = pf_sent p'" and "conn_wf c st" and "b_end st c = 0" and "clock_apart st (pf_reports sysno (watched evs))"
    and "\<forall>c'. c' \<noteq> c \<longrightarrow> client (S c') c' st"
    and "0 \<le> outfd st" and "full_writes st" and "lg_out st = []"
    and "list_all (\<lambda>ready. sock \<notin> set ready \<and> distinct ready \<and> set ready \<subseteq> {0..<nfds st}) readies"
    and "logd_rounds sock (map Some readies) st = Inr st'"
    and "files fn = Some (Some (length (lg_out st')), script)" and "upcoming False script = lg_out st'" and "ends_eof script"
    and "\<forall>b. RdBytes b \<in> set script \<longrightarrow> length b \<le> PIPE_BUF"
  shows "\<exists>rest L. interleaves L (S(c := pf_reports sysno (watched evs))) rest \<and> relayed_whole rest st' \<and>
     (all_begun (watched evs) \<longrightarrow> pf_reports sysno (watched evs) = slow_faults sysno (watched evs)) \<and>
     expand_main s2s files [''expand'', fn] =
       Inr (1, shown s2s 0 (map (\<lambda>ce. apply_timediff (timediff st' (fst ce)) (snd ce)) L) @
               totals (length L) (length (lg_out st')))"
proof -
  have relay: "pm_relay m' = watched evs"
    using mod_run_watching [OF assms(1,2,4,6)] assms(5,8) by (auto simp: watch_state_def watched_def dest: arg_cong [where f = snd])
  have feed: "list_all feed_ok feed" "sorted (map pfd_tv (feed_records feed))" "feed_records feed = watched evs"
    using watched_feed_ok [OF _ assms(6,3,7)] assms(9) by (auto simp: relay delivers_def)
  have "pf_sent p' = concat (map entry_bytes (pf_reports sysno (watched evs)))"
    using pf_reader_sends [OF assms(10,11) feed(1,2) assms(12,13), of sysno env] assms(14,15) by (simp add: feed(3))
  then have "client (pf_reports sysno (watched evs)) c st"
    using assms(16-19) pf_reports_wf by (intro feed_client) simp_all
  then have "\<forall>c'. client ((S(c := pf_reports sysno (watched evs))) c') c' st" using assms(20) by simp
  from clients_printed [where S = "S(c := pf_reports sysno (watched evs))" and files = files and fn = fn, OF this assms(21-29)] all_begun_reports
  show ?thesis by blast
qed

text \<open>A session: process 70 is switched on and has one slow fault, which the sample feed delivers.\<close>

definition fault_events :: "watch_event list" where
  "fault_events = [Watch 70, Begin 70 71 (Timeval 5 999990) True, End 70 71 (Timeval 6 200) True]"

lemma fault_session:
  obtains m' where "run_all (mod_step k_strtol 32768) (map call_of fault_events) (snd (init_module 32768 loads module0)) = Inr m'"
    and "delivers sample_feed (pm_relay m')" and "in_service 32768 (snd (init_module 32768 loads module0))"
    and "watch_state (snd (init_module 32768 loads module0)) = ({}, [])"
    and "watched fault_events = feed_records sample_feed" and "clock_ok fault_events" and "list_all (\<lambda>ev. event_pid ev < 32768) fault_events"
proof -
  let ?m = "snd (init_module 32768 loads module0)"
  have m: "in_service 32768 ?m" "watch_state ?m = ({}, [])"
    using init_module_cases [OF module0_unloaded, where pmax = 32768 and k = loads] pids.wf_emp [of 32768]
    by (auto simp: loads_def in_service_def watch_state_def split: prod.splits)
  have w: "watched fault_events = feed_records sample_feed" by (simp add: watched_def fault_events_def sample_feed_def fault_at_def)
  have b: "list_all (\<lambda>ev. event_pid ev < 32768) fault_events" by (simp add: fault_events_def)
  have "pid_limit 32768" by (simp add: pid_limit_def)
  from mod_run_watching [OF k_strtol_converts this m(1) b] obtain m' where
    "run_all (mod_step k_strtol 32768) (map call_of fault_events) ?m = Inr m'" "pm_relay m' = feed_records sample_feed"
    using m(2) w by (auto simp: watch_state_def watched_def dest: arg_cong [where f = snd])
  moreover have "clock_ok fault_events" by (simp add: clock_ok_def fault_events_def normal_def less_eq_timeval_def)
  moreover have "delivers sample_feed (feed_records sample_feed)" by (simp add: delivers_def sample_feed_def EINTR_def)
  ultimately show thesis using that m w b by metis
qed

lemma fault_daemon_facts:
  assumes "bs \<noteq> []"
  shows "upcoming False (lg_reads (busy_daemon 2 bs) 5) = bs" and "conn_wf 5 (busy_daemon 2 bs)" and "b_end (busy_daemon 2 bs) 5 = 0"
    and "clock_apart (busy_daemon 2 bs) (pf_reports sysno (feed_records sample_feed))"
    and "c' \<noteq> 5 \<longrightarrow> client [] c' (busy_daemon 2 bs)"
    and "0 \<le> outfd (busy_daemon 2 bs)" and "full_writes (busy_daemon 2 bs)" and "lg_out (busy_daemon 2 bs) = []"
    and "list_all (\<lambda>ready. (3 :: int) \<notin> set ready \<and> distinct ready \<and> set ready \<subseteq> {0..<nfds (busy_daemon 2 bs)}) [[5]]"
proof -
  show "upcoming False (lg_reads (busy_daemon 2 bs) 5) = bs" using assms by (cases bs) (simp_all add: busy_daemon_def one_thread_def)
  show "clock_apart (busy_daemon 2 bs) (pf_reports sysno (feed_records sample_feed))"
    by (simp add: clock_apart_def all_begun_reports sample_feed_facts busy_daemon_def one_thread_def sample_logd_def fault_entry_def timersub_def
        remote_time_def timerisset_def Let_def)
  show "c' \<noteq> 5 \<longrightarrow> client [] c' (busy_daemon 2 bs)"
    by (simp add: client_def clock_apart_def busy_daemon_def one_thread_def sample_logd_def)
qed (simp_all add: busy_daemon_def one_thread_def sample_logd_def full_writes_def conn_wf_def list_all_iff)

theorem faults_are_printed_witness:
  "\<exists>p' st' L M. pf_reader_thr (\<lambda>_. 90) [] answers sample_feed pf0 = Inr p' \<and>
     logd_rounds 3 (map Some [[5]]) (busy_daemon 2 (pf_sent p')) = Inr st' \<and>
     map snd (filter (\<lambda>ce. fst ce = 5) L) = fault_entry (\<lambda>_. 90) ''PAGEFAULT_BEGIN'' (fault_at 1 (Timeval 6 200)) (Timeval 5 999990) # M \<and>
     expand_main (\<lambda>_. ''fault'') (\<lambda>_. Some (Some (length (lg_out st')), bytewise (lg_out st'))) [''expand'', ''raw.log''] =
       Inr (1, shown (\<lambda>_. ''fault'') 0 (map (\<lambda>ce. apply_timediff (timediff st' (fst ce)) (snd ce)) L) @
               totals (length L) (length (lg_out st')))"
proof -
  from fault_session obtain m' where
    m: "run_all (mod_step k_strtol 32768) (map call_of fault_events) (snd (init_module 32768 loads module0)) = Inr m'"
      "delivers sample_feed (pm_relay m')" "in_service 32768 (snd (init_module 32768 loads module0))"
      "watch_state (snd (init_module 32768 loads module0)) = ({}, [])"
    and w: "watched fault_events = feed_records sample_feed" "clock_ok fault_events" "list_all (\<lambda>ev. event_pid ev < 32768) fault_events" .
  have p: "0 \<le> k_socket answers" "0 \<le> k_connect answers" "takes_entries pf0" "2 * length sample_feed \<le> length (pf_writes pf0)" "pf_sent pf0 = []"
    by (simp_all add: answers_def takes_entries_def pf0_def sample_feed_facts list_all_iff)
  have l: "pid_limit 32768" "(32768 :: nat) \<le> 65536" by (simp_all add: pid_limit_def)
  let ?es = "pf_reports (\<lambda>_. 90) (feed_records sample_feed)"
  have es: "?es = slow_faults (\<lambda>_. 90) (feed_records sample_feed)" by (rule all_begun_reports [OF sample_feed_facts(5)])
  from pf_reader_sends [OF p(1,2) sample_feed_facts(1,2) p(3,4), of "\<lambda>_. 90" "[]"] p(5) obtain p' where
    p': "pf_reader_thr (\<lambda>_. 90) [] answers sample_feed pf0 = Inr p'" "pf_sent p' = concat (map entry_bytes ?es)" by auto
  have "entry_bytes e \<noteq> []" for e by (simp add: entry_bytes_def frozen_bytes_def)
  then have ne: "pf_sent p' \<noteq> []" by (simp add: p'(2) es sample_feed_facts)
  note d = fault_daemon_facts [OF ne]
  have "client ?es 5 (busy_daemon 2 (pf_sent p'))" using d(1-4) p'(2) pf_reports_wf by (intro feed_client) simp_all
  from busy_daemon_round [OF this _ _ ne] obtain st' where
    st': "logd_rounds 3 (map Some [[5]]) (busy_daemon 2 (pf_sent p')) = Inr st'" "lg_reads st' 5 = []"
    by (auto simp: es sample_feed_facts)
  have "\<forall>c'. c' \<noteq> 5 \<longrightarrow> client ((\<lambda>_. []) c') c' (busy_daemon 2 (pf_sent p'))" using d(5) by simp
  from faults_are_printed [where files = "\<lambda>_. Some (Some (length (lg_out st')), bytewise (lg_out st'))" and fn = "''raw.log''" and s2s = "\<lambda>_. ''fault''",
      OF k_strtol_converts l m(3,4) w(3,2) m(1,2) p p'(1) d(1-3) _ this d(6-9) st'(1) _ bytewise_ok] d(4) w(1)
  obtain rest L where L: "interleaves L ((\<lambda>_. [])(5 := ?es)) rest" "relayed_whole rest st'"
    and x: "expand_main (\<lambda>_. ''fault'') (\<lambda>_. Some (Some (length (lg_out st')), bytewise (lg_out st'))) [''expand'', ''raw.log''] =
       Inr (1, shown (\<lambda>_. ''fault'') 0 (map (\<lambda>ce. apply_timediff (timediff st' (fst ce)) (snd ce)) L) @
               totals (length L) (length (lg_out st')))" by auto
  have "upcoming False (lg_reads st' 5) = []" by (simp add: st'(2))
  then have "rest 5 = [] \<or> (\<exists>e. rest 5 = [e])" using L(2) unfolding relayed_whole_def by blast
  moreover have "?es = map snd (filter (\<lambda>ce. fst ce = 5) L) @ rest 5" using L(1) by (auto simp: interleaves_def dest: spec [of _ 5])
  ultimately obtain M where
    "map snd (filter (\<lambda>ce. fst ce = 5) L) = fault_entry (\<lambda>_. 90) ''PAGEFAULT_BEGIN'' (fault_at 1 (Timeval 6 200)) (Timeval 5 999990) # M"
    by (auto simp: es sample_feed_facts Cons_eq_append_conv)
  then show ?thesis using p'(1) st'(1) x by (intro exI [of _ p'] exI [of _ st'] exI [of _ L] exI [of _ M]) simp
qed

section \<open>Programs with threads\<close>

text \<open>
  A run of the threads of a process, and a connection of the daemon that belongs to the \<open>i\<close>-th connection of a process.
\<close>

record trun =
  tr_pid :: "32 word"
  tr_sched :: "(64 word \<times> tev) list"
  tr_end :: lproc

definition thread_run :: "(sysid \<Rightarrow> int) \<Rightarrow> char \<Rightarrow> trun \<Rightarrow> bool" where
  "thread_run sysno nm r \<longleftrightarrow> orderly sysno nm (tr_pid r) (tr_sched r) lproc0 \<and> run_threads sysno nm (tr_pid r) (tr_sched r) lproc0 = Inr (tr_end r)"

text \<open>The clock of the daemon differs from the times of the calls.\<close>

definition calls_apart :: "(sysid \<Rightarrow> int) \<Rightarrow> char \<Rightarrow> logd \<Rightarrow> trun \<Rightarrow> bool" where
  "calls_apart sysno nm st r \<longleftrightarrow>
     (\<forall>n t. \<forall>nc \<in> set (calls_of t (tr_sched r)).
        timerisset (timersub (lg_clock st n) (remote_time (logged_frozen sysno nm (fst nc) (alloc_ctx (tr_pid r) 79 t []) (snd nc) []))))"

definition conn_source :: "logd \<Rightarrow> int \<Rightarrow> (trun \<times> nat) option \<Rightarrow> bool" where
  "conn_source st c src \<longleftrightarrow>
     (case src of None \<Rightarrow> relay st c = None \<and> upcoming False (lg_reads st c) = []
      | Some (r, i) \<Rightarrow> i < length (lp_conns (tr_end r)) \<and> upcoming False (lg_reads st c) = lp_conns (tr_end r) ! i \<and>
          conn_wf c st \<and> b_end st c = 0)"

text \<open>What a run leaves: its entries by connection, with the calls and the buffers of its threads.\<close>

definition run_entries :: "(sysid \<Rightarrow> int) \<Rightarrow> char \<Rightarrow> trun \<Rightarrow> (64 word \<times> logentry_thaw) list list \<Rightarrow> bool" where
  "run_entries sysno nm r Ls \<longleftrightarrow> lp_conns (tr_end r) = map conn_bytes Ls \<and> (\<forall>te \<in> set (concat Ls). wf_thaw (snd te)) \<and>
     (\<forall>t. \<exists>C B. calls_of t (tr_sched r) = C @ in_progress t (tr_end r) \<and> encoded sysno nm (tr_pid r) t C (entries_of t (concat Ls) @ B))"

lemma thread_run_entries: "thread_run sysno nm r \<Longrightarrow> \<exists>Ls. run_entries sysno nm r Ls"
  using threads_log [of sysno nm "tr_pid r" "tr_sched r" "tr_end r"] unfolding thread_run_def run_entries_def by blast

lemma encoded_size_thread:
  assumes "encoded sysno nm pid t C es" and "e \<in> set es" and "list_all (\<lambda>nc. logcall_fits (snd nc)) C"
  shows "\<exists>nc \<in> set C. length (entry_bytes e) = 32 + 4 * lc_num (snd nc) + length (logged_str (snd nc))"
  using assms unfolding encoded_def by (induction rule: list_all2_induct) (auto simp: call_encoded_def logged_entry_length)

lemma encoded_time:
  assumes "encoded sysno nm pid t C es" and "e \<in> set es"
  shows "\<exists>nc \<in> set C. remote_time (th_fz e) = remote_time (logged_frozen sysno nm (fst nc) (alloc_ctx pid 79 t []) (snd nc) [])"
  using assms unfolding encoded_def
  by (induction rule: list_all2_induct) (auto simp: call_encoded_def logged_entry_def logged_frozen_def remote_time_def)

lemma run_entries_apart:
  assumes "run_entries sysno nm r Ls" and "calls_apart sysno nm st r" and "te \<in> set (concat Ls)"
  shows "timerisset (timersub (lg_clock st n) (remote_time (th_fz (snd te))))"
proof -
  from assms(1) obtain C B where c: "calls_of (fst te) (tr_sched r) = C @ in_progress (fst te) (tr_end r)"
    "encoded sysno nm (tr_pid r) (fst te) C (entries_of (fst te) (concat Ls) @ B)" unfolding run_entries_def by blast
  have "snd te \<in> set (entries_of (fst te) (concat Ls) @ B)" using assms(3) by (force simp: entries_of_def)
  from encoded_time [OF c(2) this] obtain nc where
    nc: "nc \<in> set C" "remote_time (th_fz (snd te)) = remote_time (logged_frozen sysno nm (fst nc) (alloc_ctx (tr_pid r) 79 (fst te) []) (snd nc) [])" ..
  have "nc \<in> set (calls_of (fst te) (tr_sched r))" using nc(1) c(1) by simp
  then show ?thesis using assms(2) nc(2) unfolding calls_apart_def by metis
qed

lemma source_client:
  assumes "conn_source st c src" and "\<And>r i. src = Some (r, i) \<Longrightarrow> run_entries sysno nm r (Ls r) \<and> calls_apart sysno nm st r"
  shows "client (case src of None \<Rightarrow> [] | Some (r, i) \<Rightarrow> map snd (Ls r ! i)) c st"
proof (cases src)
  case None
  with assms(1) show ?thesis by (simp add: conn_source_def client_def clock_apart_def)
next
  case (Some ri)
  obtain r i where ri: "ri = (r, i)" by (cases ri)
  have r: "run_entries sysno nm r (Ls r)" "calls_apart sysno nm st r" using assms(2) Some ri by simp_all
  have s: "i < length (Ls r)" "upcoming False (lg_reads st c) = conn_bytes (Ls r ! i)" "conn_wf c st" "b_end st c = 0"
    using assms(1) r(1) Some ri by (auto simp: conn_source_def run_entries_def)
  have sub: "te \<in> set (concat (Ls r))" if "te \<in> set (Ls r ! i)" for te using that s(1) by auto
  have "client (map snd (Ls r ! i)) c st"
  proof (rule feed_client)
    show "upcoming False (lg_reads st c) = concat (map entry_bytes (map snd (Ls r ! i)))" using s(2) by (simp add: conn_bytes_def comp_def)
    show "list_all wf_thaw (map snd (Ls r ! i))" using r(1) sub by (auto simp: run_entries_def list_all_iff)
    show "clock_apart st (map snd (Ls r ! i))" using run_entries_apart [OF r] sub by (auto simp: clock_apart_def)
  qed (use s in simp_all)
  then show ?thesis by (simp add: Some ri)
qed

text \<open>
  C11: what the threads of traced programs log is printed.  Let the threads of any number of programs run in any orderly
  interleaving, each program leaving any number of connections to the daemon behind; let every connection of the daemon be one of
  these or unused, let the daemon run any rounds, and let \<^verbatim>\<open>expand\<close> read the file it has written.  Then \<^verbatim>\<open>expand\<close> prints an interleaving
  of prefixes of the connections, whose entries are for each thread of each program the entries of its calls in order, up to
  what is still in its buffer or not flushed yet.  Of a connection that the daemon has read to its end all entries are printed, but for
  a last one of the size of a header on a connection that is still open.

  Orderly (C5) means that every call fits the buffer, that each \<^verbatim>\<open>write\<close> takes all it is given, that nothing is logged during
  a flush of the same thread, and that a thread ends with an empty buffer; the daemon works under the conditions of C10.
\<close>
theorem threaded_calls_are_printed:
  assumes "\<forall>c r i. src c = Some (r, i) \<longrightarrow> thread_run sysno nm r \<and> calls_apart sysno nm st r" and "\<forall>c. conn_source st c (src c)"
    and "0 \<le> outfd st" and "full_writes st" and "lg_out st = []"
    and "list_all (\<lambda>ready. sock \<notin> set ready \<and> distinct ready \<and> set ready \<subseteq> {0..<nfds st}) readies"
    and "logd_rounds sock (map Some readies) st = Inr st'"
    and "files fn = Some (Some (length (lg_out st')), script)" and "upcoming False script = lg_out st'" and "ends_eof script"
    and "\<forall>b. RdBytes b \<in> set script \<longrightarrow> length b \<le> PIPE_BUF"
  shows "\<exists>Ls rest L. (\<forall>c r i. src c = Some (r, i) \<longrightarrow> run_entries sysno nm r (Ls r)) \<and>
     interleaves L (\<lambda>c. case src c of None \<Rightarrow> [] | Some (r, i) \<Rightarrow> map snd (Ls r ! i)) rest \<and> relayed_whole rest st' \<and>
     expand_main s2s files [''expand'', fn] =
       Inr (1, shown s2s 0 (map (\<lambda>ce. apply_timediff (timediff st' (fst ce)) (snd ce)) L) @
               totals (length L) (length (lg_out st')))"
proof -
  have "\<exists>Ls. \<forall>r. thread_run sysno nm r \<longrightarrow> run_entries sysno nm r (Ls r)" using thread_run_entries by metis
  then obtain Ls where Ls: "\<And>r. thread_run sysno nm r \<Longrightarrow> run_entries sysno nm r (Ls r)" by blast
  let ?S = "\<lambda>c. case src c of None \<Rightarrow> [] | Some (r, i) \<Rightarrow> map snd (Ls r ! i)"
  have "\<forall>c. client (?S c) c st" using source_client [OF spec [OF assms(2)]] assms(1) Ls by blast
  from clients_printed [where S = ?S and files = files and fn = fn, OF this assms(3-11)] assms(1) Ls show ?thesis by blast
qed

text \<open>The two threads of \<open>two_threads\<close>, whose second connection the daemon has behind descriptor 5.\<close>

lemma conn_bytes_few:
  assumes "\<forall>te \<in> set L. wf_thaw (snd te)"
  shows "32 * length L \<le> length (conn_bytes L)"
  using assms
proof (induction L)
  case (Cons te L)
  have "length (frozen_bytes (th_fz (snd te))) = 32" using Cons.prems by (simp add: length_frozen_bytes wf_thaw_def wf_frozen_def Let_def)
  then have "32 \<le> length (entry_bytes (snd te))" by (simp add: entry_bytes_def)
  with Cons show ?case by (simp add: conn_bytes_def)
qed simp

lemma two_threads_sizes:
  assumes "run_entries sysno nm r Ls" and "tr_sched r = two_threads" and "te \<in> set (concat Ls)"
  shows "length (entry_bytes (snd te)) = 40"
proof -
  from assms(1) obtain C B where c: "calls_of (fst te) (tr_sched r) = C @ in_progress (fst te) (tr_end r)"
    "encoded sysno nm (tr_pid r) (fst te) C (entries_of (fst te) (concat Ls) @ B)" unfolding run_entries_def by blast
  have all: "snd nc = sample_call" if "nc \<in> set (calls_of (fst te) two_threads)" for nc using that by (auto simp: two_threads_def split: if_splits)
  then have C: "\<forall>nc \<in> set C. snd nc = sample_call" using c(1) assms(2) by simp
  then have "list_all (\<lambda>nc. logcall_fits (snd nc)) C" by (simp add: list_all_iff sample_call_fits)
  moreover have "snd te \<in> set (entries_of (fst te) (concat Ls) @ B)" using assms(3) by (force simp: entries_of_def)
  ultimately obtain nc where "nc \<in> set C" "length (entry_bytes (snd te)) = 32 + 4 * lc_num (snd nc) + length (logged_str (snd nc))"
    using encoded_size_thread [OF c(2)] by blast
  with C show ?thesis by (simp add: sample_call_def LOGBINii_def logcall_gen_def logged_str_def)
qed

lemma two_threads_session:
  obtains r where "thread_run (\<lambda>_. 17) CHR ''h'' r" and "tr_sched r = two_threads" and "calls_apart (\<lambda>_. 17) CHR ''h'' (busy_daemon 2 (lp_conns (tr_end r) ! 1)) r"
    and "length (lp_conns (tr_end r)) = 2" and "length (lp_conns (tr_end r) ! 1) = 80"
proof -
  from two_threads_run [of "\<lambda>_. 17" "CHR ''h''" 4321] obtain st where
    st: "run_threads (\<lambda>_. 17) CHR ''h'' 4321 two_threads lproc0 = Inr st" "orderly (\<lambda>_. 17) CHR ''h'' 4321 two_threads lproc0"
      "length (lp_conns st) = 2" "length (lp_conns st ! 1) = 80" by blast
  let ?r = "\<lparr> tr_pid = 4321, tr_sched = two_threads, tr_end = st \<rparr>"
  have "calls_apart (\<lambda>_. 17) CHR ''h'' (busy_daemon 2 (lp_conns st ! 1)) ?r"
    by (auto simp: calls_apart_def two_threads_def busy_daemon_def one_thread_def sample_logd_def timersub_def remote_time_def
        logged_frozen_def stamp_def alloc_ctx_def timerisset_def Let_def)
  then show thesis using that [of ?r] st by (simp add: thread_run_def)
qed

theorem threaded_calls_are_printed_witness:
  "\<exists>r st' L. thread_run (\<lambda>_. 17) CHR ''h'' r \<and> logd_rounds 3 (map Some [[5]]) (busy_daemon 2 (lp_conns (tr_end r) ! 1)) = Inr st' \<and>
     length (lp_conns (tr_end r) ! 1) = 80 \<and>
     concat (map entry_bytes (map snd (filter (\<lambda>ce. fst ce = 5) L))) = lp_conns (tr_end r) ! 1 \<and>
     expand_main (\<lambda>_. ''read'') (\<lambda>_. Some (Some (length (lg_out st')), bytewise (lg_out st'))) [''expand'', ''raw.log''] =
       Inr (1, shown (\<lambda>_. ''read'') 0 (map (\<lambda>ce. apply_timediff (timediff st' (fst ce)) (snd ce)) L) @
               totals (length L) (length (lg_out st')))"
proof -
  from two_threads_session obtain r where r: "thread_run (\<lambda>_. 17) CHR ''h'' r" "tr_sched r = two_threads"
    "calls_apart (\<lambda>_. 17) CHR ''h'' (busy_daemon 2 (lp_conns (tr_end r) ! 1)) r"
    "length (lp_conns (tr_end r)) = 2" "length (lp_conns (tr_end r) ! 1) = 80" .
  let ?bs = "lp_conns (tr_end r) ! 1" and ?src = "(\<lambda>_. None)((5 :: int) := Some (r, 1 :: nat))"
  have ne: "?bs \<noteq> []" using r(5) by auto
  note d = fault_daemon_facts [OF ne]
  have src: "conn_source (busy_daemon 2 ?bs) c (?src c)" for c
    using d(1-3) r(4) by (auto simp: conn_source_def) (simp_all add: busy_daemon_def one_thread_def sample_logd_def)
  have few: "length (Ls ! 1) \<le> 2" "set (Ls ! 1) \<subseteq> set (concat Ls)" "conn_bytes (Ls ! 1) = ?bs" if "run_entries (\<lambda>_. 17) CHR ''h'' r Ls" for Ls
  proof -
    have l: "length Ls = 2" "conn_bytes (Ls ! 1) = ?bs" using that r(4) by (auto simp: run_entries_def)
    then show "set (Ls ! 1) \<subseteq> set (concat Ls)" "conn_bytes (Ls ! 1) = ?bs" by force+
    then have "32 * length (Ls ! 1) \<le> 80" using conn_bytes_few [of "Ls ! 1"] that r(5) by (auto simp: run_entries_def)
    then show "length (Ls ! 1) \<le> 2" by simp
  qed
  from thread_run_entries [OF r(1)] obtain Ls where Ls: "run_entries (\<lambda>_. 17) CHR ''h'' r Ls" ..
  have "client (map snd (Ls ! 1)) 5 (busy_daemon 2 ?bs)"
    using source_client [OF src [of 5], of "\<lambda>_. 17" "CHR ''h''" "\<lambda>_. Ls"] Ls r(3) by simp
  from busy_daemon_round [OF this _ _ ne] few(1) [OF Ls] obtain st' where
    st': "logd_rounds 3 (map Some [[5]]) (busy_daemon 2 ?bs) = Inr st'" "lg_reads st' 5 = []" by auto
  have "\<forall>c q i. ?src c = Some (q, i) \<longrightarrow> thread_run (\<lambda>_. 17) CHR ''h'' q \<and> calls_apart (\<lambda>_. 17) CHR ''h'' (busy_daemon 2 ?bs) q"
    using r(1,3) by (simp split: if_splits)
  from threaded_calls_are_printed [where files = "\<lambda>_. Some (Some (length (lg_out st')), bytewise (lg_out st'))" and fn = "''raw.log''" and s2s = "\<lambda>_. ''read''",
      OF this allI [OF src] d(6-9) st'(1) refl bytewise_ok]
  obtain Ms rest L where M: "\<forall>c q i. ?src c = Some (q, i) \<longrightarrow> run_entries (\<lambda>_. 17) CHR ''h'' q (Ms q)"
    "interleaves L (\<lambda>c. case ?src c of None \<Rightarrow> [] | Some (q, i) \<Rightarrow> map snd (Ms q ! i)) rest" "relayed_whole rest st'"
    and x: "expand_main (\<lambda>_. ''read'') (\<lambda>_. Some (Some (length (lg_out st')), bytewise (lg_out st'))) [''expand'', ''raw.log''] =
       Inr (1, shown (\<lambda>_. ''read'') 0 (map (\<lambda>ce. apply_timediff (timediff st' (fst ce)) (snd ce)) L) @
               totals (length L) (length (lg_out st')))" by blast
  have m: "run_entries (\<lambda>_. 17) CHR ''h'' r (Ms r)" using M(1) by (simp split: if_splits)
  have "length (entry_bytes (snd te)) \<noteq> sizeof_frozen" if "te \<in> set (Ms r ! 1)" for te
    using two_threads_sizes [OF m r(2) subsetD [OF few(2) [OF m] that]] by (simp add: sizeof_frozen_def)
  then have "map snd (filter (\<lambda>ce. fst ce = 5) L) = (\<lambda>c. case ?src c of None \<Rightarrow> [] | Some (q, i) \<Rightarrow> map snd (Ms q ! i)) 5"
    by (intro relayed_client [OF M(3,2) st'(2)]) auto
  then have "concat (map entry_bytes (map snd (filter (\<lambda>ce. fst ce = 5) L))) = ?bs"
    using few(3) [OF m] by (simp add: conn_bytes_def comp_def)
  with r(1,5) st'(1) x show ?thesis by (intro exI [of _ r] exI [of _ st'] exI [of _ L]) simp
qed

end
